(* ===== verification/OX_Prelude.thy ===== *)
theory OX_Prelude
  imports Main "HOL-Library.Word"
begin

text \<open>
  Shared vocabulary of the development: the outcome type of C code that may stop abnormally
  (\<open>c_error\<close>, \<open>result\<close>), bounds-checked array access, the byte order of the
  host (little endian, as on the x86-64 machines the sources are built for) and the lemmas on
  words, lists and bytes that every component uses.

  A C function that may run into undefined behaviour, fail a \<open>BUG_ON\<close>, call \<open>exit\<close> or loop
  for ever returns a \<open>result\<close>: \<open>Inl\<close> names what went wrong, \<open>Inr\<close>
  carries the value.
\<close>

unbundle bit_operations_syntax

section \<open>Outcomes\<close>

datatype c_error =
    Out_Of_Bounds   \<comment> \<open>an access outside the object the pointer refers to\<close>
  | Null_Deref      \<comment> \<open>an access through a NULL pointer\<close>
  | Bug_On          \<comment> \<open>the \<open>BUG_ON\<close> macro: message and \<open>exit(1)\<close>\<close>
  | Exited          \<comment> \<open>a direct call of \<open>exit\<close>\<close>
  | Blocked         \<comment> \<open>the caller spins until another thread makes room\<close>
  | Undefined       \<comment> \<open>a compiler builtin outside its domain\<close>
  | Diverges        \<comment> \<open>a loop that never reaches its exit condition\<close>

type_synonym 'a result = "c_error + 'a"

type_synonym byte = "8 word"
type_synonym u64 = "64 word"
type_synonym u32 = "32 word"

fun bindR :: "'a result \<Rightarrow> ('a \<Rightarrow> 'b result) \<Rightarrow> 'b result" where
  "bindR (Inl err) f = Inl err"
| "bindR (Inr x) f = f x"

lemma bindR_Inr_iff: "bindR m f = Inr y \<longleftrightarrow> (\<exists>x. m = Inr x \<and> f x = Inr y)"
  by (cases m) auto

lemma bindR_InrE:
  assumes "bindR m f = Inr y"
  obtains x where "m = Inr x" "f x = Inr y"
  using assms by (auto simp: bindR_Inr_iff)

lemma bindR_assoc: "bindR (bindR m f) g = bindR m (\<lambda>x. bindR (f x) g)"
  by (cases m) simp_all

lemma bindR_cong [fundef_cong]:
  "m = m' \<Longrightarrow> (\<And>x. m' = Inr x \<Longrightarrow> f x = f' x) \<Longrightarrow> bindR m f = bindR m' f'"
  by (cases m') auto

text \<open>The outcome of a loop that is modelled by \<open>partial_function\<close>: no value means that
  the loop does not end.\<close>

definition loop_result :: "'a result option \<Rightarrow> 'a result" where
  "loop_result r = (case r of None \<Rightarrow> Inl Diverges | Some x \<Rightarrow> x)"

lemma loop_result_simps [simp]:
  "loop_result (Some x) = x" "loop_result None = Inl Diverges"
  by (simp_all add: loop_result_def)

definition bug_on :: "bool \<Rightarrow> 'a result \<Rightarrow> 'a result" where
  "bug_on cond k = (if cond then Inl Bug_On else k)"

lemma bug_on_simps [simp]: "bug_on False k = k" "bug_on True k = Inl Bug_On"
  by (simp_all add: bug_on_def)

section \<open>Arrays\<close>

text \<open>Reading and writing an array element, with the index checked.  An index computed in
  \<open>size_t\<close> that would be negative wraps to a huge one, which is out of bounds as well.\<close>

definition arr_get :: "'a list \<Rightarrow> int \<Rightarrow> 'a result" where
  "arr_get xs i = (if 0 \<le> i \<and> i < int (length xs) then Inr (xs ! nat i) else Inl Out_Of_Bounds)"

definition arr_set :: "'a list \<Rightarrow> int \<Rightarrow> 'a \<Rightarrow> 'a list result" where
  "arr_set xs i v =
     (if 0 \<le> i \<and> i < int (length xs) then Inr (xs[nat i := v]) else Inl Out_Of_Bounds)"

lemma arr_get_in [simp]: "0 \<le> i \<Longrightarrow> i < int (length xs) \<Longrightarrow> arr_get xs i = Inr (xs ! nat i)"
  by (simp add: arr_get_def)

lemma arr_set_in [simp]:
  "0 \<le> i \<Longrightarrow> i < int (length xs) \<Longrightarrow> arr_set xs i v = Inr (xs[nat i := v])"
  by (simp add: arr_set_def)

lemma arr_get_Inr_iff:
  "arr_get xs i = Inr v \<longleftrightarrow> 0 \<le> i \<and> i < int (length xs) \<and> v = xs ! nat i"
  by (auto simp: arr_get_def)

lemma arr_set_Inr_iff:
  "arr_set xs i v = Inr ys \<longleftrightarrow> 0 \<le> i \<and> i < int (length xs) \<and> ys = xs[nat i := v]"
  by (auto simp: arr_set_def)

section \<open>Wrap-around of positions\<close>

lemma ring_wrap:
  fixes x n :: nat
  assumes "x < 2 * n"
  shows "x mod n = (if x < n then x else x - n)"
  using assms by (auto simp: mod_if)

section \<open>Byte order\<close>

definition le_bytes :: "u64 \<Rightarrow> byte list" where
  "le_bytes w = map (\<lambda>i. ucast (drop_bit (8 * i) w)) [0..<8]"

fun of_le_bytes :: "byte list \<Rightarrow> u64" where
  "of_le_bytes [] = 0"
| "of_le_bytes (b # bs) = ucast b OR push_bit 8 (of_le_bytes bs)"

text \<open>\<open>htobe64\<close> and \<open>be64toh\<close> on a little-endian host reverse the bytes of the word.\<close>

definition htobe64 :: "u64 \<Rightarrow> u64" where
  "htobe64 w = of_le_bytes (rev (le_bytes w))"

definition be64toh :: "u64 \<Rightarrow> u64" where
  "be64toh w = of_le_bytes (rev (le_bytes w))"

text \<open>The bytes of an array of 64-bit words in memory, and the words that a byte sequence
  holds.\<close>

definition flit_bytes :: "u64 list \<Rightarrow> byte list" where
  "flit_bytes ws = concat (map le_bytes ws)"

fun words_of_bytes :: "byte list \<Rightarrow> u64 list" where
  "words_of_bytes [] = []"
| "words_of_bytes (b # bs) = of_le_bytes (take 8 (b # bs)) # words_of_bytes (drop 8 (b # bs))"

declare words_of_bytes.simps(2) [simp del]


lemma length_le_bytes [simp]: "length (le_bytes w) = 8"
  by (simp add: le_bytes_def)

lemma bit_of_le_bytes:
  "bit (of_le_bytes bs) n \<longleftrightarrow>
     n < 64 \<and> n div 8 < length bs \<and> bit (bs ! (n div 8)) (n mod 8)"
proof (induction bs arbitrary: n)
  case Nil
  then show ?case by simp
next
  case (Cons b bs)
  have len: "bit b k \<Longrightarrow> k < 8" for k
    by (drule bit_imp_le_length) simp
  show ?case
  proof (cases "n < 8")
    case True
    then show ?thesis by (auto simp: bit_simps dest: bit_imp_le_length)
  next
    case False
    then have "n div 8 = Suc ((n - 8) div 8)" "n mod 8 = (n - 8) mod 8"
      by (simp_all add: le_div_geq le_mod_geq)
    then show ?thesis using False
      by (auto simp: bit_simps Cons.IH dest: len)
  qed
qed

lemma nth_le_bytes: "k < 8 \<Longrightarrow> le_bytes w ! k = ucast (drop_bit (8 * k) w)"
  by (simp add: le_bytes_def)

lemma of_le_bytes_le_bytes [simp]: "of_le_bytes (le_bytes w) = w"
proof (rule bit_word_eqI)
  fix n
  assume "n < LENGTH(64)"
  then have "n < 64" by simp
  then have "n div 8 < 8" and "8 * (n div 8) + n mod 8 = n" by presburger+
  then show "bit (of_le_bytes (le_bytes w)) n = bit w n"
    using \<open>n < 64\<close> \<open>n div 8 < 8\<close> by (simp add: bit_of_le_bytes nth_le_bytes bit_simps)
qed

lemma le_bytes_of_le_bytes:
  assumes "length bs = 8"
  shows "le_bytes (of_le_bytes bs) = bs"
proof (rule nth_equalityI)
  show "length (le_bytes (of_le_bytes bs)) = length bs" using assms by simp
next
  fix k
  assume "k < length (le_bytes (of_le_bytes bs))"
  then have k: "k < 8" by simp
  show "le_bytes (of_le_bytes bs) ! k = bs ! k"
  proof (rule bit_word_eqI)
    fix n
    assume "n < LENGTH(8)"
    then have n: "n < 8" by simp
    then have "(8 * k + n) div 8 = k" "(8 * k + n) mod 8 = n" "8 * k + n < 64"
      using k by auto
    then show "bit (le_bytes (of_le_bytes bs) ! k) n = bit (bs ! k) n"
      using k n assms by (simp add: nth_le_bytes bit_simps bit_of_le_bytes)
  qed
qed

lemma le_bytes_htobe64: "le_bytes (htobe64 w) = rev (le_bytes w)"
  by (simp add: htobe64_def le_bytes_of_le_bytes)

lemma be64toh_htobe64 [simp]: "be64toh (htobe64 w) = w"
  by (simp add: be64toh_def le_bytes_htobe64)

lemma length_flit_bytes [simp]: "length (flit_bytes ws) = 8 * length ws"
  by (induction ws) (simp_all add: flit_bytes_def)

lemma flit_bytes_simps [simp]:
  "flit_bytes [] = []" "flit_bytes (w # ws) = le_bytes w @ flit_bytes ws"
  by (simp_all add: flit_bytes_def)

lemma flit_bytes_append: "flit_bytes (xs @ ys) = flit_bytes xs @ flit_bytes ys"
  by (simp add: flit_bytes_def)

lemma drop_flit_bytes: "drop (8 * n) (flit_bytes ws) = flit_bytes (drop n ws)"
proof (induction n arbitrary: ws)
  case (Suc n)
  then show ?case by (cases ws) simp_all
qed simp

lemma take_flit_bytes: "take (8 * n) (flit_bytes ws) = flit_bytes (take n ws)"
proof (induction n arbitrary: ws)
  case (Suc n)
  then show ?case by (cases ws) simp_all
qed simp

lemma words_of_bytes_append8:
  "length bs = 8 \<Longrightarrow> words_of_bytes (bs @ cs) = of_le_bytes bs # words_of_bytes cs"
  by (cases bs) (simp_all add: words_of_bytes.simps(2))

lemma words_of_flit_bytes_append:
  "words_of_bytes (flit_bytes ws @ bs) = ws @ words_of_bytes bs"
  by (induction ws) (simp_all add: words_of_bytes_append8)

lemma words_of_flit_bytes [simp]: "words_of_bytes (flit_bytes ws) = ws"
  using words_of_flit_bytes_append [of ws "[]"] by simp

lemma length_words_of_bytes: "length (words_of_bytes bs) = (length bs + 7) div 8"
proof (induction bs rule: words_of_bytes.induct)
  case (2 b bs)
  then show ?case by (cases "length bs < 8") (auto simp: words_of_bytes.simps(2))
qed simp

lemma flit_bytes_words_of_bytes:
  "8 dvd length bs \<Longrightarrow> flit_bytes (words_of_bytes bs) = bs"
proof (induction bs rule: words_of_bytes.induct)
  case (2 b bs)
  from "2.prems" have len: "8 \<le> length (b # bs)" by (intro dvd_imp_le) simp_all
  with "2.prems" have "8 dvd length (drop 8 (b # bs))"
    by (metis dvd_diff_nat dvd_refl length_drop)
  then have rest: "flit_bytes (words_of_bytes (drop 8 (b # bs))) = drop 8 (b # bs)"
    by (rule "2.IH")
  have head: "le_bytes (of_le_bytes (take 8 (b # bs))) = take 8 (b # bs)"
    using len by (intro le_bytes_of_le_bytes) simp
  show ?case
    by (simp only: words_of_bytes.simps(2) flit_bytes_simps rest head append_take_drop_id)
qed simp

end
