(* ===== verification/Circular_Queue.thy ===== *)
theory Circular_Queue
  imports OX_Prelude
begin

text \<open>
  The ring buffer of \<open>util/circular_queue.c\<close>: its record, its operations as the C code has
  them, its invariant, the list it stands for, the interface \<open>bounded_queue\<close> that the
  rest of the program relies on and the proof that the ring buffer provides it.
\<close>

section \<open>The code\<close>

text \<open>\<open>data\<close> is the flexible array of \<open>void *\<close>; a slot that was never written holds nothing.
  The mutex and condition variable of the struct are initialised and never used.\<close>

record 'a cqueue =
  front :: nat
  rear :: nat
  cq_size :: nat
  cq_data :: "'a option list"

definition create_queue :: "nat \<Rightarrow> 'a cqueue" where
  "create_queue n = \<lparr>front = 0, rear = 0, cq_size = n, cq_data = replicate n None\<rparr>"

definition is_queue_empty :: "'a cqueue \<Rightarrow> bool" where
  "is_queue_empty q = (front q = rear q)"

definition is_queue_full :: "'a cqueue \<Rightarrow> bool" where
  "is_queue_full q = ((rear q + 1) mod cq_size q = front q)"

definition enqueue :: "'a cqueue \<Rightarrow> 'a \<Rightarrow> 'a cqueue \<times> bool" where
  "enqueue q x =
     (if is_queue_full q then (q, False)
      else (q\<lparr>cq_data := (cq_data q)[rear q := Some x],
              rear := (rear q + 1) mod cq_size q\<rparr>, True))"

definition dequeue :: "'a cqueue \<Rightarrow> 'a cqueue \<times> 'a option" where
  "dequeue q =
     (if \<not> is_queue_empty q
      then (q\<lparr>front := (front q + 1) mod cq_size q\<rparr>, cq_data q ! front q)
      else (q, None))"

definition getfront :: "'a cqueue \<Rightarrow> 'a option" where
  "getfront q = (if is_queue_empty q then None else cq_data q ! front q)"

text \<open>The loop \<open>for (i = front; i != rear; i = (i + 1) % size)\<close> of \<open>delete_queue\<close>,
  \<open>printqueue\<close>, \<open>retransmit\<close> and \<open>get_earliest_element\<close>: the indices it visits, if it
  ends.\<close>

partial_function (option) cq_indices :: "nat \<Rightarrow> nat \<Rightarrow> nat \<Rightarrow> nat list option" where
  "cq_indices n i r =
     (if i = r then Some []
      else Option.bind (cq_indices n ((i + 1) mod n) r) (\<lambda>is. Some (i # is)))"

text \<open>\<open>delete_queue\<close>: the elements that are passed to \<open>free\<close>, in order.\<close>

definition delete_queue :: "'a cqueue \<Rightarrow> 'a list option" where
  "delete_queue q =
     map_option (\<lambda>is. map the (filter (\<lambda>e. e \<noteq> None) (map (\<lambda>i. cq_data q ! i) is)))
       (cq_indices (cq_size q) (front q) (rear q))"

text \<open>A store through the element pointer in slot \<open>i\<close>.\<close>

definition cq_update :: "'a cqueue \<Rightarrow> nat \<Rightarrow> 'a \<Rightarrow> 'a cqueue" where
  "cq_update q i x = q\<lparr>cq_data := (cq_data q)[i := Some x]\<rparr>"

section \<open>Invariant and abstraction\<close>

definition cq_count :: "'a cqueue \<Rightarrow> nat" where
  "cq_count q = (rear q + cq_size q - front q) mod cq_size q"

definition cq_slot :: "'a cqueue \<Rightarrow> nat \<Rightarrow> nat" where
  "cq_slot q k = (front q + k) mod cq_size q"

definition cq_list :: "'a cqueue \<Rightarrow> 'a list" where
  "cq_list q = map (\<lambda>k. the (cq_data q ! cq_slot q k)) [0..<cq_count q]"

definition cq_inv :: "'a cqueue \<Rightarrow> bool" where
  "cq_inv q \<longleftrightarrow>
     front q < cq_size q \<and> rear q < cq_size q \<and> length (cq_data q) = cq_size q \<and>
     list_all (\<lambda>k. cq_data q ! cq_slot q k \<noteq> None) [0..<cq_count q]"

text \<open>The number of elements a ring of this size holds: one slot stays free.\<close>

definition cq_cap :: "'a cqueue \<Rightarrow> nat" where
  "cq_cap q = cq_size q - 1"

lemma cq_invD:
  assumes "cq_inv q"
  shows "front q < cq_size q" "rear q < cq_size q" "length (cq_data q) = cq_size q"
    "0 < cq_size q" "k < cq_count q \<Longrightarrow> cq_data q ! cq_slot q k \<noteq> None"
  using assms by (auto simp: cq_inv_def list_all_iff)

lemma length_cq_list [simp]: "length (cq_list q) = cq_count q"
  by (simp add: cq_list_def)

lemma nth_cq_list: "k < cq_count q \<Longrightarrow> cq_list q ! k = the (cq_data q ! cq_slot q k)"
  by (simp add: cq_list_def)

lemma cq_slot_nth:
  "cq_inv q \<Longrightarrow> k < cq_count q \<Longrightarrow> cq_data q ! cq_slot q k = Some (cq_list q ! k)"
  by (simp add: nth_cq_list cq_invD(5))

lemma cq_slot_less: "cq_inv q \<Longrightarrow> cq_slot q k < cq_size q"
  by (simp add: cq_slot_def cq_invD)

text \<open>Positions on the ring: the only modular arithmetic of the component.\<close>

lemma ring_dist:
  fixes f r n :: nat
  assumes "f < n" "r < n"
  shows "(r + n - f) mod n = (if f \<le> r then r - f else r + n - f)"
proof (cases "f \<le> r")
  case True
  then have "r + n - f = (r - f) + n" by simp
  with True assms show ?thesis by (simp only: mod_add_self2) simp
next
  case False
  then show ?thesis using assms by simp
qed

lemma cq_count_eq:
  "cq_inv q \<Longrightarrow>
   cq_count q = (if front q \<le> rear q then rear q - front q else rear q + cq_size q - front q)"
  by (simp add: cq_count_def ring_dist cq_invD)

lemma cq_slot_eq:
  "cq_inv q \<Longrightarrow> k < cq_size q \<Longrightarrow>
   cq_slot q k = (if front q + k < cq_size q then front q + k else front q + k - cq_size q)"
  using cq_invD [of q] by (simp add: cq_slot_def ring_wrap)

lemma cq_count_less: "cq_inv q \<Longrightarrow> cq_count q < cq_size q"
  using cq_invD [of q] by (auto simp: cq_count_eq)

lemma cq_count_le_cap: "cq_inv q \<Longrightarrow> cq_count q \<le> cq_cap q"
  using cq_count_less [of q] by (simp add: cq_cap_def)

lemma cq_slot_count: "cq_inv q \<Longrightarrow> cq_slot q (cq_count q) = rear q"
  using cq_invD [of q] cq_count_less [of q] by (auto simp: cq_slot_eq cq_count_eq)

lemma cq_slot_inj:
  "cq_inv q \<Longrightarrow> j < cq_size q \<Longrightarrow> k < cq_size q \<Longrightarrow> cq_slot q j = cq_slot q k \<longleftrightarrow> j = k"
  using cq_invD [of q] by (auto simp: cq_slot_eq split: if_splits)

lemma is_queue_empty_iff: "cq_inv q \<Longrightarrow> is_queue_empty q \<longleftrightarrow> cq_list q = []"
  using cq_invD [of q]
  by (simp only: length_0_conv [symmetric] length_cq_list)
    (auto simp: is_queue_empty_def cq_count_eq)

lemma is_queue_full_iff: "cq_inv q \<Longrightarrow> is_queue_full q \<longleftrightarrow> length (cq_list q) = cq_cap q"
  using cq_invD [of q]
  by (auto simp: is_queue_full_def cq_count_eq cq_cap_def ring_wrap split: if_splits)

section \<open>The operations on the list\<close>

lemma cq_inv_create: "0 < n \<Longrightarrow> cq_inv (create_queue n)"
  by (simp add: cq_inv_def create_queue_def cq_count_def)

lemma cq_list_create [simp]: "cq_list (create_queue n) = []"
  by (simp add: cq_list_def create_queue_def cq_count_def)

lemma cq_cap_create [simp]: "cq_cap (create_queue n) = n - 1"
  by (simp add: cq_cap_def create_queue_def)

lemma enqueue_full: "is_queue_full q \<Longrightarrow> enqueue q x = (q, False)"
  by (simp add: enqueue_def)

lemma enqueue_count:
  assumes "cq_inv q" "\<not> is_queue_full q"
  shows "cq_count (fst (enqueue q x)) = Suc (cq_count q)"
    "k \<le> cq_count q \<Longrightarrow> cq_slot (fst (enqueue q x)) k = cq_slot q k"
proof -
  have "Suc (rear q) mod cq_size q < cq_size q" using cq_invD(4) [OF assms(1)] by simp
  then have "cq_count (fst (enqueue q x)) =
    (if front q \<le> Suc (rear q) mod cq_size q then Suc (rear q) mod cq_size q - front q
     else Suc (rear q) mod cq_size q + cq_size q - front q)"
    using assms cq_invD(1) [OF assms(1)] by (simp add: enqueue_def cq_count_def ring_dist)
  then show "cq_count (fst (enqueue q x)) = Suc (cq_count q)"
    using assms cq_invD [OF assms(1)]
    by (auto simp: cq_count_eq is_queue_full_def mod_Suc split: if_splits)
  show "k \<le> cq_count q \<Longrightarrow> cq_slot (fst (enqueue q x)) k = cq_slot q k"
    by (simp add: enqueue_def cq_slot_def)
qed

lemma enqueue_data:
  assumes "cq_inv q" "\<not> is_queue_full q" "k \<le> cq_count q"
  shows "cq_data (fst (enqueue q x)) ! cq_slot q k =
    (if k = cq_count q then Some x else Some (cq_list q ! k))"
proof (cases "k = cq_count q")
  case True
  then show ?thesis using assms
    by (simp add: enqueue_def cq_slot_count cq_invD)
next
  case False
  then have k: "k < cq_count q" using assms by simp
  then have "cq_slot q k \<noteq> cq_slot q (cq_count q)"
    using assms cq_count_less [of q] by (simp add: cq_slot_inj)
  then show ?thesis using False k assms
    by (simp add: enqueue_def cq_slot_count cq_slot_nth)
qed

lemma enqueue_room:
  assumes "cq_inv q" "\<not> is_queue_full q"
  shows "snd (enqueue q x)" "cq_list (fst (enqueue q x)) = cq_list q @ [x]"
    "cq_inv (fst (enqueue q x))"
proof -
  show "snd (enqueue q x)" using assms by (simp add: enqueue_def)
  show "cq_list (fst (enqueue q x)) = cq_list q @ [x]"
  proof (rule nth_equalityI)
    fix k
    assume "k < length (cq_list (fst (enqueue q x)))"
    then have "k \<le> cq_count q" by (simp add: enqueue_count(1) [OF assms])
    then show "cq_list (fst (enqueue q x)) ! k = (cq_list q @ [x]) ! k"
      by (simp add: nth_cq_list [of k "fst (enqueue q x)"] enqueue_count [OF assms]
          enqueue_data [OF assms] nth_append)
  qed (simp add: enqueue_count(1) [OF assms])
  have "cq_data (fst (enqueue q x)) ! cq_slot (fst (enqueue q x)) k \<noteq> None"
    if "k < cq_count (fst (enqueue q x))" for k
    using that by (simp add: enqueue_count [OF assms] enqueue_data [OF assms])
  moreover have "front (fst (enqueue q x)) = front q" "cq_size (fst (enqueue q x)) = cq_size q"
    "rear (fst (enqueue q x)) = Suc (rear q) mod cq_size q"
    "length (cq_data (fst (enqueue q x))) = length (cq_data q)"
    using assms by (simp_all add: enqueue_def)
  ultimately show "cq_inv (fst (enqueue q x))"
    using cq_invD [OF assms(1)] by (simp add: cq_inv_def list_all_iff)
qed

lemma cq_inv_enqueue: "cq_inv q \<Longrightarrow> cq_inv (fst (enqueue q x))"
  by (cases "is_queue_full q") (auto simp: enqueue_full enqueue_room)

lemma cq_size_enqueue [simp]: "cq_size (fst (enqueue q x)) = cq_size q"
  by (simp add: enqueue_def)

lemma cq_size_dequeue [simp]: "cq_size (fst (dequeue q)) = cq_size q"
  by (simp add: dequeue_def)

lemma cq_cap_ops [simp]:
  "cq_cap (fst (enqueue q x)) = cq_cap q" "cq_cap (fst (dequeue q)) = cq_cap q"
  by (simp_all add: cq_cap_def)

lemma getfront_eq:
  assumes "cq_inv q"
  shows "getfront q = (case cq_list q of [] \<Rightarrow> None | x # _ \<Rightarrow> Some x)"
proof (cases "cq_list q")
  case Nil
  then show ?thesis using assms by (simp add: getfront_def is_queue_empty_iff)
next
  case (Cons x xs)
  then have "0 < cq_count q" by (metis length_cq_list length_greater_0_conv list.distinct(1))
  then have "cq_data q ! front q = Some (cq_list q ! 0)"
    using assms cq_slot_nth [of q 0] by (simp add: cq_slot_def cq_invD)
  then show ?thesis using Cons assms by (simp add: getfront_def is_queue_empty_iff)
qed

lemma dequeue_empty: "cq_inv q \<Longrightarrow> cq_list q = [] \<Longrightarrow> dequeue q = (q, None)"
  by (simp add: dequeue_def is_queue_empty_iff)

lemma dequeue_count:
  assumes "cq_inv q" "cq_list q \<noteq> []"
  shows "Suc (cq_count (fst (dequeue q))) = cq_count q"
    "cq_slot (fst (dequeue q)) k = cq_slot q (Suc k)"
proof -
  have lt: "Suc (front q) mod cq_size q < cq_size q" using cq_invD(4) [OF assms(1)] by simp
  have ne: "front q \<noteq> rear q"
    using assms by (simp add: is_queue_empty_iff [symmetric] is_queue_empty_def)
  have "cq_count (fst (dequeue q)) =
    (if Suc (front q) mod cq_size q \<le> rear q then rear q - Suc (front q) mod cq_size q
     else rear q + cq_size q - Suc (front q) mod cq_size q)"
    using assms lt cq_invD(2) [OF assms(1)]
    by (simp add: dequeue_def is_queue_empty_iff cq_count_def ring_dist)
  then show "Suc (cq_count (fst (dequeue q))) = cq_count q"
    using ne cq_invD [OF assms(1)]
    by (auto simp: cq_count_eq [OF assms(1)] mod_Suc split: if_splits)
  show "cq_slot (fst (dequeue q)) k = cq_slot q (Suc k)"
    using assms by (simp add: dequeue_def is_queue_empty_iff cq_slot_def mod_simps)
qed

lemma cq_data_dequeue [simp]: "cq_data (fst (dequeue q)) = cq_data q"
  by (simp add: dequeue_def)

lemma dequeue_cons:
  assumes "cq_inv q" "cq_list q = x # xs"
  shows "snd (dequeue q) = Some x" "cq_list (fst (dequeue q)) = xs" "cq_inv (fst (dequeue q))"
proof -
  have ne: "cq_list q \<noteq> []" using assms by simp
  have len: "cq_count q = Suc (length xs)"
    using assms(2) by (metis length_Cons length_cq_list)
  have "snd (dequeue q) = getfront q"
    using ne assms(1) by (simp add: dequeue_def getfront_def)
  then show "snd (dequeue q) = Some x" using assms by (simp add: getfront_eq)
  have cnt: "cq_count (fst (dequeue q)) = length xs"
    using dequeue_count(1) [OF assms(1) ne] len by simp
  show "cq_list (fst (dequeue q)) = xs"
  proof (rule nth_equalityI)
    fix k
    assume "k < length (cq_list (fst (dequeue q)))"
    then have k: "k < length xs" by (simp add: cnt)
    then have "cq_list (fst (dequeue q)) ! k = cq_list q ! Suc k"
      by (simp add: nth_cq_list cnt dequeue_count(2) [OF assms(1) ne] len)
    then show "cq_list (fst (dequeue q)) ! k = xs ! k" by (simp add: assms(2))
  qed (simp add: cnt)
  show "cq_inv (fst (dequeue q))"
    using cq_invD [OF assms(1)] ne assms(1)
    by (simp add: cq_inv_def list_all_iff cnt dequeue_count(2) [OF assms(1) ne] len)
      (simp add: dequeue_def is_queue_empty_iff [OF assms(1)])
qed

lemma cq_inv_dequeue: "cq_inv q \<Longrightarrow> cq_inv (fst (dequeue q))"
  by (cases "cq_list q") (auto simp: dequeue_empty dequeue_cons)

lemma cq_list_enqueue:
  "cq_inv q \<Longrightarrow>
   cq_list (fst (enqueue q x)) = (if is_queue_full q then cq_list q else cq_list q @ [x])"
  by (simp add: enqueue_full enqueue_room)

lemma cq_list_dequeue: "cq_inv q \<Longrightarrow> cq_list (fst (dequeue q)) = tl (cq_list q)"
  by (cases "cq_list q") (simp_all add: dequeue_empty dequeue_cons)

lemma snd_dequeue: "cq_inv q \<Longrightarrow> snd (dequeue q) = getfront q"
  by (cases "cq_list q") (simp_all add: dequeue_empty dequeue_cons getfront_eq)

lemma snd_enqueue: "snd (enqueue q x) \<longleftrightarrow> \<not> is_queue_full q"
  by (simp add: enqueue_def)

text \<open>A store through an element pointer replaces that element and nothing else.\<close>

lemma cq_update_simps [simp]:
  "front (cq_update q i x) = front q" "rear (cq_update q i x) = rear q"
  "cq_size (cq_update q i x) = cq_size q" "cq_count (cq_update q i x) = cq_count q"
  "cq_slot (cq_update q i x) k = cq_slot q k" "cq_cap (cq_update q i x) = cq_cap q"
  by (simp_all add: cq_update_def cq_count_def cq_slot_def cq_cap_def)

lemma cq_update_slot:
  assumes "cq_inv q" "k < cq_count q"
  shows "cq_inv (cq_update q (cq_slot q k) x)"
    "cq_list (cq_update q (cq_slot q k) x) = (cq_list q)[k := x]"
proof -
  have data: "cq_data (cq_update q (cq_slot q k) x) ! cq_slot q j =
      (if j = k then Some x else Some (cq_list q ! j))" if "j < cq_count q" for j
    using that assms cq_invD [OF assms(1)] cq_count_less [OF assms(1)] cq_slot_less [OF assms(1)]
      cq_slot_inj [OF assms(1), of k j]
    by (auto simp: cq_update_def nth_list_update cq_slot_nth)
  show "cq_list (cq_update q (cq_slot q k) x) = (cq_list q)[k := x]"
  proof (rule nth_equalityI)
    fix j
    assume "j < length (cq_list (cq_update q (cq_slot q k) x))"
    then have "j < cq_count q" by simp
    then show "cq_list (cq_update q (cq_slot q k) x) ! j = (cq_list q)[k := x] ! j"
      using assms(2) by (simp add: nth_cq_list [of j "cq_update q (cq_slot q k) x"] data)
  qed simp
  show "cq_inv (cq_update q (cq_slot q k) x)"
    using cq_invD [OF assms(1)] data
    by (simp add: cq_inv_def list_all_iff) (simp add: cq_update_def)
qed

text \<open>The iteration over the ring ends, and visits the occupied slots from front to rear.\<close>

lemma cq_indices_from:
  assumes "cq_inv q" "k \<le> cq_count q"
  shows "cq_indices (cq_size q) (cq_slot q k) (rear q)
    = Some (map (cq_slot q) [k..<cq_count q])"
  using assms(2)
proof (induction "cq_count q - k" arbitrary: k)
  case 0
  then have "k = cq_count q" by simp
  then show ?case using assms(1) by (simp add: cq_indices.simps cq_slot_count)
next
  case (Suc n)
  then have k: "k < cq_count q" by simp
  have "cq_slot q k \<noteq> rear q"
    using k cq_slot_inj [OF assms(1), of k "cq_count q"] cq_count_less [OF assms(1)]
    by (simp add: cq_slot_count [OF assms(1)])
  moreover have "(cq_slot q k + 1) mod cq_size q = cq_slot q (Suc k)"
    by (simp add: cq_slot_def mod_simps)
  moreover have "cq_indices (cq_size q) (cq_slot q (Suc k)) (rear q)
      = Some (map (cq_slot q) [Suc k..<cq_count q])"
    using Suc k by simp
  ultimately show ?case using k
    by (subst cq_indices.simps) (simp add: upt_conv_Cons)
qed

lemma cq_indices_all:
  assumes "cq_inv q"
  shows "cq_indices (cq_size q) (front q) (rear q) = Some (map (cq_slot q) [0..<cq_count q])"
proof -
  have "cq_slot q 0 = front q" using cq_invD(1) [OF assms] by (simp add: cq_slot_def)
  then show ?thesis using cq_indices_from [OF assms, of 0] by simp
qed

lemma delete_queue_list: "cq_inv q \<Longrightarrow> delete_queue q = Some (cq_list q)"
  by (simp add: delete_queue_def cq_indices_all comp_def cq_slot_nth filter_map
      cong: map_cong) (simp add: cq_list_def)

section \<open>The interface\<close>

text \<open>What the endpoint relies on: a first-in first-out queue of bounded capacity whose
  operations report whether there was room and whether there was an element.\<close>

locale bounded_queue =
  fixes inv :: "'q \<Rightarrow> bool"
    and contents :: "'q \<Rightarrow> 'a list"
    and cap :: "'q \<Rightarrow> nat"
    and enq :: "'q \<Rightarrow> 'a \<Rightarrow> 'q \<times> bool"
    and deq :: "'q \<Rightarrow> 'q \<times> 'a option"
  assumes bounded: "inv q \<Longrightarrow> length (contents q) \<le> cap q"
    and enq_inv: "inv q \<Longrightarrow> inv (fst (enq q x))"
    and enq_cap: "cap (fst (enq q x)) = cap q"
    and enq_room: "inv q \<Longrightarrow> length (contents q) < cap q \<Longrightarrow>
      snd (enq q x) \<and> contents (fst (enq q x)) = contents q @ [x]"
    and enq_full: "inv q \<Longrightarrow> length (contents q) = cap q \<Longrightarrow> enq q x = (q, False)"
    and deq_inv: "inv q \<Longrightarrow> inv (fst (deq q))"
    and deq_cap: "cap (fst (deq q)) = cap q"
    and deq_nil: "inv q \<Longrightarrow> contents q = [] \<Longrightarrow> deq q = (q, None)"
    and deq_cons: "inv q \<Longrightarrow> contents q = x # xs \<Longrightarrow>
      snd (deq q) = Some x \<and> contents (fst (deq q)) = xs"

text \<open>A client's sequence of operations, and its run: the final queue, the elements that were
  accepted and the elements that were handed out, both oldest first.\<close>

datatype 'a q_op = Enq 'a | Deq

fun run_ops :: "('q \<Rightarrow> 'a \<Rightarrow> 'q \<times> bool) \<Rightarrow> ('q \<Rightarrow> 'q \<times> 'a option) \<Rightarrow> 'q \<Rightarrow> 'a q_op list
    \<Rightarrow> 'q \<times> 'a list \<times> 'a list" where
  "run_ops enq deq q [] = (q, [], [])"
| "run_ops enq deq q (Enq x # ops) =
     (case enq q x of (q1, ok) \<Rightarrow> case run_ops enq deq q1 ops of (q2, acc, out) \<Rightarrow>
        (q2, (if ok then x # acc else acc), out))"
| "run_ops enq deq q (Deq # ops) =
     (case deq q of (q1, r) \<Rightarrow> case run_ops enq deq q1 ops of (q2, acc, out) \<Rightarrow>
        (q2, acc, (case r of None \<Rightarrow> out | Some x \<Rightarrow> x # out)))"

context bounded_queue
begin

lemma enq_step:
  assumes "inv q"
  shows "contents (fst (enq q x)) = contents q @ (if snd (enq q x) then [x] else [])"
    "snd (enq q x) \<longleftrightarrow> length (contents q) < cap q"
  using assms bounded [of q] enq_room [of q x] enq_full [of q x]
  by (cases "length (contents q) = cap q"; force)+

lemma deq_step:
  assumes "inv q"
  shows "contents q = (case snd (deq q) of None \<Rightarrow> [] | Some x \<Rightarrow> [x]) @ contents (fst (deq q))"
  using assms deq_nil [of q] deq_cons [of q] by (cases "contents q") auto

lemma fifo:
  assumes "inv q" "run_ops enq deq q ops = (q', acc, out)"
  shows "contents q @ acc = out @ contents q' \<and> inv q' \<and> length (contents q') \<le> cap q \<and>
    cap q' = cap q"
  using assms
proof (induction ops arbitrary: q q' acc out)
  case Nil
  then show ?case by (auto simp: bounded)
next
  case (Cons op ops)
  show ?case
  proof (cases op)
    case (Enq x)
    obtain q1 ok where e: "enq q x = (q1, ok)" by fastforce
    obtain q2 acc1 out1 where r: "run_ops enq deq q1 ops = (q2, acc1, out1)"
      by (metis prod_cases3)
    have "inv q1" using Cons.prems(1) e enq_inv [of q x] by simp
    note ih = Cons.IH [OF this r]
    show ?thesis
      using ih Cons.prems e r Enq enq_step(1) [of q x] enq_cap [of q x] by (auto split: if_splits)
  next
    case Deq
    obtain q1 res where d: "deq q = (q1, res)" by fastforce
    obtain q2 acc1 out1 where r: "run_ops enq deq q1 ops = (q2, acc1, out1)"
      by (metis prod_cases3)
    have "inv q1" using Cons.prems(1) d deq_inv [of q] by simp
    note ih = Cons.IH [OF this r]
    show ?thesis
      using ih Cons.prems d r Deq deq_step [of q] deq_cap [of q]
      by (auto split: option.splits)
  qed
qed

end

interpretation ring: bounded_queue cq_inv cq_list cq_cap enqueue dequeue
proof unfold_locales
  fix q :: "'a cqueue" and x xs
  assume inv: "cq_inv q"
  show "length (cq_list q) \<le> cq_cap q" using inv by (simp add: cq_count_le_cap)
  show "cq_inv (fst (enqueue q x))" using inv by (rule cq_inv_enqueue)
  show "cq_inv (fst (dequeue q))" using inv by (rule cq_inv_dequeue)
  show "length (cq_list q) < cq_cap q \<Longrightarrow>
      snd (enqueue q x) \<and> cq_list (fst (enqueue q x)) = cq_list q @ [x]"
    using inv by (simp add: is_queue_full_iff enqueue_room)
  show "length (cq_list q) = cq_cap q \<Longrightarrow> enqueue q x = (q, False)"
    using inv by (simp add: is_queue_full_iff enqueue_full)
  show "cq_list q = [] \<Longrightarrow> dequeue q = (q, None)"
    using inv by (rule dequeue_empty)
  show "cq_list q = x # xs \<Longrightarrow> snd (dequeue q) = Some x \<and> cq_list (fst (dequeue q)) = xs"
    using inv by (simp add: dequeue_cons)
qed simp_all

section \<open>Properties\<close>

text \<open>C14: The ring buffer is a first-in first-out queue of bounded capacity.  For any sequence of
  enqueue and dequeue operations on a well-formed ring, what was in it followed by what was
  accepted is what was handed out followed by what is still in it; elements are neither lost,
  duplicated nor reordered, the ring stays well formed, and it never holds more than one element
  less than it has slots.\<close>

theorem queue_fifo:
  assumes "cq_inv q" "run_ops enqueue dequeue q ops = (q', acc, out)"
  shows "cq_list q @ acc = out @ cq_list q' \<and> cq_inv q' \<and> length (cq_list q') \<le> cq_size q - 1"
  using ring.fifo [OF assms] by (simp add: cq_cap_def)

theorem queue_fifo_witness:
  "let q = create_queue 3; q' = \<lparr>front = 1, rear = 2, cq_size = 3,
       cq_data = [Some True, Some False, None]\<rparr>
   in run_ops enqueue dequeue q [Enq True, Enq False, Enq True, Deq] = (q', [True, False], [True]) \<and>
      cq_list q @ [True, False] = [True] @ cq_list q' \<and> length (cq_list q') \<le> 2"
proof -
  let ?q' = "\<lparr>front = 1, rear = 2, cq_size = 3, cq_data = [Some True, Some False, None]\<rparr>"
  have q: "create_queue 3 = \<lparr>front = 0, rear = 0, cq_size = 3, cq_data = [None, None, None]\<rparr>"
    by (simp add: create_queue_def numeral_eq_Suc)
  have run: "run_ops enqueue dequeue (create_queue 3) [Enq True, Enq False, Enq True, Deq] =
      (?q', [True, False], [True])"
    by (simp add: q enqueue_def dequeue_def is_queue_full_def is_queue_empty_def)
  have "cq_inv (create_queue 3 :: bool cqueue)" by (rule cq_inv_create) simp
  from queue_fifo [OF this run] run show ?thesis by (simp add: create_queue_def Let_def)
qed

text \<open>Deleting a queue ends and frees every element that is still in the ring exactly once,
  oldest first, and nothing else.\<close>

lemma queue_delete_frees_contents:
  assumes "cq_inv q"
  shows "delete_queue q = Some (cq_list q)"
  by (rule delete_queue_list [OF assms])

lemma queue_delete_frees_contents_example:
  "delete_queue (fst (enqueue (create_queue 2) True)) = Some [True]"
proof -
  have q: "cq_inv (create_queue 2 :: bool cqueue)" by (rule cq_inv_create) simp
  have "\<not> is_queue_full (create_queue 2 :: bool cqueue)" by (simp add: is_queue_full_iff [OF q])
  then show ?thesis
    using queue_delete_frees_contents [OF cq_inv_enqueue [OF q], of True]
    by (simp add: cq_list_enqueue [OF q])
qed

end
