(* ===== verification/Tilelink_Msg.thy ===== *)
theory Tilelink_Msg
  imports OX_Prelude
begin

text \<open>
  The TileLink message layer, \<open>tilelink_msg.h\<close> and \<open>tilelink_msg.c\<close>: the bit layout of the
  message header, the message as a block of memory, and the functions that compute the header
  size, the data size, the total size and the number of flits of a message.
\<close>

section \<open>Header and message\<close>

record tl_header =
  tl_source :: "26 word"
  tl_reserved :: "12 word"
  tl_err :: "2 word"
  tl_domain :: "8 word"
  tl_size :: "4 word"
  tl_param :: "4 word"
  tl_reserved2 :: "1 word"
  tl_opcode :: "3 word"
  tl_chan :: "3 word"
  tl_reserved1 :: "1 word"

text \<open>The bit-fields of \<open>tl_header_t\<close> are allocated from the least significant bit upwards.\<close>

definition tl_header_word :: "tl_header \<Rightarrow> u64" where
  "tl_header_word h =
     ucast (tl_source h) OR push_bit 26 (ucast (tl_reserved h)) OR
     push_bit 38 (ucast (tl_err h)) OR push_bit 40 (ucast (tl_domain h)) OR
     push_bit 48 (ucast (tl_size h)) OR push_bit 52 (ucast (tl_param h)) OR
     push_bit 56 (ucast (tl_reserved2 h)) OR push_bit 57 (ucast (tl_opcode h)) OR
     push_bit 60 (ucast (tl_chan h)) OR push_bit 63 (ucast (tl_reserved1 h))"

definition tl_header_of_word :: "u64 \<Rightarrow> tl_header" where
  "tl_header_of_word w =
     \<lparr>tl_source = ucast w, tl_reserved = ucast (drop_bit 26 w), tl_err = ucast (drop_bit 38 w),
      tl_domain = ucast (drop_bit 40 w), tl_size = ucast (drop_bit 48 w),
      tl_param = ucast (drop_bit 52 w), tl_reserved2 = ucast (drop_bit 56 w),
      tl_opcode = ucast (drop_bit 57 w), tl_chan = ucast (drop_bit 60 w),
      tl_reserved1 = ucast (drop_bit 63 w)\<rparr>"

text \<open>A header whose bytes are all zero, as \<open>memset\<close> leaves it.\<close>

definition tl_header_zero :: tl_header where
  "tl_header_zero = tl_header_of_word 0"

text \<open>A message occupies a block obtained from \<open>malloc\<close>: the eight header bytes and the bytes
  behind them (the flexible array \<open>data\<close>), as many as were allocated.\<close>

record tl_msg =
  tl_hdr :: tl_header
  tl_data :: "byte list"

definition tlmsg_bytes :: "tl_msg \<Rightarrow> byte list" where
  "tlmsg_bytes m = le_bytes (tl_header_word (tl_hdr m)) @ tl_data m"

definition tlmsg_of_bytes :: "byte list \<Rightarrow> tl_msg" where
  "tlmsg_of_bytes bs =
     \<lparr>tl_hdr = tl_header_of_word (of_le_bytes (take 8 bs)), tl_data = drop 8 bs\<rparr>"

text \<open>Channels and opcodes.\<close>

abbreviation (input) "CHANNEL_NUM \<equiv> (6 :: nat)"
abbreviation (input) "CHANNEL_0 \<equiv> (0 :: int)"
abbreviation (input) "CHANNEL_A \<equiv> (1 :: int)"
abbreviation (input) "CHANNEL_B \<equiv> (2 :: int)"
abbreviation (input) "CHANNEL_C \<equiv> (3 :: int)"
abbreviation (input) "CHANNEL_D \<equiv> (4 :: int)"
abbreviation (input) "CHANNEL_E \<equiv> (5 :: int)"

abbreviation (input) "A_PUTFULLDATA_OPCODE \<equiv> (0 :: int)"
abbreviation (input) "A_PUTPARTIALDATA_OPCODE \<equiv> (1 :: int)"
abbreviation (input) "A_ARITHMETICDATA_OPCODE \<equiv> (2 :: int)"
abbreviation (input) "A_LOGICALDATA_OPCODE \<equiv> (3 :: int)"
abbreviation (input) "A_GET_OPCODE \<equiv> (4 :: int)"
abbreviation (input) "B_PUTFULLDATA_OPCODE \<equiv> (0 :: int)"
abbreviation (input) "B_PUTPARTIALDATA_OPCODE \<equiv> (1 :: int)"
abbreviation (input) "B_ARITHMETICDATA_OPCODE \<equiv> (2 :: int)"
abbreviation (input) "B_LOGICALDATA_OPCODE \<equiv> (3 :: int)"
abbreviation (input) "C_ACCESSACKDATA_OPCODE \<equiv> (1 :: int)"
abbreviation (input) "C_PROBEACKDATA_OPCODE \<equiv> (5 :: int)"
abbreviation (input) "C_RELEASEDATA_OPCODE \<equiv> (7 :: int)"
abbreviation (input) "D_ACCESSACK_OPCODE \<equiv> (0 :: int)"
abbreviation (input) "D_ACCESSACKDATA_OPCODE \<equiv> (1 :: int)"
abbreviation (input) "D_HINTACK_OPCODE \<equiv> (2 :: int)"
abbreviation (input) "D_GRANT_OPCODE \<equiv> (4 :: int)"
abbreviation (input) "D_GRANTDATA_OPCODE \<equiv> (5 :: int)"
abbreviation (input) "D_RELEASEACK_OPCODE \<equiv> (6 :: int)"

section \<open>Sizes\<close>

definition tlmsg_get_chan :: "tl_header \<Rightarrow> int" where
  "tlmsg_get_chan h = uint (tl_chan h)"

definition tlmsg_get_opcode :: "tl_header \<Rightarrow> int" where
  "tlmsg_get_opcode h = uint (tl_opcode h)"

definition tlmsg_get_size :: "tl_header \<Rightarrow> int" where
  "tlmsg_get_size h = uint (tl_size h)"

definition convert_size_to_flits :: "int \<Rightarrow> int" where
  "convert_size_to_flits sz = (sz + 7) div 8"

text \<open>
  The C expression \<open>(int)(1ULL << n)\<close> with an \<open>int\<close> shift count.  A count outside 0..63 is
  undefined in C; the x86-64 shift instruction that the compiler emits for a variable count
  takes it modulo 64.  The 64-bit value is then cut to 32 bits and read as signed.
  \<open>shift_defined\<close> tells the two cases apart.
\<close>

definition shift_defined :: "int \<Rightarrow> bool" where
  "shift_defined n \<longleftrightarrow> 0 \<le> n \<and> n < 64"

definition int_shl_1ULL :: "int \<Rightarrow> int" where
  "int_shl_1ULL n = sint (ucast (push_bit (nat (n mod 64)) (1 :: u64)) :: u32)"

text \<open>The exponent that \<open>tlmsg_get_header_size\<close> computes before the shift.\<close>

definition header_size_exp :: "tl_header \<Rightarrow> int" where
  "header_size_exp h =
     (let chan = uint (tl_chan h); opcode = uint (tl_opcode h) in
      if chan = CHANNEL_A \<or> chan = CHANNEL_B \<or> chan = CHANNEL_C then 4
      else if chan = CHANNEL_D then
        if opcode = D_ACCESSACK_OPCODE \<or> opcode = D_HINTACK_OPCODE \<or>
           opcode = D_RELEASEACK_OPCODE \<or> opcode = D_ACCESSACKDATA_OPCODE then 3
        else if opcode = D_GRANT_OPCODE \<or> opcode = D_GRANTDATA_OPCODE then 4
        else -1
      else if chan = CHANNEL_E then 3
      else -1)"

definition tlmsg_get_header_size :: "tl_header \<Rightarrow> int" where
  "tlmsg_get_header_size h = int_shl_1ULL (header_size_exp h)"

text \<open>The exponent that \<open>tlmsg_get_data_size\<close> computes before the shift.\<close>

definition data_size_exp :: "tl_header \<Rightarrow> int" where
  "data_size_exp h =
     (let chan = uint (tl_chan h); opcode = uint (tl_opcode h); sz = uint (tl_size h) in
      if chan = CHANNEL_A \<or> chan = CHANNEL_B \<or> chan = CHANNEL_C then
        if opcode = A_PUTFULLDATA_OPCODE \<or> opcode = B_PUTFULLDATA_OPCODE \<or>
           opcode = A_ARITHMETICDATA_OPCODE \<or> opcode = B_ARITHMETICDATA_OPCODE \<or>
           opcode = A_LOGICALDATA_OPCODE \<or> opcode = B_LOGICALDATA_OPCODE \<or>
           opcode = C_ACCESSACKDATA_OPCODE \<or> opcode = C_PROBEACKDATA_OPCODE \<or>
           opcode = C_RELEASEDATA_OPCODE \<or> opcode = A_PUTPARTIALDATA_OPCODE \<or>
           opcode = B_PUTPARTIALDATA_OPCODE
        then sz else -1
      else if chan = CHANNEL_D then
        if opcode = D_ACCESSACKDATA_OPCODE \<or> opcode = D_GRANTDATA_OPCODE then sz else -1
      else -1)"

definition tlmsg_get_data_size :: "tl_header \<Rightarrow> int" where
  "tlmsg_get_data_size h = int_shl_1ULL (data_size_exp h)"

definition tlmsg_get_total_size :: "tl_header \<Rightarrow> int" where
  "tlmsg_get_total_size h = tlmsg_get_header_size h + tlmsg_get_data_size h"

definition tlmsg_get_flits_cnt :: "tl_header \<Rightarrow> int" where
  "tlmsg_get_flits_cnt h =
     (let header_size = tlmsg_get_header_size h; data_size = tlmsg_get_data_size h in
      (if 0 \<le> header_size then convert_size_to_flits header_size else 0) +
      (if 0 \<le> data_size then convert_size_to_flits data_size else 0))"

section \<open>Lemmas\<close>

lemma tl_header_of_word_word [simp]: "tl_header_of_word (tl_header_word h) = h"
  by (cases h)
    (simp add: tl_header_of_word_def tl_header_word_def,
     intro conjI; rule bit_word_eqI; auto simp: bit_simps dest: bit_imp_le_length)

lemma tl_header_word_of_word [simp]: "tl_header_word (tl_header_of_word w) = w"
proof (rule bit_word_eqI)
  fix n
  assume "n < LENGTH(64)"
  then have "n < 26 \<or> 26 \<le> n \<and> n < 38 \<or> 38 \<le> n \<and> n < 40 \<or> 40 \<le> n \<and> n < 48 \<or> 48 \<le> n \<and> n < 52 \<or>
      52 \<le> n \<and> n < 56 \<or> n = 56 \<or> 57 \<le> n \<and> n < 60 \<or> 60 \<le> n \<and> n < 63 \<or> n = 63"
    by (simp, linarith)
  then show "bit (tl_header_word (tl_header_of_word w)) n = bit w n"
    by (elim disjE) (auto simp: tl_header_word_def tl_header_of_word_def bit_simps)
qed

lemma tlmsg_of_bytes_bytes [simp]: "tlmsg_of_bytes (tlmsg_bytes m) = m"
  by (simp add: tlmsg_of_bytes_def tlmsg_bytes_def)

lemma tlmsg_bytes_of_bytes: "8 \<le> length bs \<Longrightarrow> tlmsg_bytes (tlmsg_of_bytes bs) = bs"
  by (simp add: tlmsg_of_bytes_def tlmsg_bytes_def le_bytes_of_le_bytes)

lemma length_tlmsg_bytes [simp]: "length (tlmsg_bytes m) = 8 + length (tl_data m)"
  by (simp add: tlmsg_bytes_def)

lemma u3_cases:
  fixes x :: "3 word"
  shows "uint x \<in> {0, 1, 2, 3, 4, 5, 6, 7}"
proof -
  have "uint x < 8" "0 \<le> uint x" using uint_lt2p [of x] by simp_all
  then have "uint x = 0 \<or> uint x = 1 \<or> uint x = 2 \<or> uint x = 3 \<or> uint x = 4 \<or> uint x = 5 \<or>
      uint x = 6 \<or> uint x = 7" by linarith
  then show ?thesis by blast
qed

lemma u4_range:
  fixes x :: "4 word"
  shows "0 \<le> uint x" "uint x < 16" "uint x = int (unat x)" "unat x < 16"
  using uint_lt2p [of x] unsigned_less [of x, where ?'a = nat] by simp_all

lemma int_shl_1ULL_small:
  assumes "k < 16"
  shows "int_shl_1ULL (int k) = 2 ^ k"
proof -
  have "k \<in> set [0..<16]" using assms by simp
  then show ?thesis by (simp add: upt_rec) (elim disjE; simp add: int_shl_1ULL_def)
qed

lemma int_shl_1ULL_consts [simp]:
  "int_shl_1ULL 3 = 8" "int_shl_1ULL 4 = 16" "int_shl_1ULL (- 1) = 0"
  by (simp_all add: int_shl_1ULL_def)

text \<open>The sizes the format calls for: which messages have a two-word header and which carry
  data, as the opcode tests of the code group them.\<close>

definition header_bytes :: "tl_header \<Rightarrow> nat" where
  "header_bytes h =
     (if uint (tl_chan h) \<in> {1, 2, 3} then 16
      else if uint (tl_chan h) = 4 \<and> uint (tl_opcode h) \<in> {4, 5} then 16
      else if uint (tl_chan h) = 4 \<and> uint (tl_opcode h) \<in> {0, 1, 2, 6} then 8
      else if uint (tl_chan h) = 5 then 8 else 0)"

definition carries_data :: "tl_header \<Rightarrow> bool" where
  "carries_data h \<longleftrightarrow>
     uint (tl_chan h) \<in> {1, 2, 3} \<and> uint (tl_opcode h) \<notin> {4, 6} \<or>
     uint (tl_chan h) = 4 \<and> uint (tl_opcode h) \<in> {1, 5}"

definition data_bytes :: "tl_header \<Rightarrow> nat" where
  "data_bytes h = (if carries_data h then 2 ^ unat (tl_size h) else 0)"

lemma header_size_exp_eq:
  "header_size_exp h =
     (if header_bytes h = 16 then 4 else if header_bytes h = 8 then 3 else -1)"
  by (auto simp: header_size_exp_def header_bytes_def Let_def)

lemma data_size_exp_eq:
  "data_size_exp h = (if carries_data h then uint (tl_size h) else -1)"
  using u3_cases [of "tl_opcode h"] by (auto simp: data_size_exp_def carries_data_def Let_def)

lemma header_bytes_range: "header_bytes h \<in> {0, 8, 16}"
  by (simp add: header_bytes_def)

lemma tlmsg_get_header_size_eq: "tlmsg_get_header_size h = int (header_bytes h)"
  using header_bytes_range [of h] by (auto simp: tlmsg_get_header_size_def header_size_exp_eq)

lemma tlmsg_get_data_size_eq: "tlmsg_get_data_size h = int (data_bytes h)"
proof -
  have "int_shl_1ULL (uint (tl_size h)) = 2 ^ unat (tl_size h)"
    using int_shl_1ULL_small [OF u4_range(4), of "tl_size h"] by simp
  then show ?thesis
    by (simp add: tlmsg_get_data_size_def data_size_exp_eq data_bytes_def)
qed

lemma tlmsg_get_total_size_eq:
  "tlmsg_get_total_size h = int (header_bytes h + data_bytes h)"
  by (simp add: tlmsg_get_total_size_def tlmsg_get_header_size_eq tlmsg_get_data_size_eq)

lemma tlmsg_get_flits_cnt_eq:
  "tlmsg_get_flits_cnt h = int ((header_bytes h + 7) div 8 + (data_bytes h + 7) div 8)"
  by (simp add: tlmsg_get_flits_cnt_def convert_size_to_flits_def tlmsg_get_header_size_eq
      tlmsg_get_data_size_eq Let_def zdiv_int)

lemma data_bytes_le: "data_bytes h \<le> 32768"
proof -
  have "(2::nat) ^ unat (tl_size h) \<le> 2 ^ 15"
    using u4_range(4) [of "tl_size h"] by (intro power_increasing) auto
  then show ?thesis by (simp add: data_bytes_def)
qed

lemma tlmsg_get_total_size_nonneg [simp]: "0 \<le> tlmsg_get_total_size h"
  by (simp add: tlmsg_get_total_size_eq)

lemma data_bytes_dvd:
  assumes "header_bytes h + data_bytes h > 16 + 4"
  shows "8 dvd data_bytes h"
proof -
  from assms header_bytes_range [of h] have "data_bytes h > 4" by auto
  then have d: "data_bytes h = 2 ^ unat (tl_size h)"
    by (auto simp: data_bytes_def split: if_splits)
  have "3 \<le> unat (tl_size h)"
  proof (rule ccontr)
    assume "\<not> 3 \<le> unat (tl_size h)"
    then have "(2::nat) ^ unat (tl_size h) \<le> 2 ^ 2" by (intro power_increasing) auto
    with d \<open>data_bytes h > 4\<close> show False by simp
  qed
  then have "(2::nat) ^ 3 dvd 2 ^ unat (tl_size h)" by (intro le_imp_power_dvd)
  then show ?thesis using d by simp
qed

section \<open>The messages by name\<close>

text \<open>The opcodes of \<open>tilelink_msg.h\<close>, channel by channel.\<close>

datatype tl_kind = Put_Full_Data | Put_Partial_Data | Arithmetic_Data | Logical_Data | Get_Message
  | Intent | Acquire_Block | Acquire_Perm | Probe_Block | Probe_Perm | Access_Ack | Access_Ack_Data
  | Hint_Ack | Probe_Ack | Probe_Ack_Data | Release_Message | Release_Data | Grant | Grant_Data
  | Release_Ack | Grant_Ack

definition opcode_table :: "tl_kind option list list" where
  "opcode_table =
     [[],
      map Some [Put_Full_Data, Put_Partial_Data, Arithmetic_Data, Logical_Data, Get_Message, Intent,
        Acquire_Block, Acquire_Perm],
      map Some [Put_Full_Data, Put_Partial_Data, Arithmetic_Data, Logical_Data, Get_Message, Intent,
        Probe_Block, Probe_Perm],
      [Some Access_Ack, Some Access_Ack_Data, Some Hint_Ack, None, Some Probe_Ack, Some Probe_Ack_Data,
        Some Release_Message, Some Release_Data],
      [Some Access_Ack, Some Access_Ack_Data, Some Hint_Ack, None, Some Grant, Some Grant_Data,
        Some Release_Ack]]"

text \<open>The opcode of a channel E message is not looked at.\<close>

definition kind_of :: "tl_header \<Rightarrow> tl_kind option" where
  "kind_of h =
     (let c = unat (tl_chan h); i = unat (tl_opcode h) in
      if c = 5 then Some Grant_Ack
      else if c < length opcode_table \<and> i < length (opcode_table ! c) then opcode_table ! c ! i
      else None)"

text \<open>By the message format: the second word of the header is the address of a message on the channels A
  to C, or the sink of a grant; the messages with data are those named so.\<close>

definition kind_header :: "nat \<Rightarrow> tl_kind \<Rightarrow> int" where
  "kind_header c k = (if c \<in> {1, 2, 3} \<or> k \<in> {Grant, Grant_Data} then 16 else 8)"

definition kind_has_data :: "tl_kind \<Rightarrow> bool" where
  "kind_has_data k \<longleftrightarrow> k \<in> {Put_Full_Data, Put_Partial_Data, Arithmetic_Data, Logical_Data,
     Access_Ack_Data, Probe_Ack_Data, Release_Data, Grant_Data}"

text \<open>The code compares the opcode of a message on A, B or C with the data opcodes of all three channels:
  these messages have no data and are given some.\<close>

definition miscounted :: "nat \<Rightarrow> tl_kind \<Rightarrow> bool" where
  "miscounted c k \<longleftrightarrow> k \<in> {Intent, Acquire_Perm, Probe_Perm} \<or> c = 3 \<and> k \<in> {Access_Ack, Hint_Ack}"

lemma u3_nat_cases:
  fixes x :: "3 word"
  shows "unat x = 0 \<or> unat x = 1 \<or> unat x = 2 \<or> unat x = 3 \<or> unat x = 4 \<or> unat x = 5 \<or> unat x = 6 \<or> unat x = 7"
  using unsigned_less [of x, where ?'a = nat] by simp linarith

lemma uint_u3: "uint (x :: 3 word) = int (unat x)"
  by simp

lemma kind_sizes:
  "int (header_bytes h) = (case kind_of h of
     Some k \<Rightarrow> kind_header (unat (tl_chan h)) k
   | None \<Rightarrow> if unat (tl_chan h) = 3 then 16 else 0)"
  "carries_data h \<longleftrightarrow> (case kind_of h of
     Some k \<Rightarrow> kind_has_data k \<or> miscounted (unat (tl_chan h)) k
   | None \<Rightarrow> unat (tl_chan h) = 3)"
  using u3_nat_cases [of "tl_chan h"] u3_nat_cases [of "tl_opcode h"]
  unfolding header_bytes_def carries_data_def uint_u3
  by (elim disjE; simp add: kind_of_def opcode_table_def kind_header_def kind_has_data_def
      miscounted_def)+

section \<open>Properties\<close>

text \<open>C40: The sizes of the messages.  For every message that \<open>tilelink_msg.h\<close> names, the header size is
  that of the format: two words for the messages with an address or a sink, one for the others.  The
  data size is \<open>2 ^ size\<close> for the messages with data and zero for those without, except that Intent,
  AcquirePerm, ProbePerm, and AccessAck and HintAck on channel C, which have no data, get \<open>2 ^ size\<close>
  too: the code compares the opcode with the data opcodes of the other channels.  A message without
  a name has neither, but opcode 3 of channel C is sized as a message with data.  The flits are both
  parts rounded up to words.\<close>

theorem tl_sizes:
  "(case kind_of h of
      Some k \<Rightarrow>
        tlmsg_get_header_size h = kind_header (unat (tl_chan h)) k \<and>
        tlmsg_get_data_size h =
          (if kind_has_data k \<or> miscounted (unat (tl_chan h)) k then 2 ^ unat (tl_size h) else 0)
    | None \<Rightarrow>
        tlmsg_get_header_size h = (if unat (tl_chan h) = 3 then 16 else 0) \<and>
        tlmsg_get_data_size h = (if unat (tl_chan h) = 3 then 2 ^ unat (tl_size h) else 0)) \<and>
   tlmsg_get_total_size h = tlmsg_get_header_size h + tlmsg_get_data_size h \<and>
   tlmsg_get_flits_cnt h = (tlmsg_get_header_size h + 7) div 8 + (tlmsg_get_data_size h + 7) div 8"
proof -
  have "tlmsg_get_flits_cnt h = (tlmsg_get_header_size h + 7) div 8 + (tlmsg_get_data_size h + 7) div 8"
    by (simp add: tlmsg_get_flits_cnt_eq tlmsg_get_header_size_eq tlmsg_get_data_size_eq zdiv_int)
  moreover have "tlmsg_get_header_size h = (case kind_of h of
     Some k \<Rightarrow> kind_header (unat (tl_chan h)) k
   | None \<Rightarrow> if unat (tl_chan h) = 3 then 16 else 0)"
    unfolding tlmsg_get_header_size_eq by (rule kind_sizes(1))
  moreover have "tlmsg_get_data_size h = (if carries_data h then 2 ^ unat (tl_size h) else 0)"
    by (simp add: tlmsg_get_data_size_eq data_bytes_def)
  ultimately show ?thesis
    unfolding kind_sizes(2) by (cases "kind_of h") (simp_all add: tlmsg_get_total_size_def)
qed

text \<open>An AccessAck on channel C of 64 bytes counts as ten flits instead of two.\<close>

lemma access_ack_miscounted:
  "tlmsg_get_flits_cnt ((tl_header_of_word 0)\<lparr>tl_chan := 3, tl_opcode := 0, tl_size := 6\<rparr>) = 10"
  by (simp add: tlmsg_get_flits_cnt_eq header_bytes_def data_bytes_def carries_data_def)

text \<open>The shifts \<open>1ULL << log_size\<close> of the size functions have a defined count exactly for
  the messages that have a header of a known format and, for the data size, carry data.  For every
  other message, a Get for instance, the count is minus one, which C leaves undefined; the results
  of the code then rely on what the processor makes of it.\<close>

lemma tl_size_shift_defined:
  "(shift_defined (header_size_exp h) \<longleftrightarrow> header_bytes h \<noteq> 0) \<and>
   (shift_defined (data_size_exp h) \<longleftrightarrow> carries_data h)"
  using header_bytes_range [of h] u4_range(1,2) [of "tl_size h"]
  by (auto simp: shift_defined_def header_size_exp_eq data_size_exp_eq)

end
