(* ===== verification/Tloe_Frame.thy ===== *)
theory Tloe_Frame
  imports Tilelink_Msg
begin

text \<open>
  TLoE frames, \<open>tloe_frame.h\<close> and \<open>tloe_frame.c\<close>: the bit layout of the frame header, the
  mask word, carrying a TileLink message in the flits, and the conversion between a frame in
  host byte order and a packet in network byte order.
\<close>

section \<open>Header and frame\<close>

record tloe_header =
  credit :: "5 word"
  chan :: "3 word"
  reserve3 :: "1 word"
  ack :: "1 word"
  seq_num_ack :: "22 word"
  seq_num :: "22 word"
  reserve2 :: "2 word"
  reserve1 :: "1 word"
  frame_type :: "4 word"
  vc :: "3 word"

definition tloe_header_word :: "tloe_header \<Rightarrow> u64" where
  "tloe_header_word h =
     ucast (credit h) OR push_bit 5 (ucast (chan h)) OR push_bit 8 (ucast (reserve3 h)) OR
     push_bit 9 (ucast (ack h)) OR push_bit 10 (ucast (seq_num_ack h)) OR
     push_bit 32 (ucast (seq_num h)) OR push_bit 54 (ucast (reserve2 h)) OR
     push_bit 56 (ucast (reserve1 h)) OR push_bit 57 (ucast (frame_type h)) OR
     push_bit 61 (ucast (vc h))"

definition tloe_header_of_word :: "u64 \<Rightarrow> tloe_header" where
  "tloe_header_of_word w =
     \<lparr>credit = ucast w, chan = ucast (drop_bit 5 w), reserve3 = ucast (drop_bit 8 w),
      ack = ucast (drop_bit 9 w), seq_num_ack = ucast (drop_bit 10 w),
      seq_num = ucast (drop_bit 32 w), reserve2 = ucast (drop_bit 54 w),
      reserve1 = ucast (drop_bit 56 w), frame_type = ucast (drop_bit 57 w),
      vc = ucast (drop_bit 61 w)\<rparr>"

text \<open>A frame: the header and the flits that its memory block has room for (65 for a
  \<open>tloe_frame_t\<close>, fewer for a block that \<open>TX\<close> allocates at the size it sends).\<close>

record tloe_frame =
  header :: tloe_header
  flits :: "u64 list"

abbreviation (input) "MAX_SIZE_FLIT \<equiv> (65 :: nat)"
abbreviation (input) "DEFAULT_FRAME_SIZE \<equiv> (56 :: int)"
abbreviation (input) "TLOE_NAK \<equiv> (0 :: 1 word)"
abbreviation (input) "TLOE_ACK \<equiv> (1 :: 1 word)"
abbreviation (input) "TYPE_NORMAL \<equiv> (0 :: 4 word)"
abbreviation (input) "TYPE_ACKONLY \<equiv> (1 :: 4 word)"
abbreviation (input) "TYPE_OPEN_CONNECTION \<equiv> (2 :: 4 word)"
abbreviation (input) "TYPE_CLOSE_CONNECTION \<equiv> (3 :: 4 word)"

text \<open>The size in bytes of \<open>tloe_frame_t\<close>, and a frame block of \<open>n\<close> bytes that \<open>memset\<close>
  cleared.\<close>

definition sizeof_tloe_frame :: int where
  "sizeof_tloe_frame = 8 * (1 + int MAX_SIZE_FLIT)"

definition zero_frame :: "int \<Rightarrow> tloe_frame" where
  "zero_frame n =
     \<lparr>header = tloe_header_of_word 0, flits = replicate (nat ((n - 8) div 8)) 0\<rparr>"

section \<open>Operations\<close>

definition tloe_set_ack :: "tloe_frame \<Rightarrow> 1 word \<Rightarrow> tloe_frame" where
  "tloe_set_ack f a = f\<lparr>header := header f\<lparr>ack := a\<rparr>\<rparr>"

definition tloe_get_ack :: "tloe_frame \<Rightarrow> 1 word" where
  "tloe_get_ack f = ack (header f)"

text \<open>The index expression of the mask word.  It is computed in \<open>size_t\<close>, where a negative
  value wraps around; either way it is no index of the array.\<close>

definition mask_index :: "int \<Rightarrow> int" where
  "mask_index packet_size = (packet_size div 8 - 1) - 1"

definition tloe_set_mask :: "tloe_frame \<Rightarrow> u64 \<Rightarrow> int \<Rightarrow> tloe_frame result" where
  "tloe_set_mask f m packet_size =
     bindR (arr_set (flits f) (mask_index packet_size) m) (\<lambda>fl. Inr (f\<lparr>flits := fl\<rparr>))"

definition tloe_get_mask :: "tloe_frame \<Rightarrow> int \<Rightarrow> u64 result" where
  "tloe_get_mask f packet_size = arr_get (flits f) (mask_index packet_size)"

definition tloe_get_fsize :: "tl_msg option \<Rightarrow> int" where
  "tloe_get_fsize m =
     (case m of
        None \<Rightarrow> DEFAULT_FRAME_SIZE
      | Some tlmsg \<Rightarrow>
          let fsize = 8 + tlmsg_get_total_size (tl_hdr tlmsg) in
          if fsize < DEFAULT_FRAME_SIZE then DEFAULT_FRAME_SIZE else fsize)"

text \<open>The block that \<open>tloe_get_tlmsg\<close> allocates holds exactly the bytes it copies; when these
  are fewer than a header (the size functions answer 0 for a channel they do not know), the
  block cannot be read as a message.\<close>

datatype tl_block = Truncated | Block tl_msg

definition block_of_bytes :: "byte list \<Rightarrow> tl_block" where
  "block_of_bytes bs = (if length bs < 8 then Truncated else Block (tlmsg_of_bytes bs))"

definition tloe_get_tlmsg :: "tloe_frame \<Rightarrow> nat \<Rightarrow> tl_block result" where
  "tloe_get_tlmsg f tl_loc =
     bindR (arr_get (flits f) (int tl_loc)) (\<lambda>w.
       let total_size = nat (tlmsg_get_total_size (tl_header_of_word w));
           src = drop (8 * tl_loc) (flit_bytes (flits f))
       in if length src < total_size then Inl Out_Of_Bounds
          else Inr (block_of_bytes (take total_size src)))"

definition tloe_set_tlmsg :: "tloe_frame \<Rightarrow> tl_msg \<Rightarrow> tloe_frame result" where
  "tloe_set_tlmsg f m =
     (let tl_size = nat (tlmsg_get_total_size (tl_hdr m));
          src = tlmsg_bytes m; dst = flit_bytes (flits f)
      in if length src < tl_size \<or> length dst < tl_size then Inl Out_Of_Bounds
         else Inr (f\<lparr>flits := words_of_bytes (take tl_size src @ drop tl_size dst)\<rparr>))"

definition is_zero_tl_frame :: "tloe_frame \<Rightarrow> int \<Rightarrow> bool result" where
  "is_zero_tl_frame f sz = bindR (tloe_get_mask f sz) (\<lambda>frame_mask. Inr (frame_mask = 0))"

definition is_ackonly_frame :: "tloe_frame \<Rightarrow> bool" where
  "is_ackonly_frame f = (frame_type (header f) = TYPE_ACKONLY)"

definition is_conn_msg :: "tloe_frame \<Rightarrow> int" where
  "is_conn_msg f =
     (if frame_type (header f) = 2 \<or> frame_type (header f) = 3
      then uint (frame_type (header f)) else -1)"

text \<open>The packet is built in a buffer of \<open>cap\<close> bytes, cleared first; the header and
  \<open>flit_cnt\<close> flits follow each other in network byte order.\<close>

definition tloe_frame_to_packet :: "int \<Rightarrow> tloe_frame \<Rightarrow> int \<Rightarrow> byte list result" where
  "tloe_frame_to_packet cap f sz =
     (let flit_cnt = nat ((sz - 8) div 8) in
      if sz < 0 \<or> cap < sz \<or> length (flits f) < flit_cnt then Inl Out_Of_Bounds
      else Inr (take (nat sz)
        (le_bytes (htobe64 (tloe_header_word (header f))) @
         flit_bytes (map htobe64 (take flit_cnt (flits f))) @
         replicate (nat sz - 8 - 8 * flit_cnt) 0)))"

definition packet_to_tloe_frame :: "byte list \<Rightarrow> int \<Rightarrow> tloe_frame \<Rightarrow> tloe_frame result" where
  "packet_to_tloe_frame buf sz f =
     (let num_flits = nat (sz div 8 - 1) in
      if length buf < 8 + 8 * num_flits \<or> length (flits f) < num_flits then Inl Out_Of_Bounds
      else Inr \<lparr>header = tloe_header_of_word (be64toh (of_le_bytes (take 8 buf))),
                flits = map be64toh (words_of_bytes (take (8 * num_flits) (drop 8 buf))) @
                        drop num_flits (flits f)\<rparr>)"

section \<open>Lemmas\<close>

lemma tloe_header_of_word_word [simp]: "tloe_header_of_word (tloe_header_word h) = h"
  by (cases h)
    (simp add: tloe_header_of_word_def tloe_header_word_def,
     intro conjI; rule bit_word_eqI; auto simp: bit_simps dest: bit_imp_le_length)

lemma tloe_header_word_of_word [simp]: "tloe_header_word (tloe_header_of_word w) = w"
proof (rule bit_word_eqI)
  fix n
  assume "n < LENGTH(64)"
  then have "n < 5 \<or> 5 \<le> n \<and> n < 8 \<or> n = 8 \<or> n = 9 \<or> 10 \<le> n \<and> n < 32 \<or> 32 \<le> n \<and> n < 54 \<or>
      54 \<le> n \<and> n < 56 \<or> n = 56 \<or> 57 \<le> n \<and> n < 61 \<or> 61 \<le> n \<and> n < 64"
    by (simp, linarith)
  then show "bit (tloe_header_word (tloe_header_of_word w)) n = bit w n"
    by (elim disjE) (auto simp: tloe_header_word_def tloe_header_of_word_def bit_simps)
qed

lemma header_of_zero_word:
  "tloe_header_of_word 0 =
     \<lparr>credit = 0, chan = 0, reserve3 = 0, ack = 0, seq_num_ack = 0, seq_num = 0, reserve2 = 0,
      reserve1 = 0, frame_type = 0, vc = 0\<rparr>"
  by (simp add: tloe_header_of_word_def)

lemma length_flits_zero_frame [simp]: "length (flits (zero_frame n)) = nat ((n - 8) div 8)"
  by (simp add: zero_frame_def)

lemma map_be64toh_htobe64 [simp]: "map (be64toh \<circ> htobe64) ws = ws"
  by (simp add: comp_def)

text \<open>Packets of whole words.\<close>

lemma frame_to_packet_eq:
  assumes "sz = 8 + 8 * int k" "k \<le> length (flits f)" "sz \<le> cap"
  shows "tloe_frame_to_packet cap f sz =
    Inr (le_bytes (htobe64 (tloe_header_word (header f))) @
         flit_bytes (map htobe64 (take k (flits f))))"
  using assms by (simp add: tloe_frame_to_packet_def Let_def)

lemma frame_to_packet_length:
  assumes "tloe_frame_to_packet cap f sz = Inr pkt" "8 \<le> sz"
  shows "length pkt = nat sz"
proof -
  have "8 + 8 * nat ((sz - 8) div 8) \<le> nat sz" using assms(2) by linarith
  then show ?thesis
    using assms by (auto simp: tloe_frame_to_packet_def Let_def min_def split: if_splits)
qed

lemma packet_to_frame_header:
  assumes "packet_to_tloe_frame buf sz f = Inr g"
  shows "header g = tloe_header_of_word (be64toh (of_le_bytes (take 8 buf)))"
    "length (flits g) = length (flits f)"
  using assms
  by (auto simp: packet_to_tloe_frame_def Let_def length_words_of_bytes split: if_splits)

lemma packet_to_frame_of_packet:
  assumes "sz = 8 + 8 * int k" "k \<le> length (flits f)" "k \<le> length (flits g)" "sz \<le> cap"
    and "tloe_frame_to_packet cap f sz = Inr pkt"
  shows "packet_to_tloe_frame (pkt @ junk) sz g =
    Inr \<lparr>header = header f, flits = take k (flits f) @ drop k (flits g)\<rparr>"
proof -
  have len: "length (flit_bytes (map htobe64 (take k (flits f)))) = 8 * k" using assms(2) by simp
  have "pkt = le_bytes (htobe64 (tloe_header_word (header f))) @
      flit_bytes (map htobe64 (take k (flits f)))"
    using assms frame_to_packet_eq [of sz k f cap] by simp
  moreover have "nat (sz div 8 - 1) = k" using assms(1) by simp
  ultimately show ?thesis
    using assms(2,3) len
    by (simp add: packet_to_tloe_frame_def Let_def)
qed

text \<open>Carrying a message.  Writing the message and then the mask word leaves the message bytes
  in front of the mask as they were; the bytes that the mask word covers are lost.\<close>

lemma set_tlmsg_bytes:
  assumes "tloe_set_tlmsg f m = Inr g"
  shows "flit_bytes (flits g) =
      take (nat (tlmsg_get_total_size (tl_hdr m))) (tlmsg_bytes m) @
      drop (nat (tlmsg_get_total_size (tl_hdr m))) (flit_bytes (flits f))"
    "length (flits g) = length (flits f)" "header g = header f"
proof -
  let ?n = "nat (tlmsg_get_total_size (tl_hdr m))"
  let ?bs = "take ?n (tlmsg_bytes m) @ drop ?n (flit_bytes (flits f))"
  have le: "?n \<le> length (tlmsg_bytes m)" "?n \<le> 8 * length (flits f)"
    and g: "g = f\<lparr>flits := words_of_bytes ?bs\<rparr>"
    using assms by (auto simp: tloe_set_tlmsg_def Let_def split: if_splits)
  then have len: "length ?bs = 8 * length (flits f)" by simp
  then show "flit_bytes (flits g) = ?bs"
    unfolding g by (simp add: flit_bytes_words_of_bytes del: length_append)
  show "length (flits g) = length (flits f)"
    using len by (simp add: g length_words_of_bytes del: length_append)
  show "header g = header f" by (simp add: g)
qed

lemma set_tlmsg_ok:
  assumes "nat (tlmsg_get_total_size (tl_hdr m)) \<le> length (tlmsg_bytes m)"
    "nat (tlmsg_get_total_size (tl_hdr m)) \<le> 8 * length (flits f)"
  shows "\<exists>g. tloe_set_tlmsg f m = Inr g"
  using assms by (simp add: tloe_set_tlmsg_def Let_def)

lemma set_mask_ok:
  assumes "sz = 8 * (1 + int (length (flits f)))" "flits f \<noteq> []"
  shows "tloe_set_mask f v sz = Inr (f\<lparr>flits := (flits f)[length (flits f) - 1 := v]\<rparr>)"
proof -
  have "mask_index sz = int (length (flits f) - 1)"
    using assms by (cases "flits f") (auto simp: mask_index_def)
  then show ?thesis using assms(2) by (simp add: tloe_set_mask_def)
qed

lemma get_mask_ok:
  assumes "sz = 8 + 8 * int k" "0 < k" "k \<le> length (flits f)"
  shows "tloe_get_mask f sz = Inr (flits f ! (k - 1))"
proof -
  obtain j where "k = Suc j" using assms(2) by (cases k) auto
  then show ?thesis using assms by (simp add: tloe_get_mask_def mask_index_def)
qed

lemma flit_bytes_last_update:
  assumes "fl \<noteq> []"
  shows "flit_bytes (fl[length fl - 1 := v]) =
    take (8 * (length fl - 1)) (flit_bytes fl) @ le_bytes v"
proof -
  have "fl[length fl - 1 := v] = take (length fl - 1) fl @ [v]"
    using assms by (metis butlast_conv_take list_update_beyond list_update_length
        append_butlast_last_id length_butlast)
  then show ?thesis by (simp add: flit_bytes_append take_flit_bytes)
qed

lemma nth_flit_bytes:
  assumes "i < length fl"
  shows "fl ! i = of_le_bytes (take 8 (drop (8 * i) (flit_bytes fl)))"
proof -
  have "take 8 (flit_bytes (drop i fl)) = le_bytes (fl ! i)"
    using assms by (subst Cons_nth_drop_Suc [symmetric]) simp_all
  then show ?thesis by (simp add: drop_flit_bytes)
qed

text \<open>Reading a message back depends only on the bytes at its position.\<close>

lemma get_tlmsg_bytes:
  assumes "drop (8 * i) (flit_bytes (flits f)) = bs @ rest" "8 \<le> length bs"
    and "h = tl_header_of_word (of_le_bytes (take 8 bs))"
    and "length bs = nat (tlmsg_get_total_size h)"
  shows "tloe_get_tlmsg f i = Inr (Block (tlmsg_of_bytes bs))"
proof -
  have "0 < length (drop (8 * i) (flit_bytes (flits f)))"
    by (subst assms(1)) (use assms(2) in auto)
  then have i: "i < length (flits f)" by simp
  have "flits f ! i = of_le_bytes (take 8 bs)"
    using assms(1,2) by (simp add: nth_flit_bytes [OF i])
  then have h: "tl_header_of_word (flits f ! i) = h" using assms(3) by simp
  have tot: "nat (tlmsg_get_total_size h) = length bs" using assms(4) by simp
  show ?thesis
    using assms(2) i
    by (simp add: tloe_get_tlmsg_def h tot assms(1) block_of_bytes_def Let_def)
qed

section \<open>Properties\<close>

text \<open>C18: Serialisation round trip: a frame that is converted into a packet of \<open>8 + 8 * k\<close> bytes in
  network byte order and read back from a receive buffer, whatever follows the packet there, gives
  the same header and the same first \<open>k\<close> flits; the flits behind them keep what the receiving
  frame held.  The packet has exactly the size asked for.\<close>

theorem frame_packet_roundtrip:
  assumes "sz = 8 + 8 * int k" "k \<le> length (flits f)" "k \<le> length (flits g)" "sz \<le> cap"
  shows "\<exists>pkt. tloe_frame_to_packet cap f sz = Inr pkt \<and> length pkt = nat sz \<and>
    packet_to_tloe_frame (pkt @ junk) sz g =
      Inr \<lparr>header = header f, flits = take k (flits f) @ drop k (flits g)\<rparr>"
proof -
  obtain pkt where p: "tloe_frame_to_packet cap f sz = Inr pkt"
    using frame_to_packet_eq [OF assms(1,2,4)] by blast
  have "8 \<le> sz" using assms(1) by simp
  then have "length pkt = nat sz" by (rule frame_to_packet_length [OF p])
  then show ?thesis using p packet_to_frame_of_packet [OF assms p] by blast
qed

theorem frame_packet_roundtrip_witness:
  "let f = \<lparr>header = tloe_header_of_word 72057594037927937, flits = [1, 2, 3]\<rparr> in
   \<exists>pkt. tloe_frame_to_packet 1500 f 24 = Inr pkt \<and> length pkt = 24 \<and>
     packet_to_tloe_frame (pkt @ [7]) 24 (zero_frame 40) =
       Inr \<lparr>header = header f, flits = [1, 2, 0, 0]\<rparr>"
proof -
  have z: "flits (zero_frame 40) = [0, 0, 0, 0]" by (simp add: zero_frame_def numeral_eq_Suc)
  show ?thesis
    using frame_packet_roundtrip [of 24 2 "\<lparr>header = tloe_header_of_word 72057594037927937,
        flits = [1, 2, 3]\<rparr>" "zero_frame 40" 1500 "[7]"]
    by (simp add: z Let_def)
qed

end
