(* ===== verification/Flowcontrol.thy ===== *)
theory Flowcontrol
  imports Tloe_Frame
begin

text \<open>
  Credit-based flow control, \<open>flowcontrol.h\<close> and \<open>flowcontrol.c\<close>: the credits that the peer
  granted (spent by sending messages), the credits to hand back to the peer (collected by
  consuming messages) and their statistics.
\<close>

section \<open>The code\<close>

record flowcontrol =
  credits :: "u32 list"
  tx_flow_credits :: "u32 list"
  inc_cnt :: "u32 list"
  inc_value :: "u32 list"
  dec_cnt :: "u32 list"
  dec_value :: "u32 list"

abbreviation (input) "CREDIT_INIT \<equiv> (7 :: nat)"
abbreviation (input) "CREDIT_DEFAULT \<equiv> (10 :: nat)"

text \<open>\<open>1 << n\<close> as an unsigned 32-bit pattern, for the counts 0..31 that occur.\<close>

definition shl1 :: "nat \<Rightarrow> u32" where
  "shl1 n = push_bit n 1"

definition chan_ok :: "nat \<Rightarrow> bool" where
  "chan_ok c \<longleftrightarrow> c < CHANNEL_NUM"

definition set_credit :: "flowcontrol \<Rightarrow> nat \<Rightarrow> nat \<Rightarrow> flowcontrol result" where
  "set_credit fc channel n =
     (if chan_ok channel
      then Inr (fc\<lparr>credits := (credits fc)[channel := shl1 n],
                   tx_flow_credits := (tx_flow_credits fc)[channel := 0]\<rparr>)
      else Inl Out_Of_Bounds)"

text \<open>The loop over the six channels of \<open>init_flowcontrol\<close>: \<open>set_credit\<close> and four counters.\<close>

definition init_channel :: "flowcontrol \<Rightarrow> nat \<Rightarrow> flowcontrol result" where
  "init_channel fc i =
     bindR (set_credit fc i CREDIT_INIT) (\<lambda>fc.
       Inr (fc\<lparr>inc_cnt := (inc_cnt fc)[i := 0], inc_value := (inc_value fc)[i := 0],
               dec_cnt := (dec_cnt fc)[i := 0], dec_value := (dec_value fc)[i := 0]\<rparr>))"

definition init_flowcontrol :: "flowcontrol \<Rightarrow> flowcontrol result" where
  "init_flowcontrol fc = fold (\<lambda>i r. bindR r (\<lambda>fc. init_channel fc i)) [0..<CHANNEL_NUM] (Inr fc)"

text \<open>\<open>wde\<close> is the build option \<open>WDE\<close>.\<close>

definition is_filled_credit :: "bool \<Rightarrow> flowcontrol \<Rightarrow> nat \<Rightarrow> bool result" where
  "is_filled_credit wde fc channel =
     (if wde \<and> \<not> (channel = 1 \<or> channel = 3 \<or> channel = 5) then Inr False
      else if chan_ok channel then Inr (shl1 CREDIT_INIT < credits fc ! channel)
      else Inl Out_Of_Bounds)"

definition check_all_channels :: "bool \<Rightarrow> flowcontrol \<Rightarrow> bool" where
  "check_all_channels wde fc =
     (let credit_init = shl1 CREDIT_INIT in
      if wde then
        credit_init < credits fc ! 1 \<and> credit_init < credits fc ! 3 \<and> credit_init < credits fc ! 5
      else
        credit_init < credits fc ! 1 \<and> credit_init < credits fc ! 2 \<and>
        credit_init < credits fc ! 3 \<and> credit_init < credits fc ! 4 \<and> credit_init < credits fc ! 5)"

text \<open>The comparison of the unsigned counter with the \<open>int\<close> argument is unsigned; the result
  is the counter as an \<open>int\<close>.\<close>

definition try_dec_credits :: "flowcontrol \<Rightarrow> nat \<Rightarrow> int \<Rightarrow> int" where
  "try_dec_credits fc tl_ch n =
     (if credits fc ! tl_ch < word_of_int n then -1 else sint (credits fc ! tl_ch))"

definition fc_credit_inc :: "flowcontrol \<Rightarrow> tloe_frame \<Rightarrow> (flowcontrol \<times> int) result" where
  "fc_credit_inc fc f =
     (let tl_ch = unat (chan (header f)) in
      if \<not> chan_ok tl_ch then Inl Out_Of_Bounds
      else if tl_ch \<noteq> 0 then
        (let inc = shl1 (unat (credit (header f))) in
         Inr (fc\<lparr>credits := (credits fc)[tl_ch := credits fc ! tl_ch + inc],
                 inc_cnt := (inc_cnt fc)[tl_ch := inc_cnt fc ! tl_ch + 1],
                 inc_value := (inc_value fc)[tl_ch := inc_value fc ! tl_ch + inc]\<rparr>, sint inc))
      else Inr (fc, -1))"

definition fc_credit_dec :: "flowcontrol \<Rightarrow> tl_msg \<Rightarrow> (flowcontrol \<times> int) result" where
  "fc_credit_dec fc m =
     (let tl_ch = unat (tl_chan (tl_hdr m)) in
      if \<not> chan_ok tl_ch then Inl Out_Of_Bounds
      else
        let wanted = (if tl_ch \<noteq> 0 then tlmsg_get_flits_cnt (tl_hdr m) else -1);
            dec = (if try_dec_credits fc tl_ch wanted = -1 then -1 else wanted)
        in if dec \<noteq> -1 then
             Inr (fc\<lparr>credits := (credits fc)[tl_ch := credits fc ! tl_ch - word_of_int dec],
                     dec_cnt := (dec_cnt fc)[tl_ch := dec_cnt fc ! tl_ch + 1],
                     dec_value := (dec_value fc)[tl_ch := dec_value fc ! tl_ch + word_of_int dec]\<rparr>,
                  dec)
           else Inr (fc, -1))"

definition get_credit :: "flowcontrol \<Rightarrow> nat \<Rightarrow> int result" where
  "get_credit fc channel =
     (if chan_ok channel then Inr (sint (credits fc ! channel)) else Inl Out_Of_Bounds)"

definition add_channel_flow_credits :: "flowcontrol \<Rightarrow> nat \<Rightarrow> int \<Rightarrow> flowcontrol result" where
  "add_channel_flow_credits fc channel total_flits =
     (if chan_ok channel
      then Inr (fc\<lparr>tx_flow_credits :=
        (tx_flow_credits fc)[channel := tx_flow_credits fc ! channel + word_of_int total_flits]\<rparr>)
      else Inl Out_Of_Bounds)"

text \<open>The loop of \<open>select_max_credit_channel\<close>: the running maximum and its channel.\<close>

definition max_credit_step :: "flowcontrol \<Rightarrow> nat \<Rightarrow> u32 \<times> nat \<Rightarrow> u32 \<times> nat" where
  "max_credit_step fc i st =
     (if tx_flow_credits fc ! i \<le> fst st then st else (tx_flow_credits fc ! i, i))"

definition select_max_credit_channel :: "flowcontrol \<Rightarrow> nat" where
  "select_max_credit_channel fc =
     snd (fold (max_credit_step fc) [1..<CHANNEL_NUM] (tx_flow_credits fc ! 0, 0))"

text \<open>\<open>__builtin_clz\<close> is undefined at 0.\<close>

fun leading_zeros :: "nat \<Rightarrow> u32 \<Rightarrow> nat" where
  "leading_zeros 0 v = 0"
| "leading_zeros (Suc n) v = (if bit v n then 0 else Suc (leading_zeros n v))"

definition builtin_clz :: "u32 \<Rightarrow> nat result" where
  "builtin_clz v = (if v = 0 then Inl Undefined else Inr (leading_zeros 32 v))"

definition get_largest_pow :: "u32 \<Rightarrow> nat result" where
  "get_largest_pow v = bindR (builtin_clz v) (\<lambda>z. Inr (31 - z))"

definition get_outgoing_credits :: "flowcontrol \<Rightarrow> nat \<Rightarrow> (flowcontrol \<times> nat) result" where
  "get_outgoing_credits fc ch =
     (if chan_ok ch then
        bindR (get_largest_pow (tx_flow_credits fc ! ch)) (\<lambda>n.
          Inr (fc\<lparr>tx_flow_credits :=
                 (tx_flow_credits fc)[ch := tx_flow_credits fc ! ch - shl1 n]\<rparr>, n))
      else Inl Out_Of_Bounds)"

section \<open>Invariant\<close>

definition fc_inv :: "flowcontrol \<Rightarrow> bool" where
  "fc_inv fc \<longleftrightarrow>
     length (credits fc) = CHANNEL_NUM \<and> length (tx_flow_credits fc) = CHANNEL_NUM \<and>
     length (inc_cnt fc) = CHANNEL_NUM \<and> length (inc_value fc) = CHANNEL_NUM \<and>
     length (dec_cnt fc) = CHANNEL_NUM \<and> length (dec_value fc) = CHANNEL_NUM"

text \<open>The credit balance of a channel: what it holds, less what came in, plus what was spent.\<close>

definition fc_base :: "flowcontrol \<Rightarrow> nat \<Rightarrow> u32" where
  "fc_base fc c = credits fc ! c - inc_value fc ! c + dec_value fc ! c"

lemma fc_credit_inc_ok:
  assumes "unat (chan (header f)) < CHANNEL_NUM"
  shows "\<exists>r. fc_credit_inc fc f = Inr r"
  using assms by (simp add: fc_credit_inc_def chan_ok_def Let_def)

lemma fc_credit_inc_inv:
  assumes "fc_inv fc" "fc_credit_inc fc f = Inr (fc', n)"
  shows "fc_inv fc'" "c < CHANNEL_NUM \<Longrightarrow> fc_base fc' c = fc_base fc c"
    "tx_flow_credits fc' = tx_flow_credits fc"
  using assms
  by (auto simp: fc_credit_inc_def fc_inv_def fc_base_def chan_ok_def Let_def nth_list_update
      split: if_splits)

lemma fc_credit_dec_inv:
  assumes "fc_inv fc" "fc_credit_dec fc m = Inr (fc', n)"
  shows "fc_inv fc'" "c < CHANNEL_NUM \<Longrightarrow> fc_base fc' c = fc_base fc c"
    "tx_flow_credits fc' = tx_flow_credits fc"
  using assms
  by (auto simp: fc_credit_dec_def fc_inv_def fc_base_def chan_ok_def Let_def nth_list_update
      split: if_splits)

lemma fc_credit_dec_ok:
  assumes "unat (tl_chan (tl_hdr m)) < CHANNEL_NUM"
  shows "\<exists>r. fc_credit_dec fc m = Inr r"
  using assms by (simp add: fc_credit_dec_def chan_ok_def Let_def)

lemma fc_credit_dec_refused: "fc_credit_dec fc m = Inr (fc', -1) \<Longrightarrow> fc' = fc"
  by (auto simp: fc_credit_dec_def Let_def split: if_splits)

text \<open>The flit count of a message fits easily in 32 bits.\<close>

lemma flits_cnt_range:
  "0 \<le> tlmsg_get_flits_cnt h" "tlmsg_get_flits_cnt h < 5000"
proof -
  show "0 \<le> tlmsg_get_flits_cnt h" by (simp add: tlmsg_get_flits_cnt_eq)
  have "(header_bytes h + 7) div 8 \<le> 2" using header_bytes_range [of h] by auto
  moreover have "(data_bytes h + 7) div 8 \<le> 4096" using data_bytes_le [of h] by linarith
  ultimately show "tlmsg_get_flits_cnt h < 5000" by (simp add: tlmsg_get_flits_cnt_eq)
qed

section \<open>Spending credit\<close>

lemma u32_minus_one_unat: "sint (x :: u32) = -1 \<longleftrightarrow> unat x = 4294967295"
proof -
  have "sint x = -1 \<longleftrightarrow> x = -1" by (metis signed_word_eqI sint_n1)
  also have "\<dots> \<longleftrightarrow> unat x = unat (-1 :: u32)" by (metis word_unat_eq_iff)
  also have "unat (-1 :: u32) = 4294967295"
    by (simp add: unsigned_minus_1_eq_mask mask_eq_exp_minus_1)
  finally show ?thesis .
qed

lemma dec_channel_0:
  assumes "unat (tl_chan (tl_hdr m)) = 0"
  shows "fc_credit_dec fc m = Inr (fc, -1)"
proof -
  have "try_dec_credits fc 0 (-1) = -1"
  proof (cases "credits fc ! 0 < word_of_int (-1)")
    case True
    then show ?thesis by (simp add: try_dec_credits_def)
  next
    case False
    then have "credits fc ! 0 = -1" by (metis linorder_neqE word_n1_ge leD word_of_int_neg_1)
    then show ?thesis by (simp add: try_dec_credits_def)
  qed
  then show ?thesis using assms by (simp add: fc_credit_dec_def chan_ok_def Let_def)
qed

lemma dec_spec:
  assumes "fc_inv fc" "unat (tl_chan (tl_hdr m)) = c" "0 < c" "c < CHANNEL_NUM"
    and "unat (credits fc ! c) < 4294967295"
  shows "fc_credit_dec fc m =
    (let cost = tlmsg_get_flits_cnt (tl_hdr m) in
     if int (unat (credits fc ! c)) < cost then Inr (fc, -1)
     else Inr (fc\<lparr>credits := (credits fc)[c := credits fc ! c - word_of_int cost],
                  dec_cnt := (dec_cnt fc)[c := dec_cnt fc ! c + 1],
                  dec_value := (dec_value fc)[c := dec_value fc ! c + word_of_int cost]\<rparr>, cost))"
proof -
  define cost where "cost = tlmsg_get_flits_cnt (tl_hdr m)"
  have cost: "0 \<le> cost" "cost < 5000" unfolding cost_def by (rule flits_cnt_range)+
  have "uint (word_of_int cost :: u32) = cost"
    using cost by (simp add: unsigned_of_int take_bit_int_eq_self)
  then have lt: "credits fc ! c < word_of_int cost \<longleftrightarrow> int (unat (credits fc ! c)) < cost"
    by (simp add: word_less_def)
  have "sint (credits fc ! c) \<noteq> -1" using assms(5) u32_minus_one_unat [of "credits fc ! c"] by simp
  then have "try_dec_credits fc c cost = -1 \<longleftrightarrow> int (unat (credits fc ! c)) < cost"
    by (simp add: try_dec_credits_def lt del: of_nat_unat)
  then show ?thesis
    using assms(2,3,4) cost
    by (simp add: fc_credit_dec_def chan_ok_def Let_def del: of_nat_unat flip: cost_def)
qed

lemma unat_sub_cost:
  assumes "0 \<le> cost" "cost < 5000" "\<not> int (unat (x :: u32)) < cost"
  shows "unat (x - word_of_int cost) = unat x - nat cost"
proof -
  have c: "word_of_int cost = (of_nat (nat cost) :: u32)" using assms(1) by simp
  have "nat cost < 5000" "nat cost \<le> unat x" using assms by linarith+
  then have "unat (of_nat (nat cost) :: u32) = nat cost"
    by (simp add: unat_of_nat take_bit_nat_eq_self)
  then show ?thesis
    using \<open>nat cost \<le> unat x\<close> unfolding c by (simp add: unat_sub word_le_nat_alt)
qed

section \<open>Handing credit back\<close>

lemma leading_zeros_spec:
  assumes "bit v j" "j < n"
  shows "leading_zeros n v < n \<and> bit v (n - 1 - leading_zeros n v) \<and>
    (\<forall>m < n. n - 1 - leading_zeros n v < m \<longrightarrow> \<not> bit v m)"
  using assms
proof (induction n)
  case (Suc n)
  show ?case
  proof (cases "bit v n")
    case True
    then show ?thesis by simp
  next
    case False
    with Suc.prems have "j < n" by (metis less_antisym)
    with Suc False show ?thesis by (auto simp: less_Suc_eq)
  qed
qed simp

lemma get_largest_pow_spec:
  assumes "v \<noteq> 0"
  obtains k where "get_largest_pow v = Inr k" "k < 32" "2 ^ k \<le> unat v" "unat v < 2 ^ (k + 1)"
proof -
  define k where "k = 31 - leading_zeros 32 v"
  from assms obtain j where "bit v j" by (metis bit_eqI bit_0_eq bot_apply bot_bool_def)
  moreover from this have "j < 32" by (auto dest: bit_imp_le_length)
  ultimately have k: "bit v k" "\<And>m. m < 32 \<Longrightarrow> k < m \<Longrightarrow> \<not> bit v m"
    using leading_zeros_spec [of v j 32] by (auto simp: k_def)
  have high: "\<not> bit v m" if "k < m" for m
    using k(2) [of m] that by (cases "m < 32") (auto dest: bit_imp_le_length)
  have tk: "take_bit (k + 1) v = v"
  proof (rule bit_eqI)
    fix n
    show "bit (take_bit (k + 1) v) n = bit v n"
      using high [of n] by (cases "k < n") (simp_all add: bit_take_bit_iff)
  qed
  have "unat v < 2 ^ (k + 1)"
    by (metis tk unsigned_take_bit_eq take_bit_nat_less_exp)
  moreover have "2 ^ k \<le> unat v"
  proof (rule ccontr)
    assume "\<not> 2 ^ k \<le> unat v"
    then have "take_bit k (unat v) = unat v" by (simp add: take_bit_nat_eq_self)
    then have "\<not> bit (unat v) k" by (metis bit_take_bit_iff less_irrefl)
    with k(1) show False by (simp add: bit_unsigned_iff)
  qed
  moreover have "get_largest_pow v = Inr k"
    using assms by (simp add: get_largest_pow_def builtin_clz_def k_def)
  ultimately show thesis using that [of k] by (simp add: k_def)
qed

lemma unat_shl1: "n < 32 \<Longrightarrow> unat (shl1 n) = 2 ^ n"
  by (simp only: shl1_def unsigned_push_bit_eq)
    (simp add: take_bit_nat_eq_self push_bit_eq_mult)

lemma get_outgoing_spec:
  assumes "fc_inv fc" "c < CHANNEL_NUM" "tx_flow_credits fc ! c \<noteq> 0"
  obtains k fc' where "get_outgoing_credits fc c = Inr (fc', k)" "k < 32"
    "unat (tx_flow_credits fc ! c) = 2 ^ k + unat (tx_flow_credits fc' ! c)"
    "unat (tx_flow_credits fc' ! c) < 2 ^ k"
    "fc' = fc\<lparr>tx_flow_credits := (tx_flow_credits fc)[c := tx_flow_credits fc' ! c]\<rparr>" "fc_inv fc'"
proof -
  obtain k where k: "get_largest_pow (tx_flow_credits fc ! c) = Inr k" "k < 32"
    "2 ^ k \<le> unat (tx_flow_credits fc ! c)" "unat (tx_flow_credits fc ! c) < 2 ^ (k + 1)"
    using get_largest_pow_spec [OF assms(3)] by metis
  define v where "v = tx_flow_credits fc ! c - shl1 k"
  have v: "unat v = unat (tx_flow_credits fc ! c) - 2 ^ k"
    using k by (simp add: v_def unat_sub word_le_nat_alt unat_shl1)
  show thesis
    by (rule that [of "fc\<lparr>tx_flow_credits := (tx_flow_credits fc)[c := v]\<rparr>" k])
      (use assms k v in \<open>auto simp: get_outgoing_credits_def chan_ok_def fc_inv_def v_def\<close>)
qed

text \<open>The selected channel has the most credit to return, and is channel 0 only when no other
  channel has any.\<close>

lemma fold_max_credit:
  assumes "fold (max_credit_step fc) is (tx_flow_credits fc ! c, c) = (mx, ch)"
  shows "mx = tx_flow_credits fc ! ch \<and> ch \<in> insert c (set is) \<and>
    (\<forall>i \<in> insert c (set is). tx_flow_credits fc ! i \<le> mx) \<and>
    (ch \<noteq> c \<longrightarrow> tx_flow_credits fc ! c < mx)"
  using assms
proof (induction "is" arbitrary: c)
  case Nil
  then show ?case by auto
next
  case (Cons j js)
  show ?case
  proof (cases "tx_flow_credits fc ! j \<le> tx_flow_credits fc ! c")
    case True
    then have "fold (max_credit_step fc) js (tx_flow_credits fc ! c, c) = (mx, ch)"
      using Cons.prems by (simp add: max_credit_step_def [of fc j])
    from Cons.IH [OF this] True show ?thesis by auto
  next
    case False
    then have "fold (max_credit_step fc) js (tx_flow_credits fc ! j, j) = (mx, ch)"
      using Cons.prems by (simp add: max_credit_step_def [of fc j])
    from Cons.IH [OF this] False show ?thesis by (auto simp: not_le)
  qed
qed

lemma select_max_spec:
  shows "select_max_credit_channel fc < CHANNEL_NUM"
    "i < CHANNEL_NUM \<Longrightarrow>
      tx_flow_credits fc ! i \<le> tx_flow_credits fc ! select_max_credit_channel fc"
    "select_max_credit_channel fc \<noteq> 0 \<Longrightarrow>
      tx_flow_credits fc ! 0 < tx_flow_credits fc ! select_max_credit_channel fc"
proof -
  define ch where "ch = select_max_credit_channel fc"
  define res where "res = fold (max_credit_step fc) [1..<6] (tx_flow_credits fc ! 0, 0)"
  have "res = (fst res, ch)"
    unfolding ch_def select_max_credit_channel_def res_def by (rule prod.collapse [symmetric])
  from fold_max_credit [OF this [unfolded res_def]]
  have r: "fst res = tx_flow_credits fc ! ch" "ch \<in> insert 0 (set [1..<6])"
    "\<And>i. i \<in> insert 0 (set [1..<6]) \<Longrightarrow> tx_flow_credits fc ! i \<le> fst res"
    "ch \<noteq> 0 \<Longrightarrow> tx_flow_credits fc ! 0 < fst res"
    unfolding res_def by blast+
  have six: "i \<in> insert 0 (set [1..<6]) \<longleftrightarrow> i < 6" for i :: nat by auto
  show "select_max_credit_channel fc < 6" using r(2) unfolding six ch_def .
  show "i < 6 \<Longrightarrow> tx_flow_credits fc ! i \<le> tx_flow_credits fc ! select_max_credit_channel fc"
    using r(3) unfolding six r(1) ch_def .
  show "select_max_credit_channel fc \<noteq> 0 \<Longrightarrow>
      tx_flow_credits fc ! 0 < tx_flow_credits fc ! select_max_credit_channel fc"
    using r(4) unfolding r(1) ch_def .
qed

section \<open>Properties\<close>

text \<open>C16: Spending credit is all or nothing.  For a message of a real channel whose counter is not
  \<open>2 ^ 32 - 1\<close>, \<open>fc_credit_dec\<close> refuses, and changes nothing, exactly when the channel holds fewer
  credits than the message has flits; else it takes exactly that many, without going below zero,
  and no other channel changes.\<close>

theorem credit_dec_all_or_nothing:
  assumes "fc_inv fc" "unat (tl_chan (tl_hdr m)) = c" "0 < c" "c < CHANNEL_NUM"
    and "unat (credits fc ! c) < 4294967295"
  shows "\<exists>fc' r. fc_credit_dec fc m = Inr (fc', r) \<and>
    (if int (unat (credits fc ! c)) < tlmsg_get_flits_cnt (tl_hdr m) then r = -1 \<and> fc' = fc
     else r = tlmsg_get_flits_cnt (tl_hdr m) \<and>
       unat (credits fc' ! c) + nat (tlmsg_get_flits_cnt (tl_hdr m)) = unat (credits fc ! c) \<and>
       (\<forall>d. d \<noteq> c \<longrightarrow> credits fc' ! d = credits fc ! d))"
proof -
  let ?cost = "tlmsg_get_flits_cnt (tl_hdr m)"
  have c: "c < length (credits fc)" using assms(1,4) by (simp add: fc_inv_def)
  note spec = dec_spec [OF assms, unfolded Let_def]
  show ?thesis
  proof (cases "int (unat (credits fc ! c)) < ?cost")
    case False
    have "unat (credits fc ! c - word_of_int ?cost) = unat (credits fc ! c) - nat ?cost"
      by (rule unat_sub_cost [OF flits_cnt_range False])
    moreover have "nat ?cost \<le> unat (credits fc ! c)" using False by linarith
    ultimately show ?thesis using False spec c by (auto simp del: of_nat_unat)
  qed (use spec in auto)
qed

theorem credit_dec_all_or_nothing_witness:
  "let h = (tl_header_of_word 0)\<lparr>tl_chan := 1, tl_opcode := 4\<rparr>; m = \<lparr>tl_hdr = h, tl_data = []\<rparr>;
       fc = \<lparr>credits = [0, 5, 0, 0, 0, 0], tx_flow_credits = replicate 6 0, inc_cnt = replicate 6 0,
             inc_value = replicate 6 0, dec_cnt = replicate 6 0, dec_value = replicate 6 0\<rparr>
   in \<exists>fc' r. fc_credit_dec fc m = Inr (fc', r) \<and> r = 2 \<and> unat (credits fc' ! 1) = 3"
proof -
  let ?m = "\<lparr>tl_hdr = (tl_header_of_word 0)\<lparr>tl_chan := 1, tl_opcode := 4\<rparr>, tl_data = []\<rparr>"
  let ?fc = "\<lparr>credits = [0, 5, 0, 0, 0, 0], tx_flow_credits = replicate 6 0,
     inc_cnt = replicate 6 0, inc_value = replicate 6 0, dec_cnt = replicate 6 0,
     dec_value = replicate 6 0\<rparr>"
  have cost: "tlmsg_get_flits_cnt (tl_hdr ?m) = 2"
    by (simp add: tlmsg_get_flits_cnt_eq header_bytes_def data_bytes_def carries_data_def)
  have "fc_inv ?fc" by (simp add: fc_inv_def)
  then show ?thesis
    using credit_dec_all_or_nothing [where fc = ?fc and m = ?m and c = 1] cost by (auto simp: Let_def)
qed

section \<open>The ledger of a channel\<close>

text \<open>All operations that change the counters, with what they return: the message credits spent, or \<open>-1\<close>
  for a refused message, and the exponent of the credit that goes back.\<close>

datatype fc_op = Fc_set nat nat | Fc_inc tloe_frame | Fc_dec tl_msg | Fc_add nat int | Fc_out nat

fun fc_step :: "fc_op \<Rightarrow> flowcontrol \<Rightarrow> (flowcontrol \<times> int) result" where
  "fc_step (Fc_set c n) fc = bindR (set_credit fc c n) (\<lambda>fc. Inr (fc, 0))"
| "fc_step (Fc_inc f) fc = fc_credit_inc fc f"
| "fc_step (Fc_dec m) fc = fc_credit_dec fc m"
| "fc_step (Fc_add c n) fc = bindR (add_channel_flow_credits fc c n) (\<lambda>fc. Inr (fc, 0))"
| "fc_step (Fc_out c) fc = bindR (get_outgoing_credits fc c) (\<lambda>(fc, k). Inr (fc, int k))"

fun fc_run :: "fc_op list \<Rightarrow> flowcontrol \<Rightarrow> (flowcontrol \<times> int list) result" where
  "fc_run [] fc = Inr (fc, [])"
| "fc_run (op # ops) fc =
     bindR (fc_step op fc) (\<lambda>(fc, r). bindR (fc_run ops fc) (\<lambda>(fc, rs). Inr (fc, r # rs)))"

text \<open>What one channel should have: the flits it may send and those it owes to the peer, and the totals
  of the credit that came in and of the credit that was spent.\<close>

record ledger =
  held :: u32
  owed :: u32
  grants :: u32
  granted :: u32
  messages :: u32
  spent :: u32

definition ledger_of :: "flowcontrol \<Rightarrow> nat \<Rightarrow> ledger" where
  "ledger_of fc c = \<lparr>held = credits fc ! c, owed = tx_flow_credits fc ! c, grants = inc_cnt fc ! c,
     granted = inc_value fc ! c, messages = dec_cnt fc ! c, spent = dec_value fc ! c\<rparr>"

text \<open>What an operation and its answer book on channel \<open>c\<close>.  Channel 0 stands for no channel.\<close>

fun book :: "nat \<Rightarrow> fc_op \<times> int \<Rightarrow> ledger \<Rightarrow> ledger" where
  "book c (Fc_set d n, _) l = (if d = c then l\<lparr>held := 2 ^ n, owed := 0\<rparr> else l)"
| "book c (Fc_inc f, _) l =
     (if c \<noteq> 0 \<and> unat (chan (header f)) = c
      then let n = 2 ^ unat (credit (header f))
           in l\<lparr>held := held l + n, grants := grants l + 1, granted := granted l + n\<rparr>
      else l)"
| "book c (Fc_dec m, r) l =
     (if r \<noteq> -1 \<and> unat (tl_chan (tl_hdr m)) = c
      then let n = of_int (tlmsg_get_flits_cnt (tl_hdr m))
           in l\<lparr>held := held l - n, messages := messages l + 1, spent := spent l + n\<rparr>
      else l)"
| "book c (Fc_add d n, _) l = (if d = c then l\<lparr>owed := owed l + of_int n\<rparr> else l)"
| "book c (Fc_out d, k) l = (if d = c then l\<lparr>owed := owed l - 2 ^ nat k\<rparr> else l)"

lemma shl1_power: "shl1 n = 2 ^ n"
  by (simp add: shl1_def push_bit_eq_mult)

lemma dec_answer:
  assumes "fc_credit_dec fc m = Inr (fc', r)"
  shows "r \<noteq> -1 \<Longrightarrow> r = tlmsg_get_flits_cnt (tl_hdr m) \<and> unat (tl_chan (tl_hdr m)) \<noteq> 0"
  using assms dec_channel_0 [of m fc]
  by (auto simp: fc_credit_dec_def Let_def split: if_splits)

lemma fc_step_ledger:
  assumes "fc_inv fc" "fc_step op fc = Inr (fc', r)" "c < CHANNEL_NUM"
  shows "fc_inv fc'" "ledger_of fc' c = book c (op, r) (ledger_of fc c)"
proof -
  have "fc_inv fc' \<and> ledger_of fc' c = book c (op, r) (ledger_of fc c)"
  proof (cases op)
    case (Fc_set d n)
    then show ?thesis using assms
      by (auto simp: set_credit_def chan_ok_def fc_inv_def ledger_of_def shl1_power nth_list_update
          split: if_splits)
  next
    case (Fc_inc f)
    then show ?thesis using assms
      by (auto simp: fc_credit_inc_def chan_ok_def fc_inv_def ledger_of_def shl1_power nth_list_update
          Let_def split: if_splits)
  next
    case (Fc_dec m)
    then have d: "fc_credit_dec fc m = Inr (fc', r)" using assms(2) by simp
    show ?thesis using Fc_dec assms(1,3) d dec_answer [OF d]
      by (auto simp: fc_credit_dec_def chan_ok_def fc_inv_def ledger_of_def nth_list_update Let_def
          split: if_splits)
  next
    case (Fc_add d n)
    then show ?thesis using assms
      by (auto simp: add_channel_flow_credits_def chan_ok_def fc_inv_def ledger_of_def nth_list_update
          split: if_splits)
  next
    case (Fc_out d)
    then show ?thesis using assms
      by (auto simp: get_outgoing_credits_def bindR_Inr_iff chan_ok_def fc_inv_def ledger_of_def
          shl1_power nth_list_update split: if_splits)
  qed
  then show "fc_inv fc'" "ledger_of fc' c = book c (op, r) (ledger_of fc c)" by simp_all
qed

text \<open>C15: Credit accounting.  Whatever sequence of operations sets, grants, spends, collects and returns
  credit, every channel ends with exactly what a ledger of its own says: the flits it holds are those
  it was set to, plus \<open>2 ^ credit\<close> for every frame that granted credit on the channel, less the flits of
  every message that was let through; what it owes grows by the flits that were served and shrinks
  by the power of two that each return announces; the statistics are the totals of the two.  No
  operation touches another channel, and all amounts are modulo \<open>2 ^ 32\<close>.\<close>

theorem credit_conservation:
  assumes "fc_inv fc" "fc_run ops fc = Inr (fc', rs)" "c < CHANNEL_NUM"
  shows "fc_inv fc' \<and> length rs = length ops \<and>
    ledger_of fc' c = fold (book c) (zip ops rs) (ledger_of fc c)"
  using assms(1,2)
proof (induction ops arbitrary: fc rs)
  case (Cons op ops)
  obtain fc1 r rs' where s: "fc_step op fc = Inr (fc1, r)" "fc_run ops fc1 = Inr (fc', rs')" "rs = r # rs'"
    using Cons.prems(2) by (auto simp: bindR_Inr_iff)
  note l = fc_step_ledger [OF Cons.prems(1) s(1) assms(3)]
  show ?case using Cons.IH [OF l(1) s(2)] l(2) s(3) by simp
qed simp

theorem credit_conservation_witness:
  "let fc = \<lparr>credits = [0, 5, 0, 0, 0, 0], tx_flow_credits = replicate 6 0, inc_cnt = replicate 6 0,
             inc_value = replicate 6 0, dec_cnt = replicate 6 0, dec_value = replicate 6 0\<rparr>;
       f = \<lparr>header = (tloe_header_of_word 0)\<lparr>chan := 1, credit := 3\<rparr>, flits = []\<rparr>
   in \<exists>fc'. fc_run [Fc_inc f, Fc_add 1 2] fc = Inr (fc', [8, 0]) \<and>
     ledger_of fc' 1 = \<lparr>held = 13, owed = 2, grants = 1, granted = 8, messages = 0, spent = 0\<rparr>"
proof -
  let ?fc = "\<lparr>credits = [0, 5, 0, 0, 0, 0], tx_flow_credits = replicate 6 0,
     inc_cnt = replicate 6 0, inc_value = replicate 6 0, dec_cnt = replicate 6 0,
     dec_value = replicate 6 0\<rparr>"
  let ?f = "\<lparr>header = (tloe_header_of_word 0)\<lparr>chan := 1, credit := 3\<rparr>, flits = []\<rparr>"
  obtain fc' where run: "fc_run [Fc_inc ?f, Fc_add 1 2] ?fc = Inr (fc', [8, 0])"
    by (simp add: fc_credit_inc_def add_channel_flow_credits_def chan_ok_def Let_def shl1_def)
  have "fc_inv ?fc" by (simp add: fc_inv_def)
  from credit_conservation [OF this run, where c = 1]
  have "ledger_of fc' 1 = \<lparr>held = 13, owed = 2, grants = 1, granted = 8, messages = 0, spent = 0\<rparr>"
    by (simp add: ledger_of_def Let_def)
  with run show ?thesis by (auto simp: Let_def)
qed

text \<open>C17: Credit is handed back in the largest power of two.  For a channel with credit to return,
  \<open>get_outgoing_credits\<close> gives the exponent of the largest power of two that does not exceed it,
  keeps the rest, which is smaller than what was sent, and changes no other channel; the shift and
  the count of leading zeros are defined.\<close>

theorem outgoing_credit_largest_power:
  assumes "fc_inv fc" "c < CHANNEL_NUM" "tx_flow_credits fc ! c \<noteq> 0"
  shows "\<exists>k fc'. get_outgoing_credits fc c = Inr (fc', k) \<and> k < 32 \<and>
    unat (tx_flow_credits fc ! c) = 2 ^ k + unat (tx_flow_credits fc' ! c) \<and>
    unat (tx_flow_credits fc' ! c) < 2 ^ k \<and> credits fc' = credits fc \<and>
    (\<forall>d. d \<noteq> c \<longrightarrow> tx_flow_credits fc' ! d = tx_flow_credits fc ! d)"
proof -
  obtain k fc' where g: "get_outgoing_credits fc c = Inr (fc', k)" "k < 32"
    "unat (tx_flow_credits fc ! c) = 2 ^ k + unat (tx_flow_credits fc' ! c)"
    "unat (tx_flow_credits fc' ! c) < 2 ^ k"
    and e: "fc' = fc\<lparr>tx_flow_credits := (tx_flow_credits fc)[c := tx_flow_credits fc' ! c]\<rparr>"
    by (rule get_outgoing_spec [OF assms])
  have "credits fc' = credits fc" by (subst e) simp
  moreover have "tx_flow_credits fc' ! d = tx_flow_credits fc ! d" if "d \<noteq> c" for d
    by (subst e) (use that in simp)
  ultimately show ?thesis using g by blast
qed

theorem outgoing_credit_largest_power_witness:
  "let fc = \<lparr>credits = replicate 6 0, tx_flow_credits = [0, 5, 0, 0, 0, 0],
     inc_cnt = replicate 6 0, inc_value = replicate 6 0, dec_cnt = replicate 6 0,
     dec_value = replicate 6 0\<rparr> in
   \<exists>k fc'. get_outgoing_credits fc 1 = Inr (fc', k) \<and> 5 = 2 ^ k + unat (tx_flow_credits fc' ! 1)"
proof -
  let ?fc = "\<lparr>credits = replicate 6 0, tx_flow_credits = [0, 5, 0, 0, 0, 0],
     inc_cnt = replicate 6 0, inc_value = replicate 6 0, dec_cnt = replicate 6 0,
     dec_value = replicate 6 0\<rparr>"
  have "fc_inv ?fc" by (simp add: fc_inv_def)
  from outgoing_credit_largest_power [OF this, where c = 1] show ?thesis by (auto simp: Let_def)
qed

text \<open>The channel whose credit goes back first is one with the most credit to return; channel 0,
  which stands for no channel, is selected only when no channel has more than it.\<close>

lemma select_max_channel:
  "select_max_credit_channel fc < CHANNEL_NUM \<and>
   list_all (\<lambda>i. tx_flow_credits fc ! i \<le> tx_flow_credits fc ! select_max_credit_channel fc)
     [0..<CHANNEL_NUM] \<and>
   (select_max_credit_channel fc = 0 \<or>
    tx_flow_credits fc ! 0 < tx_flow_credits fc ! select_max_credit_channel fc)"
  using select_max_spec [where fc = fc] by (auto simp: list_all_iff)

end
