(* ===== verification/Timeout.thy ===== *)
theory Timeout
  imports OX_Prelude "HOL-Library.Signed_Division"
begin

text \<open>
  Time stamps, \<open>timeout.h\<close> and \<open>timeout.c\<close>, and the resend timer \<open>check_timer\<close> of
  \<open>tloe_connection.c\<close>.  Readings of the monotonic clock are arguments.  \<open>difftime\<close> works on
  doubles, which are exact for differences of microsecond counts below \<open>2 ^ 53\<close>; the model
  computes with integers.  C division truncates.
\<close>

record timespec =
  tv_sec :: int
  tv_nsec :: int

abbreviation (input) "TIMEOUT_TIME \<equiv> (100000 :: int)"
abbreviation (input) "CONN_RESEND_TIME \<equiv> (5000000 :: int)"

definition get_current_timestamp :: "timespec \<Rightarrow> int" where
  "get_current_timestamp ts = tv_sec ts * 1000000 + tv_nsec ts sdiv 1000"

definition is_timeout_tx :: "timespec \<Rightarrow> int \<Rightarrow> bool" where
  "is_timeout_tx ts ref_time \<longleftrightarrow> get_current_timestamp ts - ref_time \<ge> TIMEOUT_TIME"

definition is_timeout_tx_half :: "timespec \<Rightarrow> int \<Rightarrow> bool" where
  "is_timeout_tx_half ts ref_time \<longleftrightarrow> get_current_timestamp ts - ref_time \<ge> TIMEOUT_TIME div 2"

definition check_timer :: "timespec \<Rightarrow> timespec \<Rightarrow> bool" where
  "check_timer start now =
     (let elapsed_us = (tv_sec now - tv_sec start) * 1000000 +
                       (tv_nsec now - tv_nsec start) sdiv 1000
      in elapsed_us \<ge> CONN_RESEND_TIME)"

section \<open>Readings in order\<close>

text \<open>The order of time: readings are compared by their seconds, then by their nanoseconds.\<close>

instantiation timespec_ext :: (linorder) linorder
begin

definition less_eq_timespec_ext :: "'a timespec_scheme \<Rightarrow> 'a timespec_scheme \<Rightarrow> bool" where
  "less_eq_timespec_ext t u \<longleftrightarrow> tv_sec t < tv_sec u \<or> tv_sec t = tv_sec u \<and>
     (tv_nsec t < tv_nsec u \<or> tv_nsec t = tv_nsec u \<and> timespec.more t \<le> timespec.more u)"

definition less_timespec_ext :: "'a timespec_scheme \<Rightarrow> 'a timespec_scheme \<Rightarrow> bool" where
  "less_timespec_ext t u \<longleftrightarrow> t \<le> u \<and> \<not> u \<le> (t :: 'a timespec_scheme)"

instance
proof
  fix t u v :: "'a timespec_scheme"
  show "t < u \<longleftrightarrow> t \<le> u \<and> \<not> u \<le> t" by (simp add: less_timespec_ext_def)
  show "t \<le> t" by (simp add: less_eq_timespec_ext_def)
  show "t \<le> u \<Longrightarrow> u \<le> v \<Longrightarrow> t \<le> v" by (auto simp: less_eq_timespec_ext_def)
  show "t \<le> u \<Longrightarrow> u \<le> t \<Longrightarrow> t = u" by (auto simp: less_eq_timespec_ext_def)
  show "t \<le> u \<or> u \<le> t" by (auto simp: less_eq_timespec_ext_def)
qed

end

text \<open>A reading of the clock has a nanosecond part in range.\<close>

definition ts_ok :: "timespec \<Rightarrow> bool" where
  "ts_ok ts \<longleftrightarrow> 0 \<le> tv_nsec ts \<and> tv_nsec ts < 1000000000"

lemma sdiv_nonneg: "0 \<le> x \<Longrightarrow> x sdiv 1000 = x div (1000 :: int)"
  by (auto simp: signed_divide_int_def sgn_if)

text \<open>The count of microseconds goes up with the clock, so a timeout, once there, stays.\<close>

lemma timestamp_mono:
  assumes "ts_ok t" "ts_ok u" "t \<le> u"
  shows "get_current_timestamp t \<le> get_current_timestamp u"
proof -
  have d: "0 \<le> tv_nsec t div 1000" "tv_nsec t div 1000 < 1000000" "0 \<le> tv_nsec u div 1000"
    using assms(1,2) by (auto simp: ts_ok_def)
  consider "tv_sec t + 1 \<le> tv_sec u" | "tv_sec t = tv_sec u" "tv_nsec t \<le> tv_nsec u"
    using assms(3) by (fastforce simp: less_eq_timespec_ext_def)
  then show ?thesis
  proof cases
    case 1
    then show ?thesis using d assms(1,2) by (simp add: get_current_timestamp_def ts_ok_def sdiv_nonneg)
  next
    case 2
    then have "tv_nsec t div 1000 \<le> tv_nsec u div 1000" by (intro zdiv_mono1) simp_all
    then show ?thesis using 2 assms(1,2) by (simp add: get_current_timestamp_def ts_ok_def sdiv_nonneg)
  qed
qed

lemma timeout_stays:
  "is_timeout_tx t r \<Longrightarrow> ts_ok t \<Longrightarrow> ts_ok u \<Longrightarrow> t \<le> u \<Longrightarrow> is_timeout_tx u r"
  "is_timeout_tx_half t r \<Longrightarrow> ts_ok t \<Longrightarrow> ts_ok u \<Longrightarrow> t \<le> u \<Longrightarrow> is_timeout_tx_half u r"
  using timestamp_mono [of t u] by (auto simp: is_timeout_tx_def is_timeout_tx_half_def)

lemma timeout_implies_half: "is_timeout_tx ts t \<Longrightarrow> is_timeout_tx_half ts t"
  by (simp add: is_timeout_tx_def is_timeout_tx_half_def)

end
