(* ===== verification/Seq_Num.thy ===== *)
theory Seq_Num
  imports OX_Prelude
begin

text \<open>
  Sequence number arithmetic, the first half of \<open>tloe_seq_mgr.c\<close>: comparison, predecessor and
  successor of 22-bit sequence numbers kept in 32-bit variables, and what they mean for the
  unbounded frame indices that the numbers stand for.
\<close>

section \<open>The code\<close>

abbreviation (input) "MAX_SEQ_NUM \<equiv> (4194303 :: u32)"
abbreviation (input) "HALF_MAX_SEQ_NUM \<equiv> (2097152 :: u32)"

text \<open>\<open>diff\<close> is an \<open>int\<close>; it is compared with the unsigned constant as an unsigned value.\<close>

definition tloe_seqnum_cmp :: "u32 \<Rightarrow> u32 \<Rightarrow> int" where
  "tloe_seqnum_cmp a b =
     (let diff = a - b in
      if diff = 0 then 0
      else if 0 <s diff then (if diff < HALF_MAX_SEQ_NUM then 1 else -1)
      else (if - diff < HALF_MAX_SEQ_NUM then -1 else 1))"

definition tloe_seqnum_prev :: "u32 \<Rightarrow> u32" where
  "tloe_seqnum_prev n = (let t = n - 1 in if t <s 0 then MAX_SEQ_NUM else t)"

definition tloe_seqnum_next :: "u32 \<Rightarrow> u32" where
  "tloe_seqnum_next n = (n + 1) AND MAX_SEQ_NUM"

section \<open>Range\<close>

definition seq_ok :: "u32 \<Rightarrow> bool" where
  "seq_ok n \<longleftrightarrow> n \<le> MAX_SEQ_NUM"

text \<open>The sequence number of the frame with index \<open>i\<close>, counted from the start of the
  connection.\<close>

definition seq_of :: "nat \<Rightarrow> u32" where
  "seq_of i = of_nat (i mod 4194304)"

lemma seq_ok_unat: "seq_ok n \<longleftrightarrow> unat n < 4194304"
  by (simp add: seq_ok_def word_le_nat_alt) auto

lemma unat_seq_of [simp]: "unat (seq_of i) = i mod 4194304"
  by (simp add: seq_of_def unat_of_nat take_bit_eq_mod)

lemma seq_ok_seq_of [simp]: "seq_ok (seq_of i)"
  by (simp add: seq_ok_unat)

lemma seq_of_surj: "seq_ok n \<Longrightarrow> n = seq_of (unat n)"
  by (rule word_unat_eq_iff [THEN iffD2]) (simp add: seq_ok_unat)

lemma next_unat: "unat (tloe_seqnum_next n) = (unat n + 1) mod 4194304"
proof -
  have "tloe_seqnum_next n = take_bit 22 (n + 1)"
    by (simp add: tloe_seqnum_next_def take_bit_eq_mask mask_eq_exp_minus_1)
  then have "unat (tloe_seqnum_next n) = unat (n + 1) mod 4194304"
    by (simp add: take_bit_eq_mod unat_mod)
  also have "\<dots> = (unat n + 1) mod 4294967296 mod 4194304"
    by (simp add: unat_word_ariths)
  also have "\<dots> = (unat n + 1) mod 4194304"
    by (simp add: mod_mod_cancel)
  finally show ?thesis .
qed

lemma next_seq_of [simp]: "tloe_seqnum_next (seq_of i) = seq_of (Suc i)"
  by (rule word_unat_eq_iff [THEN iffD2]) (simp add: next_unat mod_simps)

lemma seq_ok_next [simp]: "seq_ok (tloe_seqnum_next n)"
  by (simp add: seq_ok_unat next_unat)

lemma sint_small:
  assumes "unat (n :: u32) < 2147483648"
  shows "sint n = int (unat n)"
proof -
  have "int (unat n) < 2147483648" using assms by linarith
  then have "uint n < 2147483648" by simp
  then have "sint n = uint n"
    by (subst sint_uint, subst signed_take_bit_int_eq_self)
      (simp_all add: order_trans [OF _ uint_ge_0])
  then show ?thesis by simp
qed

lemma prev_unat:
  assumes "seq_ok n"
  shows "unat (tloe_seqnum_prev n) = (unat n + 4194303) mod 4194304"
proof (cases "n = 0")
  case True
  then show ?thesis by (simp add: tloe_seqnum_prev_def)
next
  case False
  then have u: "unat (n - 1) = unat n - 1" "0 < unat n"
    by (simp_all add: unat_minus_one unat_gt_0)
  then have "sint (n - 1) = int (unat n - 1)"
    using assms by (simp add: seq_ok_unat sint_small)
  then have "\<not> n - 1 <s 0" by (simp add: word_sless_alt)
  moreover have "unat n - 1 = (unat n + 4194303) mod 4194304"
  proof -
    have "unat n + 4194303 = (unat n - 1) + 4194304" using u by simp
    moreover have "unat n - 1 < 4194304" using assms by (simp add: seq_ok_unat)
    ultimately show ?thesis by (simp only: mod_add_self2 mod_less)
  qed
  ultimately show ?thesis using u by (simp add: tloe_seqnum_prev_def Let_def)
qed

lemma seq_ok_prev [simp]: "seq_ok n \<Longrightarrow> seq_ok (tloe_seqnum_prev n)"
  by (simp add: seq_ok_unat prev_unat)

lemma prev_next: "seq_ok n \<Longrightarrow> tloe_seqnum_prev (tloe_seqnum_next n) = n"
  by (rule word_unat_eq_iff [THEN iffD2])
    (simp add: prev_unat next_unat seq_ok_unat mod_simps)

lemma next_prev: "seq_ok n \<Longrightarrow> tloe_seqnum_next (tloe_seqnum_prev n) = n"
  by (rule word_unat_eq_iff [THEN iffD2])
    (simp add: prev_unat next_unat seq_ok_unat mod_simps)

lemma prev_seq_of_Suc [simp]: "tloe_seqnum_prev (seq_of (Suc i)) = seq_of i"
  by (simp add: prev_next flip: next_seq_of)

section \<open>Comparison\<close>

text \<open>The comparison of in-range numbers, on integers.\<close>

lemma sint_seq_diff:
  assumes "seq_ok a" "seq_ok b"
  shows "sint (a - b) = int (unat a) - int (unat b)"
proof -
  have "a - b = word_of_int (int (unat a) - int (unat b))" by simp
  then have "sint (a - b) = signed_take_bit 31 (int (unat a) - int (unat b))"
    by (simp only: signed_of_int) simp
  also have "\<dots> = int (unat a) - int (unat b)"
  proof (rule signed_take_bit_int_eq_self)
    have p: "(2::int) ^ 31 = 2147483648" by simp
    show "- (2 ^ 31) \<le> int (unat a) - int (unat b)"
      using assms unfolding seq_ok_unat p by linarith
    show "int (unat a) - int (unat b) < 2 ^ 31"
      using assms unfolding seq_ok_unat p by linarith
  qed
  finally show ?thesis .
qed

lemma cmp_unat:
  assumes "seq_ok a" "seq_ok b"
  shows "tloe_seqnum_cmp a b =
    (if unat a = unat b then 0
     else if unat b < unat a then (if unat a - unat b < 2097152 then 1 else -1)
     else (if unat b - unat a < 2097152 then -1 else 1))"
proof -
  have slt: "0 <s a - b \<longleftrightarrow> unat b < unat a"
    unfolding word_sless_alt sint_seq_diff [OF assms] sint_0 by linarith
  consider "a = b" | "unat b < unat a" | "unat a < unat b"
    by (metis linorder_neqE_nat word_unat_eq_iff)
  then show ?thesis
  proof cases
    case 1
    then show ?thesis by (simp add: tloe_seqnum_cmp_def)
  next
    case 2
    then have "unat (a - b) = unat a - unat b" by (simp add: unat_sub word_le_nat_alt)
    moreover from 2 have "a - b \<noteq> 0" "a \<noteq> b" by auto
    ultimately show ?thesis using 2 slt
      by (simp add: tloe_seqnum_cmp_def word_less_nat_alt Let_def)
  next
    case 3
    then have "unat (b - a) = unat b - unat a" by (simp add: unat_sub word_le_nat_alt)
    moreover from 3 have "a - b \<noteq> 0" "a \<noteq> b" by auto
    ultimately show ?thesis using 3 slt
      by (simp add: tloe_seqnum_cmp_def word_less_nat_alt Let_def)
  qed
qed

text \<open>The comparison of two numbers decides the order of the frame indices they stand for as
  long as the indices are less than half the number space apart.\<close>

lemma mod_close:
  fixes i j m :: nat
  assumes "i < j" "j - i < m"
  shows "j mod m = (if i mod m + (j - i) < m then i mod m + (j - i) else i mod m + (j - i) - m)"
proof -
  have "(i mod m + (j - i)) mod m = (i + (j - i)) mod m" by (rule mod_add_left_eq)
  then have "j mod m = (i mod m + (j - i)) mod m" using assms(1) by simp
  moreover have "i mod m + (j - i) < 2 * m"
    using assms(2) mod_less_divisor [of m i] by linarith
  ultimately show ?thesis by (simp only: ring_wrap)
qed

lemma cmp_seq_of_less:
  assumes "i < j" "j - i < 2097152"
  shows "tloe_seqnum_cmp (seq_of j) (seq_of i) = 1" "tloe_seqnum_cmp (seq_of i) (seq_of j) = -1"
proof -
  have "j - i < 4194304" using assms by simp
  note j = mod_close [OF assms(1) this]
  define r d where "r = i mod 4194304" and "d = j - i"
  have r: "r < 4194304" and d: "0 < d" "d < 2097152" using assms by (simp_all add: r_def d_def)
  have ui: "unat (seq_of i) = r" by (simp add: r_def)
  have uj: "unat (seq_of j) = (if r + d < 4194304 then r + d else r + d - 4194304)"
    unfolding unat_seq_of r_def d_def by (rule j)
  note cmp = cmp_unat [OF seq_ok_seq_of seq_ok_seq_of]
  have "tloe_seqnum_cmp (seq_of j) (seq_of i) = 1 \<and> tloe_seqnum_cmp (seq_of i) (seq_of j) = -1"
  proof (cases "r + d < 4194304")
    case True
    then have "unat (seq_of j) = r + d" using uj by simp
    then show ?thesis using d unfolding cmp ui by simp
  next
    case False
    define q where "q = r + d - 4194304"
    have q: "unat (seq_of j) = q" using uj False by (simp add: q_def)
    have "q < r" "\<not> r - q < 2097152" using r d False unfolding q_def by linarith+
    then show ?thesis unfolding cmp ui q by simp
  qed
  then show "tloe_seqnum_cmp (seq_of j) (seq_of i) = 1"
    "tloe_seqnum_cmp (seq_of i) (seq_of j) = -1" by simp_all
qed

lemma cmp_refl [simp]: "tloe_seqnum_cmp a a = 0"
  by (simp add: tloe_seqnum_cmp_def)

lemma cmp_zero_iff: "tloe_seqnum_cmp a b = 0 \<longleftrightarrow> a = b"
  by (auto simp: tloe_seqnum_cmp_def Let_def)

lemma cmp_range: "tloe_seqnum_cmp a b \<in> {-1, 0, 1}"
  by (simp add: tloe_seqnum_cmp_def Let_def)

section \<open>Properties\<close>

text \<open>C19: Sequence number comparison is the comparison of frame indices.  For frames less than half
  the number space (\<open>2 ^ 21\<close>) apart, the comparison of their 22-bit numbers is positive, zero or
  negative exactly as the first frame comes after, is, or comes before the second, also across
  the wrap-around.\<close>

theorem seqnum_cmp_order:
  assumes "i < j + 2097152" "j < i + 2097152"
  shows "tloe_seqnum_cmp (seq_of i) (seq_of j) = (if i = j then 0 else if j < i then 1 else -1)"
proof -
  consider "i = j" | "j < i" | "i < j" by linarith
  then show ?thesis
    by cases (use assms in \<open>auto simp: cmp_seq_of_less less_diff_conv2\<close>)
qed

theorem seqnum_cmp_order_witness:
  "tloe_seqnum_cmp (seq_of 4194305) (seq_of 4194303) = 1"
  using seqnum_cmp_order [of 4194305 4194303] by simp

text \<open>Successor and predecessor stay in the 22-bit range, are inverse to each other on it, and
  step the number of a frame to that of the next one, also at the wrap-around.\<close>

lemma seqnum_next_prev:
  assumes "seq_ok n"
  shows "seq_ok (tloe_seqnum_next n) \<and> seq_ok (tloe_seqnum_prev n) \<and>
    tloe_seqnum_prev (tloe_seqnum_next n) = n \<and> tloe_seqnum_next (tloe_seqnum_prev n) = n \<and>
    tloe_seqnum_next (seq_of i) = seq_of (Suc i)"
  using assms by (simp add: prev_next next_prev)

end
