(* ===== verification/Endpoint.thy ===== *)
theory Endpoint
  imports Circular_Queue Flowcontrol Timeout Seq_Num
begin

text \<open>
  The endpoint, \<open>tloe_endpoint.h\<close>: the structure that every part of the protocol works on, the
  fabric operations it sends and receives through (\<open>tloe_fabric.c\<close>), its initialisation and the
  sequence-number operations on it (\<open>tloe_seq_mgr.c\<close>).
\<close>

section \<open>State\<close>

text \<open>An element of the retransmit buffer.\<close>

datatype rbe_state = TLOE_INIT | TLOE_SENT | TLOE_RESENT | TLOE_ACKED | TLOE_TIMEOUT

record retransmit_element =
  rbe_state :: rbe_state
  f_size :: int
  send_time :: int
  rbe_frame :: tloe_frame

text \<open>The fabric operations: which set of wrapper functions is installed (none when the function
  pointers are NULL) and whether there is a handle.\<close>

datatype tloe_fabric_type = TLOE_FABRIC_ETHER | TLOE_FABRIC_MQ

record fabric_ops =
  fab_ops :: "tloe_fabric_type option"
  fab_handle :: bool
  dev_name :: string
  dev_opt :: string

text \<open>
  The endpoint.  The last two fields are not in the C structure: \<open>wire\<close> is the sequence of
  packets that were handed to the fabric's send function, oldest first, and \<open>printed\<close> the
  values that the response handler prints for the user.
\<close>

record endpoint =
  ep_fabric :: fabric_ops
  retransmit_buffer :: "retransmit_element cqueue"
  message_buffer :: "tl_msg cqueue"
  ack_buffer :: "tloe_frame cqueue"
  tl_msg_buffer :: "tl_block cqueue"
  response_buffer :: "tl_msg cqueue"
  iteration_ts :: timespec
  ep_fc :: flowcontrol
  connection :: bool
  master :: int
  is_done :: bool
  fabric_type :: int
  next_tx_seq :: u32
  next_rx_seq :: u32
  acked_seq :: u32
  should_send_ackonly_frame :: bool
  ackonly_frame_sent :: bool
  ack_cnt :: u32
  dup_cnt :: u32
  oos_cnt :: u32
  drop_cnt :: u32
  accessack_cnt :: u32
  accessackdata_cnt :: u32
  ackonly_cnt :: u32
  drop_npacket_size :: u32
  drop_npacket_cnt :: u32
  drop_tlmsg_cnt :: u32
  drop_response_cnt :: u32
  wire :: "byte list list"
  printed :: "u64 list"

abbreviation (input) "MAX_BUFFER_SIZE \<equiv> (1500 :: int)"
abbreviation (input) "WINDOW_SIZE \<equiv> (4 :: nat)"
abbreviation (input) "TYPE_MASTER \<equiv> (1 :: int)"
abbreviation (input) "TYPE_SLAVE \<equiv> (0 :: int)"

section \<open>Initialisation\<close>

text \<open>The structure right after \<open>memset\<close>; the queue pointers are NULL, written here as queues
  without slots.\<close>

definition zero_flowcontrol :: flowcontrol where
  "zero_flowcontrol =
     \<lparr>credits = replicate CHANNEL_NUM 0, tx_flow_credits = replicate CHANNEL_NUM 0,
      inc_cnt = replicate CHANNEL_NUM 0, inc_value = replicate CHANNEL_NUM 0,
      dec_cnt = replicate CHANNEL_NUM 0, dec_value = replicate CHANNEL_NUM 0\<rparr>"

definition zero_endpoint :: endpoint where
  "zero_endpoint =
     \<lparr>ep_fabric = \<lparr>fab_ops = None, fab_handle = False, dev_name = [], dev_opt = []\<rparr>,
      retransmit_buffer = create_queue 0, message_buffer = create_queue 0,
      ack_buffer = create_queue 0, tl_msg_buffer = create_queue 0,
      response_buffer = create_queue 0, iteration_ts = \<lparr>tv_sec = 0, tv_nsec = 0\<rparr>,
      ep_fc = zero_flowcontrol, connection = False, master = 0, is_done = False,
      fabric_type = 0, next_tx_seq = 0, next_rx_seq = 0, acked_seq = 0,
      should_send_ackonly_frame = False, ackonly_frame_sent = False,
      ack_cnt = 0, dup_cnt = 0, oos_cnt = 0, drop_cnt = 0, accessack_cnt = 0,
      accessackdata_cnt = 0, ackonly_cnt = 0, drop_npacket_size = 0, drop_npacket_cnt = 0,
      drop_tlmsg_cnt = 0, drop_response_cnt = 0, wire = [], printed = []\<rparr>"

text \<open>\<open>tloe_endpoint_init\<close>: the old queues are freed, which the model does not see, and
  replaced by fresh ones.\<close>

definition tloe_endpoint_init :: "endpoint \<Rightarrow> int \<Rightarrow> int \<Rightarrow> endpoint result" where
  "tloe_endpoint_init e fabric master_slave =
     bindR (init_flowcontrol (ep_fc e)) (\<lambda>fc.
       Inr (e\<lparr>is_done := False, connection := False, master := master_slave,
              fabric_type := fabric, next_tx_seq := 0, next_rx_seq := 0,
              acked_seq := MAX_SEQ_NUM,
              retransmit_buffer := create_queue (WINDOW_SIZE + 1),
              message_buffer := create_queue 10000, ack_buffer := create_queue 2048,
              tl_msg_buffer := create_queue 10000, response_buffer := create_queue 100,
              should_send_ackonly_frame := False, ackonly_frame_sent := False,
              ep_fc := fc, ack_cnt := 0, dup_cnt := 0, oos_cnt := 0, drop_cnt := 0,
              accessack_cnt := 0, accessackdata_cnt := 0, ackonly_cnt := 0,
              drop_tlmsg_cnt := 0, drop_response_cnt := 0, drop_npacket_size := 0,
              drop_npacket_cnt := 0\<rparr>))"

section \<open>Fabric\<close>

definition ether_ops :: fabric_ops where
  "ether_ops = \<lparr>fab_ops = Some TLOE_FABRIC_ETHER, fab_handle = False, dev_name = [], dev_opt = []\<rparr>"

definition mq_ops :: fabric_ops where
  "mq_ops = \<lparr>fab_ops = Some TLOE_FABRIC_MQ, fab_handle = False, dev_name = [], dev_opt = []\<rparr>"

definition tloe_fabric_init :: "endpoint \<Rightarrow> int \<Rightarrow> endpoint \<times> int" where
  "tloe_fabric_init ep media_type =
     (if media_type = 0 then (ep\<lparr>ep_fabric := ether_ops\<rparr>, 0)
      else if media_type = 1 then (ep\<lparr>ep_fabric := mq_ops\<rparr>, 0)
      else (ep, -1))"

lemmas fabric_ops_simps [simp] = ether_ops_def mq_ops_def

text \<open>The function pointers are installed and there is a handle.\<close>

definition fabric_up :: "endpoint \<Rightarrow> bool" where
  "fabric_up ep \<longleftrightarrow> fab_ops (ep_fabric ep) \<noteq> None \<and> fab_handle (ep_fabric ep)"

text \<open>\<open>tloe_fabric_send\<close>: the driver is given the packet.  No caller looks at the result.\<close>

definition tloe_fabric_send :: "endpoint \<Rightarrow> byte list \<Rightarrow> endpoint" where
  "tloe_fabric_send ep pkt =
     (if \<not> fabric_up ep then ep else ep\<lparr>wire := wire ep @ [pkt]\<rparr>)"

text \<open>What the receive function of the driver delivers: the size it returns (negative when there
  is nothing) and the contents of the receive buffer after the call.\<close>

type_synonym recv_event = "int \<times> byte list"

definition tloe_fabric_recv :: "endpoint \<Rightarrow> recv_event \<Rightarrow> recv_event" where
  "tloe_fabric_recv ep ev = (if \<not> fabric_up ep then (-1, snd ev) else ev)"

text \<open>\<open>opened\<close>: whether the driver's open function returns a handle.\<close>

definition tloe_fabric_open :: "endpoint \<Rightarrow> string \<Rightarrow> string \<Rightarrow> bool \<Rightarrow> endpoint \<times> int" where
  "tloe_fabric_open ep name opt opened =
     (if fab_ops (ep_fabric ep) = None then (ep, -1)
      else (ep\<lparr>ep_fabric := (ep_fabric ep)\<lparr>dev_name := name, dev_opt := opt,
                                           fab_handle := opened\<rparr>\<rparr>,
            if opened then 0 else -1))"

definition tloe_fabric_close :: "endpoint \<Rightarrow> endpoint" where
  "tloe_fabric_close ep =
     (if \<not> fabric_up ep then ep
      else ep\<lparr>ep_fabric := (ep_fabric ep)\<lparr>fab_handle := False\<rparr>\<rparr>)"

section \<open>Sequence numbers of the endpoint\<close>

definition tloe_seqnum_next_tx_seq_inc :: "endpoint \<Rightarrow> endpoint" where
  "tloe_seqnum_next_tx_seq_inc ep = ep\<lparr>next_tx_seq := tloe_seqnum_next (next_tx_seq ep)\<rparr>"

definition tloe_seqnum_set_seq_num :: "tloe_frame \<Rightarrow> u32 \<Rightarrow> tloe_frame" where
  "tloe_seqnum_set_seq_num f n = f\<lparr>header := (header f)\<lparr>seq_num := ucast n\<rparr>\<rparr>"

definition tloe_seqnum_set_frame_seq_num_ack :: "tloe_frame \<Rightarrow> u32 \<Rightarrow> tloe_frame" where
  "tloe_seqnum_set_frame_seq_num_ack f n = f\<lparr>header := (header f)\<lparr>seq_num_ack := ucast n\<rparr>\<rparr>"

definition tloe_seqnum_set_next_tx_seq :: "tloe_frame \<Rightarrow> endpoint \<Rightarrow> tloe_frame" where
  "tloe_seqnum_set_next_tx_seq f ep =
     f\<lparr>header := (header f)\<lparr>seq_num := ucast (next_tx_seq ep)\<rparr>\<rparr>"

definition tloe_seqnum_set_seq_num_ack :: "tloe_frame \<Rightarrow> endpoint \<Rightarrow> tloe_frame" where
  "tloe_seqnum_set_seq_num_ack f ep =
     f\<lparr>header := (header f)\<lparr>seq_num_ack := ucast (tloe_seqnum_prev (next_rx_seq ep))\<rparr>\<rparr>"

definition tloe_seqnum_set_next_and_acked_seq :: "tloe_frame \<Rightarrow> endpoint \<Rightarrow> tloe_frame" where
  "tloe_seqnum_set_next_and_acked_seq f ep =
     tloe_seqnum_set_seq_num_ack (tloe_seqnum_set_next_tx_seq f ep) ep"

text \<open>The 22-bit header fields, read as \<open>uint32_t\<close>.\<close>

definition frame_seq :: "tloe_frame \<Rightarrow> u32" where
  "frame_seq f = ucast (seq_num (header f))"

definition frame_seq_ack :: "tloe_frame \<Rightarrow> u32" where
  "frame_seq_ack f = ucast (seq_num_ack (header f))"

definition tloe_seqnum_update_next_rx_seq :: "endpoint \<Rightarrow> tloe_frame \<Rightarrow> endpoint" where
  "tloe_seqnum_update_next_rx_seq ep f = ep\<lparr>next_rx_seq := tloe_seqnum_next (frame_seq f)\<rparr>"

definition tloe_seqnum_update_acked_seq :: "endpoint \<Rightarrow> tloe_frame \<Rightarrow> endpoint" where
  "tloe_seqnum_update_acked_seq ep f =
     (if tloe_seqnum_cmp (frame_seq_ack f) (acked_seq ep) > 0
      then ep\<lparr>acked_seq := frame_seq_ack f\<rparr> else ep)"

section \<open>Lemmas\<close>

lemma seq_ok_frame [simp]: "seq_ok (frame_seq f)" "seq_ok (frame_seq_ack f)"
proof -
  have "unat (ucast (x :: 22 word) :: u32) < 4194304" for x
    using unsigned_less [of x, where ?'a = nat] by (simp add: unsigned_ucast_eq take_bit_nat_eq_self)
  then show "seq_ok (frame_seq f)" "seq_ok (frame_seq_ack f)"
    by (simp_all add: seq_ok_unat frame_seq_def frame_seq_ack_def)
qed

lemma ucast_seq [simp]: "seq_ok n \<Longrightarrow> ucast (ucast n :: 22 word) = n"
  by (rule word_unat_eq_iff [THEN iffD2])
    (simp add: seq_ok_unat unsigned_ucast_eq unsigned_take_bit_eq take_bit_nat_eq_self)

lemma ucast_seq22 [simp]: "ucast (ucast (x :: 22 word) :: u32) = x"
  by (rule bit_word_eqI) (simp add: bit_simps)

lemma update_acked_seq_eq:
  "tloe_seqnum_update_acked_seq e f =
     e\<lparr>acked_seq := if tloe_seqnum_cmp (frame_seq_ack f) (acked_seq e) > 0
                    then frame_seq_ack f else acked_seq e\<rparr>"
  by (simp add: tloe_seqnum_update_acked_seq_def)

lemma tloe_fabric_send_fields [simp]:
  "ep_fabric (tloe_fabric_send e p) = ep_fabric e"
  "retransmit_buffer (tloe_fabric_send e p) = retransmit_buffer e"
  "next_rx_seq (tloe_fabric_send e p) = next_rx_seq e"
  "iteration_ts (tloe_fabric_send e p) = iteration_ts e"
  "fabric_up (tloe_fabric_send e p) = fabric_up e"
  by (simp_all add: tloe_fabric_send_def fabric_up_def)

text \<open>What the packets add to the wire.\<close>

definition sent :: "endpoint \<Rightarrow> byte list list \<Rightarrow> byte list list" where
  "sent e ps = (if fabric_up e then ps else [])"

lemma sent_simps [simp]: "sent e [] = []" "sent e (ps @ qs) = sent e ps @ sent e qs"
  by (simp_all add: sent_def)

lemma tloe_fabric_send_wire: "tloe_fabric_send e p = e\<lparr>wire := wire e @ sent e [p]\<rparr>"
  by (simp add: tloe_fabric_send_def sent_def)

end
