(* ===== verification/Retransmission.thy ===== *)
theory Retransmission
  imports Endpoint
begin

text \<open>
  The retransmit buffer, \<open>retransmission.c\<close>: sending the unacknowledged frames again and
  dropping the acknowledged ones.  Both loops of the C code are modelled as loops over the
  ring; the lemmas say what they do to the list of frames that the ring holds.
\<close>

section \<open>The code\<close>

text \<open>The body of the loop of \<open>retransmit\<close> for the element in slot \<open>i\<close>.\<close>

definition retransmit_elem :: "endpoint \<Rightarrow> u32 \<Rightarrow> nat \<Rightarrow> endpoint result" where
  "retransmit_elem e n i =
     (case cq_data (retransmit_buffer e) ! i of
        None \<Rightarrow> Inl Null_Deref
      | Some element \<Rightarrow>
          let diff = tloe_seqnum_cmp (frame_seq (rbe_frame element)) n in
          if diff < 0 then Inr e
          else
            let frame = tloe_seqnum_set_seq_num_ack (rbe_frame element) e in
            bindR (tloe_frame_to_packet MAX_BUFFER_SIZE frame (f_size element)) (\<lambda>send_buffer.
              let e1 = tloe_fabric_send e send_buffer in
              Inr (e1\<lparr>retransmit_buffer := cq_update (retransmit_buffer e1) i
                (element\<lparr>rbe_state := TLOE_RESENT,
                         send_time := get_current_timestamp (iteration_ts e1)\<rparr>)\<rparr>)))"

partial_function (option) retransmit_loop :: "endpoint \<Rightarrow> u32 \<Rightarrow> nat \<Rightarrow> endpoint result option" where
  "retransmit_loop e n i =
     (if i = rear (retransmit_buffer e) then Some (Inr e)
      else case retransmit_elem e n i of
             Inl err \<Rightarrow> Some (Inl err)
           | Inr e1 \<Rightarrow> retransmit_loop e1 n ((i + 1) mod cq_size (retransmit_buffer e1)))"

definition retransmit :: "endpoint \<Rightarrow> u32 \<Rightarrow> endpoint result" where
  "retransmit e n = loop_result (retransmit_loop e n (front (retransmit_buffer e)))"

text \<open>The loop of \<open>slide_window\<close>, on the ring and the received acknowledgement number.\<close>

partial_function (option) slide_window_loop ::
    "retransmit_element cqueue \<Rightarrow> u32 \<Rightarrow> retransmit_element cqueue option" where
  "slide_window_loop q a =
     (case getfront q of
        None \<Rightarrow> Some q
      | Some rbe \<Rightarrow>
          if tloe_seqnum_cmp (frame_seq (rbe_frame rbe)) a > 0 then Some q
          else slide_window_loop (fst (dequeue q)) a)"

definition slide_window :: "endpoint \<Rightarrow> tloe_frame \<Rightarrow> endpoint result" where
  "slide_window e f =
     (case slide_window_loop (retransmit_buffer e) (frame_seq_ack f) of
        None \<Rightarrow> Inl Diverges
      | Some q \<Rightarrow> Inr (e\<lparr>retransmit_buffer := q\<rparr>))"

text \<open>The loop of \<open>get_earliest_element\<close> over the slots \<open>is\<close>.\<close>

fun earliest_of :: "retransmit_element cqueue \<Rightarrow> nat list \<Rightarrow> retransmit_element option result" where
  "earliest_of q [] = Inr None"
| "earliest_of q (i # is) =
     (case cq_data q ! i of
        None \<Rightarrow> Inl Null_Deref
      | Some element \<Rightarrow> if send_time element = 0 then earliest_of q is else Inr (Some element))"

definition get_earliest_element :: "retransmit_element cqueue \<Rightarrow> retransmit_element option result" where
  "get_earliest_element q =
     (case cq_indices (cq_size q) (front q) (rear q) of
        None \<Rightarrow> Inl Diverges
      | Some is \<Rightarrow> earliest_of q is)"

section \<open>Frames in the buffer\<close>

text \<open>The elements that \<open>enqueue_retransmit_buffer\<close> stores: a full-size frame block, and a send
  size of whole words that fits both the block and a packet buffer.\<close>

definition rbe_ok :: "retransmit_element \<Rightarrow> bool" where
  "rbe_ok el \<longleftrightarrow> length (flits (rbe_frame el)) = MAX_SIZE_FLIT \<and>
     f_size el mod 8 = 0 \<and> 16 \<le> f_size el \<and> f_size el \<le> 528"

abbreviation rbe_seq :: "retransmit_element \<Rightarrow> u32" where
  "rbe_seq el \<equiv> frame_seq (rbe_frame el)"

text \<open>What retransmission from number \<open>n\<close> does to an element and the packet it sends for it.\<close>

definition resends :: "u32 \<Rightarrow> retransmit_element \<Rightarrow> bool" where
  "resends n el \<longleftrightarrow> \<not> tloe_seqnum_cmp (rbe_seq el) n < 0"

definition mark_resent :: "endpoint \<Rightarrow> u32 \<Rightarrow> retransmit_element \<Rightarrow> retransmit_element" where
  "mark_resent e n el =
     (if resends n el
      then el\<lparr>rbe_state := TLOE_RESENT, send_time := get_current_timestamp (iteration_ts e)\<rparr>
      else el)"

text \<open>The packet for a frame of \<open>sz\<close> bytes.\<close>

definition frame_packet :: "tloe_frame \<Rightarrow> int \<Rightarrow> byte list" where
  "frame_packet f sz =
     le_bytes (htobe64 (tloe_header_word (header f))) @
     flit_bytes (map htobe64 (take (nat ((sz - 8) div 8)) (flits f)))"

definition resend_packet :: "endpoint \<Rightarrow> retransmit_element \<Rightarrow> byte list" where
  "resend_packet e el = frame_packet (tloe_seqnum_set_seq_num_ack (rbe_frame el) e) (f_size el)"

lemma frame_to_packet_ok:
  assumes "sz mod 8 = 0" "8 \<le> sz" "sz \<le> cap" "sz \<le> 8 + 8 * int (length (flits f))"
  shows "tloe_frame_to_packet cap f sz = Inr (frame_packet f sz)"
proof -
  define k where "k = nat ((sz - 8) div 8)"
  have "sz = 8 + 8 * int k" using assms(1,2) by (simp add: k_def) presburger
  then show ?thesis
    using frame_to_packet_eq [of sz k f cap] assms(3,4) by (simp add: frame_packet_def k_def)
qed

lemma length_frame_packet:
  assumes "sz mod 8 = 0" "8 \<le> sz" "sz \<le> 8 + 8 * int (length (flits f))"
  shows "length (frame_packet f sz) = nat sz"
proof -
  define k where "k = nat ((sz - 8) div 8)"
  have "sz = 8 + 8 * int k" using assms(1,2) by (simp add: k_def) presburger
  then show ?thesis using assms(3) by (simp add: frame_packet_def min_def flip: k_def)
qed

lemma mark_resent_fields [simp]:
  "rbe_frame (mark_resent e n el) = rbe_frame el" "f_size (mark_resent e n el) = f_size el"
  "rbe_ok (mark_resent e n el) = rbe_ok el"
  by (simp_all add: mark_resent_def rbe_ok_def)

section \<open>Retransmission\<close>

lemma retransmit_elem_eq:
  assumes "cq_inv (retransmit_buffer e)" "k < cq_count (retransmit_buffer e)"
    and "el = cq_list (retransmit_buffer e) ! k" "rbe_ok el"
    and "i = cq_slot (retransmit_buffer e) k"
  shows "retransmit_elem e n i =
    Inr (if resends n el
         then e\<lparr>wire := wire e @ sent e [resend_packet e el],
                retransmit_buffer := cq_update (retransmit_buffer e) i (mark_resent e n el)\<rparr>
         else e)"
proof -
  have "cq_data (retransmit_buffer e) ! i = Some el"
    using assms by (simp add: cq_slot_nth)
  moreover have "tloe_frame_to_packet 1500 (tloe_seqnum_set_seq_num_ack (rbe_frame el) e) (f_size el)
      = Inr (resend_packet e el)"
    unfolding resend_packet_def using assms(4)
    by (intro frame_to_packet_ok) (simp_all add: rbe_ok_def tloe_seqnum_set_seq_num_ack_def)
  ultimately show ?thesis
    by (simp add: retransmit_elem_def Let_def resends_def mark_resent_def tloe_fabric_send_wire)
qed

lemma retransmit_loop_eq:
  assumes "cq_inv (retransmit_buffer e)" "k \<le> cq_count (retransmit_buffer e)"
    and "\<forall>el \<in> set (cq_list (retransmit_buffer e)). rbe_ok el"
  shows "\<exists>q. retransmit_loop e n (cq_slot (retransmit_buffer e) k) =
      Some (Inr (e\<lparr>wire := wire e @
                     sent e (map (resend_packet e)
                       (filter (resends n) (drop k (cq_list (retransmit_buffer e))))),
                   retransmit_buffer := q\<rparr>)) \<and>
    cq_inv q \<and> cq_size q = cq_size (retransmit_buffer e) \<and>
    cq_list q = take k (cq_list (retransmit_buffer e)) @
                map (mark_resent e n) (drop k (cq_list (retransmit_buffer e)))"
  using assms
proof (induction "cq_count (retransmit_buffer e) - k" arbitrary: e k)
  case 0
  then have k: "k = cq_count (retransmit_buffer e)" by simp
  then have "retransmit_loop e n (cq_slot (retransmit_buffer e) k) = Some (Inr e)"
    using 0 by (subst retransmit_loop.simps) (simp add: cq_slot_count)
  then show ?case using k 0
    by (intro exI [of _ "retransmit_buffer e"]) simp
next
  case (Suc m)
  let ?q = "retransmit_buffer e"
  let ?i = "cq_slot ?q k"
  define el where "el = cq_list ?q ! k"
  have k: "k < cq_count ?q" using Suc.hyps by simp
  then have dr: "drop k (cq_list ?q) = el # drop (Suc k) (cq_list ?q)"
    by (simp add: el_def Cons_nth_drop_Suc)
  have ok: "rbe_ok el" using Suc.prems(3) k by (simp add: el_def)
  define e1 where "e1 = (if resends n el
      then e\<lparr>wire := wire e @ sent e [resend_packet e el],
             retransmit_buffer := cq_update ?q ?i (mark_resent e n el)\<rparr> else e)"
  have step: "retransmit_elem e n ?i = Inr e1"
    unfolding e1_def by (rule retransmit_elem_eq [OF Suc.prems(1) k el_def ok refl])
  have lst: "cq_list (retransmit_buffer e1) = (cq_list ?q)[k := mark_resent e n el]"
    using cq_update_slot [OF Suc.prems(1) k, of "mark_resent e n el"] k
    by (cases "resends n el") (simp_all add: e1_def, simp add: el_def mark_resent_def)
  have inv1: "cq_inv (retransmit_buffer e1)"
    using cq_update_slot [OF Suc.prems(1) k] Suc.prems(1) by (simp add: e1_def)
  have same: "cq_count (retransmit_buffer e1) = cq_count ?q"
    "cq_slot (retransmit_buffer e1) = cq_slot ?q" "cq_size (retransmit_buffer e1) = cq_size ?q"
    by (simp_all add: e1_def fun_eq_iff)
  have ctx: "resend_packet e1 = resend_packet e" "mark_resent e1 = mark_resent e"
    "sent e1 = sent e"
    by (simp_all add: e1_def fun_eq_iff resend_packet_def tloe_seqnum_set_seq_num_ack_def
        mark_resent_def sent_def fabric_up_def)
  have ok1: "\<forall>el \<in> set (cq_list (retransmit_buffer e1)). rbe_ok el"
    using Suc.prems(3) ok set_update_subset_insert [of "cq_list ?q" k] unfolding lst by fastforce
  have "m = cq_count (retransmit_buffer e1) - Suc k" using Suc.hyps(2) by (simp add: same)
  from Suc.hyps(1) [OF this inv1 _ ok1] k obtain q where
    rec: "retransmit_loop e1 n (cq_slot ?q (Suc k)) =
        Some (Inr (e1\<lparr>wire := wire e1 @ sent e (map (resend_packet e)
            (filter (resends n) (drop (Suc k) (cq_list ?q)))), retransmit_buffer := q\<rparr>))"
    and q: "cq_inv q" "cq_size q = cq_size ?q"
      "cq_list q = take (Suc k) ((cq_list ?q)[k := mark_resent e n el]) @
         map (mark_resent e n) (drop (Suc k) (cq_list ?q))"
    unfolding same ctx lst by (auto simp: Suc_le_eq)
  have "?i \<noteq> rear ?q"
    using k cq_slot_inj [OF Suc.prems(1), of k "cq_count ?q"] cq_count_less [OF Suc.prems(1)]
    by (simp add: cq_slot_count [OF Suc.prems(1)])
  moreover have "(?i + 1) mod cq_size (retransmit_buffer e1) = cq_slot ?q (Suc k)"
    by (simp add: same cq_slot_def mod_simps)
  ultimately have "retransmit_loop e n ?i = retransmit_loop e1 n (cq_slot ?q (Suc k))"
    by (subst retransmit_loop.simps) (simp add: step)
  moreover have "e1\<lparr>wire := wire e1 @ sent e (map (resend_packet e)
            (filter (resends n) (drop (Suc k) (cq_list ?q)))), retransmit_buffer := q\<rparr> =
      e\<lparr>wire := wire e @ sent e (map (resend_packet e) (filter (resends n) (drop k (cq_list ?q)))),
        retransmit_buffer := q\<rparr>"
    by (simp add: e1_def dr sent_def)
  moreover have "take (Suc k) ((cq_list ?q)[k := mark_resent e n el]) =
      take k (cq_list ?q) @ [mark_resent e n el]"
    using k by (simp add: take_Suc_conv_app_nth)
  ultimately show ?case using rec q k
    by (intro exI [of _ q]) (simp add: dr)
qed

text \<open>Retransmission sends, in order, the buffered frames whose numbers are not before \<open>n\<close>,
  marks them and changes nothing else.\<close>

lemma retransmit_eq:
  assumes "cq_inv (retransmit_buffer e)" "\<forall>el \<in> set (cq_list (retransmit_buffer e)). rbe_ok el"
  obtains q where
    "retransmit e n = Inr (e\<lparr>wire := wire e @ sent e (map (resend_packet e)
        (filter (resends n) (cq_list (retransmit_buffer e)))), retransmit_buffer := q\<rparr>)"
    "cq_inv q" "cq_size q = cq_size (retransmit_buffer e)"
    "cq_list q = map (mark_resent e n) (cq_list (retransmit_buffer e))"
proof -
  have "cq_slot (retransmit_buffer e) 0 = front (retransmit_buffer e)"
    using cq_invD(1) [OF assms(1)] by (simp add: cq_slot_def)
  then show thesis
    using retransmit_loop_eq [OF assms(1) _ assms(2), of 0 n] that
    by (auto simp: retransmit_def)
qed

section \<open>Sliding the window\<close>

lemma slide_window_loop_eq:
  assumes "cq_inv q"
  shows "\<exists>q'. slide_window_loop q a = Some q' \<and> cq_inv q' \<and> cq_size q' = cq_size q \<and>
    cq_list q' = dropWhile (\<lambda>el. \<not> tloe_seqnum_cmp (rbe_seq el) a > 0) (cq_list q)"
  using assms
proof (induction "cq_list q" arbitrary: q)
  case Nil
  then have "slide_window_loop q a = Some q"
    by (subst slide_window_loop.simps) (simp add: getfront_eq)
  then show ?case using Nil by (intro exI [of _ q]) (metis dropWhile.simps(1))
next
  case (Cons el els)
  have front: "getfront q = Some el" using Cons.hyps(2) Cons.prems by (simp add: getfront_eq flip: Cons.hyps(2))
  note deq = dequeue_cons [OF Cons.prems Cons.hyps(2) [symmetric]]
  show ?case
  proof (cases "tloe_seqnum_cmp (rbe_seq el) a > 0")
    case True
    then have "slide_window_loop q a = Some q"
      by (subst slide_window_loop.simps) (simp add: front)
    then show ?thesis using True Cons.prems by (auto simp flip: Cons.hyps(2))
  next
    case False
    then have "slide_window_loop q a = slide_window_loop (fst (dequeue q)) a"
      by (subst slide_window_loop.simps) (simp add: front)
    then show ?thesis
      using Cons.hyps(1) [of "fst (dequeue q)"] deq False by (simp flip: Cons.hyps(2))
  qed
qed

lemma slide_window_eq:
  assumes "cq_inv (retransmit_buffer e)"
  obtains q where "slide_window e f = Inr (e\<lparr>retransmit_buffer := q\<rparr>)" "cq_inv q"
    "cq_size q = cq_size (retransmit_buffer e)"
    "cq_list q = dropWhile (\<lambda>el. \<not> tloe_seqnum_cmp (rbe_seq el) (frame_seq_ack f) > 0)
       (cq_list (retransmit_buffer e))"
  using slide_window_loop_eq [OF assms, of "frame_seq_ack f"] that
  by (auto simp: slide_window_def)

lemma get_earliest_element_eq:
  assumes "cq_inv q"
  shows "get_earliest_element q = Inr (find (\<lambda>el. send_time el \<noteq> 0) (cq_list q))"
proof -
  have "earliest_of q (map (cq_slot q) ks) = Inr (find (\<lambda>el. send_time el \<noteq> 0) (map ((!) (cq_list q)) ks))"
    if "\<forall>k \<in> set ks. k < cq_count q" for ks
    using that by (induction ks) (auto simp: cq_slot_nth [OF assms])
  from this [of "[0..<cq_count q]"] show ?thesis
    by (simp add: get_earliest_element_def cq_indices_all [OF assms] map_nth [of "cq_list q", simplified])
qed

end
