(* ===== verification/Window.thy ===== *)
theory Window
  imports Retransmission
begin

text \<open>
  The invariant of an endpoint, and what the operations on the retransmit window do to it.  The
  numbers of the buffered frames are consecutive and end right before the next number to send;
  the queues are well formed; the buffered frames can be sent again.
\<close>

section \<open>Invariant\<close>

text \<open>Consecutive sequence numbers that lead up to \<open>nx\<close>.\<close>

fun chain_to :: "u32 list \<Rightarrow> u32 \<Rightarrow> bool" where
  "chain_to [] nx = True"
| "chain_to [s] nx = (tloe_seqnum_next s = nx)"
| "chain_to (s # t # ss) nx = (tloe_seqnum_next s = t \<and> chain_to (t # ss) nx)"

text \<open>A buffered frame is a normal frame and acknowledges; its channel exists, and the flits behind
  the ones that are sent are zero.\<close>

definition rbe_normal :: "retransmit_element \<Rightarrow> bool" where
  "rbe_normal el \<longleftrightarrow> rbe_ok el \<and> ack (header (rbe_frame el)) = TLOE_ACK \<and>
     frame_type (header (rbe_frame el)) = TYPE_NORMAL \<and>
     unat (chan (header (rbe_frame el))) < CHANNEL_NUM \<and>
     drop (nat ((f_size el - 8) div 8)) (flits (rbe_frame el)) =
       replicate (MAX_SIZE_FLIT - nat ((f_size el - 8) div 8)) 0"

definition ep_wf :: "endpoint \<Rightarrow> bool" where
  "ep_wf e \<longleftrightarrow>
     cq_inv (retransmit_buffer e) \<and> cq_cap (retransmit_buffer e) = WINDOW_SIZE \<and>
     cq_inv (message_buffer e) \<and> cq_inv (ack_buffer e) \<and> cq_inv (tl_msg_buffer e) \<and>
     cq_inv (response_buffer e) \<and>
     list_all rbe_normal (cq_list (retransmit_buffer e)) \<and>
     chain_to (map rbe_seq (cq_list (retransmit_buffer e))) (next_tx_seq e) \<and>
     seq_ok (next_tx_seq e) \<and> seq_ok (next_rx_seq e) \<and> seq_ok (acked_seq e) \<and>
     fc_inv (ep_fc e)"

lemma ep_wfD:
  assumes "ep_wf e"
  shows "cq_inv (retransmit_buffer e)" "cq_cap (retransmit_buffer e) = WINDOW_SIZE"
    "cq_inv (message_buffer e)" "cq_inv (ack_buffer e)" "cq_inv (tl_msg_buffer e)"
    "cq_inv (response_buffer e)"
    "list_all rbe_normal (cq_list (retransmit_buffer e))"
    "chain_to (map rbe_seq (cq_list (retransmit_buffer e))) (next_tx_seq e)"
    "seq_ok (next_tx_seq e)" "seq_ok (next_rx_seq e)" "seq_ok (acked_seq e)" "fc_inv (ep_fc e)"
    "\<forall>el \<in> set (cq_list (retransmit_buffer e)). rbe_ok el"
  using assms by (auto simp: ep_wf_def list_all_iff rbe_normal_def)

lemma chain_to_snoc:
  "chain_to (ss @ [s]) nx \<longleftrightarrow> chain_to ss s \<and> tloe_seqnum_next s = nx"
  by (induction ss s rule: chain_to.induct) auto

lemma chain_to_Cons: "chain_to (s # ss) nx \<Longrightarrow> chain_to ss nx"
  by (cases ss) auto

lemma chain_to_drop: "chain_to ss nx \<Longrightarrow> chain_to (drop k ss) nx"
proof (induction k arbitrary: ss)
  case (Suc k)
  then show ?case by (cases ss) (auto dest: chain_to_Cons)
qed simp

lemma dropWhile_drop: "\<exists>k. dropWhile P xs = drop k xs"
  by (metis dropWhile_eq_drop)

text \<open>The numbers of a chain, as frame indices.\<close>

lemma chain_to_index:
  assumes "chain_to ss (seq_of n)" "list_all seq_ok ss" "length ss \<le> n"
  shows "ss = map seq_of [n - length ss..<n]"
  using assms
proof (induction ss arbitrary: n rule: rev_induct)
  case (snoc s ss)
  then obtain m where n: "n = Suc m" by (cases n) auto
  from snoc.prems(1) have "chain_to ss s" "tloe_seqnum_next s = seq_of (Suc m)"
    by (simp_all add: chain_to_snoc n)
  moreover from snoc.prems(2) have "seq_ok s" by simp
  with calculation(2) have "s = seq_of m" by (metis prev_next prev_seq_of_Suc)
  ultimately show ?case using snoc by (simp add: n)
qed simp

section \<open>Operations on the window\<close>

lemma mark_resent_seq [simp]: "rbe_seq \<circ> mark_resent e n = rbe_seq"
  by (simp add: comp_def)

lemma rbe_normal_mark [simp]: "rbe_normal (mark_resent e n el) = rbe_normal el"
  by (simp add: rbe_normal_def)

lemma retransmit_wf:
  assumes "ep_wf e"
  obtains q where
    "retransmit e n = Inr (e\<lparr>wire := wire e @ sent e (map (resend_packet e)
        (filter (resends n) (cq_list (retransmit_buffer e)))), retransmit_buffer := q\<rparr>)"
    "ep_wf (e\<lparr>wire := wire e @ sent e (map (resend_packet e)
        (filter (resends n) (cq_list (retransmit_buffer e)))), retransmit_buffer := q\<rparr>)"
    "cq_list q = map (mark_resent e n) (cq_list (retransmit_buffer e))"
proof -
  note wf = ep_wfD [OF assms]
  obtain q where q: "retransmit e n = Inr (e\<lparr>wire := wire e @ sent e (map (resend_packet e)
        (filter (resends n) (cq_list (retransmit_buffer e)))), retransmit_buffer := q\<rparr>)"
    "cq_inv q" "cq_size q = cq_size (retransmit_buffer e)"
    "cq_list q = map (mark_resent e n) (cq_list (retransmit_buffer e))"
    using retransmit_eq [OF wf(1,13)] by metis
  moreover have "cq_cap q = 4" using q(3) wf(2) by (simp add: cq_cap_def)
  ultimately show thesis
    using assms by (intro that [of q]) (auto simp: ep_wf_def list_all_iff)
qed

lemma slide_window_wf:
  assumes "ep_wf e"
  obtains q where "slide_window e f = Inr (e\<lparr>retransmit_buffer := q\<rparr>)"
    "ep_wf (e\<lparr>retransmit_buffer := q\<rparr>)"
    "cq_list q = dropWhile (\<lambda>el. \<not> tloe_seqnum_cmp (rbe_seq el) (frame_seq_ack f) > 0)
       (cq_list (retransmit_buffer e))"
proof -
  note wf = ep_wfD [OF assms]
  obtain q where q: "slide_window e f = Inr (e\<lparr>retransmit_buffer := q\<rparr>)" "cq_inv q"
    "cq_size q = cq_size (retransmit_buffer e)"
    "cq_list q = dropWhile (\<lambda>el. \<not> tloe_seqnum_cmp (rbe_seq el) (frame_seq_ack f) > 0)
       (cq_list (retransmit_buffer e))"
    using slide_window_eq [OF wf(1)] by metis
  moreover obtain k where k: "cq_list q = drop k (cq_list (retransmit_buffer e))"
    using q(4) dropWhile_drop by metis
  moreover have "cq_cap q = 4" using q(3) wf(2) by (simp add: cq_cap_def)
  moreover have "list_all rbe_normal (cq_list q)"
    using wf(7) unfolding k list_all_iff by (meson in_set_dropD)
  ultimately show thesis
    using assms chain_to_drop [OF wf(8), of k]
    by (intro that [of q]) (auto simp: ep_wf_def drop_map)
qed

lemma window_bound: "ep_wf e \<Longrightarrow> length (cq_list (retransmit_buffer e)) \<le> WINDOW_SIZE"
  using cq_count_le_cap [of "retransmit_buffer e"] by (simp add: ep_wf_def)

section \<open>The window by frame index\<close>

text \<open>With \<open>n\<close> the index of the next frame to send, the window holds the frames \<open>n - k\<close> to
  \<open>n - 1\<close>, \<open>k\<close> being its length.\<close>

lemma window_index:
  assumes "ep_wf e" "next_tx_seq e = seq_of n" "length (cq_list (retransmit_buffer e)) \<le> n"
  shows "map rbe_seq (cq_list (retransmit_buffer e)) =
    map seq_of [n - length (cq_list (retransmit_buffer e))..<n]"
proof -
  have "list_all seq_ok (map rbe_seq (cq_list (retransmit_buffer e)))" by (simp add: list_all_iff)
  then show ?thesis
    using chain_to_index [of "map rbe_seq (cq_list (retransmit_buffer e))" n] ep_wfD(8) [OF assms(1)]
      assms(2,3) by simp
qed

lemma drop_while_index:
  assumes "map g xs = map seq_of [m..<n]" "\<And>i. m \<le> i \<Longrightarrow> i < n \<Longrightarrow> P (seq_of i) \<longleftrightarrow> i \<le> (a :: nat)"
  shows "dropWhile (\<lambda>x. P (g x)) xs = drop (Suc a - m) xs"
  using assms
proof (induction xs arbitrary: m)
  case (Cons x xs)
  then have m: "m < n" by (cases "m < n") auto
  then have x: "g x = seq_of m" "map g xs = map seq_of [Suc m..<n]"
    using Cons.prems(1) by (simp_all add: upt_conv_Cons)
  have "P (g x) \<longleftrightarrow> m \<le> a" using Cons.prems(2) [of m] m x(1) by simp
  moreover have "dropWhile (\<lambda>x. P (g x)) xs = drop (Suc a - Suc m) xs"
    using Cons.IH [OF x(2)] Cons.prems(2) by simp
  ultimately show ?case by (cases "m \<le> a") (simp_all add: Suc_diff_le)
qed simp

lemma cmp_after:
  assumes "i < j + 2097152" "j < i + 2097152"
  shows "tloe_seqnum_cmp (seq_of i) (seq_of j) > 0 \<longleftrightarrow> j < i"
    "tloe_seqnum_cmp (seq_of i) (seq_of j) < 0 \<longleftrightarrow> i < j"
proof -
  consider "i = j" | "i < j" "j - i < 2097152" | "j < i" "i - j < 2097152" using assms by linarith
  then show "tloe_seqnum_cmp (seq_of i) (seq_of j) > 0 \<longleftrightarrow> j < i"
    "tloe_seqnum_cmp (seq_of i) (seq_of j) < 0 \<longleftrightarrow> i < j"
    by (cases; auto simp: cmp_seq_of_less)+
qed

lemma slide_window_index:
  assumes "ep_wf e" "next_tx_seq e = seq_of n" "length (cq_list (retransmit_buffer e)) = k" "k \<le> n"
    and "frame_seq_ack f = seq_of a" "n \<le> a + 2097152" "a + k < n + 2097152"
  shows "dropWhile (\<lambda>el. \<not> tloe_seqnum_cmp (rbe_seq el) (frame_seq_ack f) > 0)
      (cq_list (retransmit_buffer e)) = drop (Suc a - (n - k)) (cq_list (retransmit_buffer e))"
proof (rule drop_while_index)
  show "map rbe_seq (cq_list (retransmit_buffer e)) = map seq_of [n - k..<n]"
    using window_index [OF assms(1,2)] assms(3,4) by simp
  show "\<not> tloe_seqnum_cmp (seq_of i) (frame_seq_ack f) > 0 \<longleftrightarrow> i \<le> a" if "n - k \<le> i" "i < n" for i
    unfolding assms(5) using cmp_after(1) [of i a] that assms(4,6,7) by auto
qed

lemma filter_index:
  assumes "map g xs = map seq_of [m..<n]" "\<And>i. m \<le> i \<Longrightarrow> i < n \<Longrightarrow> P (seq_of i) \<longleftrightarrow> a \<le> i"
  shows "filter (\<lambda>x. P (g x)) xs = drop (a - m) xs"
  using assms
proof (induction xs arbitrary: m)
  case (Cons x xs)
  then have m: "m < n" by (cases "m < n") auto
  then have x: "g x = seq_of m" "map g xs = map seq_of [Suc m..<n]"
    using Cons.prems(1) by (simp_all add: upt_conv_Cons)
  have "P (g x) \<longleftrightarrow> a \<le> m" using Cons.prems(2) [of m] m x(1) by simp
  moreover have "filter (\<lambda>x. P (g x)) xs = drop (a - Suc m) xs"
    using Cons.IH [OF x(2)] Cons.prems(2) by simp
  ultimately show ?case
    by (cases "a \<le> m") (simp_all add: drop_Cons' le_diff_conv)
qed simp

text \<open>Retransmission from the oldest frame on sends the whole window.\<close>

lemma front_resends_all:
  assumes "ep_wf e" "getfront (retransmit_buffer e) = Some el"
  shows "filter (resends (rbe_seq el)) (cq_list (retransmit_buffer e)) = cq_list (retransmit_buffer e)"
proof -
  let ?w = "cq_list (retransmit_buffer e)"
  define n where "n = unat (next_tx_seq e) + 4194304"
  define b where "b = n - length ?w"
  have k: "length ?w \<le> 4" using window_bound [OF assms(1)] by simp
  have "next_tx_seq e = seq_of (unat (next_tx_seq e))" by (rule seq_of_surj) (rule ep_wfD(9) [OF assms(1)])
  also have "\<dots> = seq_of n" by (simp add: seq_of_def n_def)
  finally have idx: "map rbe_seq ?w = map seq_of [b..<n]"
    using window_index [OF assms(1), of n] k by (simp add: b_def n_def)
  obtain xs where xs: "?w = el # xs"
    using assms(2) getfront_eq [OF ep_wfD(1) [OF assms(1)]] by (cases ?w) auto
  have "0 < length ?w" unfolding xs by simp
  then have "b < n" by (simp add: b_def n_def)
  then have el: "rbe_seq el = seq_of b" using idx unfolding xs by (simp add: upt_conv_Cons)
  have "filter (\<lambda>x. \<not> tloe_seqnum_cmp (rbe_seq x) (seq_of b) < 0) ?w = drop (b - b) ?w"
  proof (rule filter_index [OF idx])
    show "\<not> tloe_seqnum_cmp (seq_of i) (seq_of b) < 0 \<longleftrightarrow> b \<le> i" if "b \<le> i" "i < n" for i
      using cmp_after(2) [of i b] that k by (auto simp: b_def)
  qed
  then show ?thesis by (simp add: resends_def [abs_def] el)
qed

text \<open>A small endpoint with an open fabric, for the examples.\<close>

definition example_endpoint :: endpoint where
  "example_endpoint = zero_endpoint\<lparr>
     ep_fabric := \<lparr>fab_ops = Some TLOE_FABRIC_MQ, fab_handle = True, dev_name = [], dev_opt = []\<rparr>,
     retransmit_buffer := create_queue 5, message_buffer := create_queue 5,
     ack_buffer := create_queue 5, tl_msg_buffer := create_queue 5,
     response_buffer := create_queue 5,
     ep_fc := zero_flowcontrol\<lparr>credits := replicate 6 128\<rparr>, connection := True,
     acked_seq := 4194303\<rparr>"

lemma example_queues [simp]:
  "retransmit_buffer example_endpoint = create_queue 5"
  "message_buffer example_endpoint = create_queue 5"
  "ack_buffer example_endpoint = create_queue 5"
  "tl_msg_buffer example_endpoint = create_queue 5"
  "response_buffer example_endpoint = create_queue 5"
  "next_tx_seq example_endpoint = 0" "next_rx_seq example_endpoint = 0"
  "acked_seq example_endpoint = 4194303" "fabric_up example_endpoint"
  "connection example_endpoint" "\<not> is_done example_endpoint"
  "ep_fc example_endpoint = zero_flowcontrol\<lparr>credits := replicate 6 128\<rparr>"
  "wire example_endpoint = []" "should_send_ackonly_frame example_endpoint = False"
  by (simp_all add: example_endpoint_def zero_endpoint_def fabric_up_def)

lemma example_fc_inv: "fc_inv (zero_flowcontrol\<lparr>credits := replicate 6 128\<rparr>)"
  by (simp add: fc_inv_def zero_flowcontrol_def)

lemma example_wf: "ep_wf example_endpoint"
  using example_fc_inv by (simp add: ep_wf_def cq_inv_create seq_ok_def)

text \<open>The same with the frames 0 and 1 in its window.\<close>

definition example_element :: "nat \<Rightarrow> retransmit_element" where
  "example_element i = \<lparr>rbe_state = TLOE_SENT, f_size = 56, send_time = 0,
     rbe_frame = \<lparr>header = (tloe_header_of_word 0)\<lparr>seq_num := of_nat i, ack := 1\<rparr>,
                  flits = replicate 65 0\<rparr>\<rparr>"

definition example_window :: endpoint where
  "example_window = example_endpoint\<lparr>next_tx_seq := 2,
     retransmit_buffer := \<lparr>front = 0, rear = 2, cq_size = 5,
       cq_data = [Some (example_element 0), Some (example_element 1), None, None, None]\<rparr>\<rparr>"

lemma example_window_list:
  "cq_list (retransmit_buffer example_window) = [example_element 0, example_element 1]"
  by (simp add: example_window_def cq_list_def cq_count_def cq_slot_def upt_rec)

lemma example_window_wf: "ep_wf example_window"
proof -
  have "seq_num (header (rbe_frame (example_element i))) = of_nat i" for i
    by (simp add: example_element_def)
  then have s: "rbe_seq (example_element 0) = 0" "rbe_seq (example_element 1) = 1"
    by (simp_all add: frame_seq_def)
  have n: "rbe_normal (example_element i)" for i
    by (simp add: rbe_normal_def rbe_ok_def example_element_def header_of_zero_word)
  have q: "cq_inv (retransmit_buffer example_window)" "cq_cap (retransmit_buffer example_window) = 4"
    by (simp_all add: example_window_def cq_inv_def cq_cap_def cq_count_def cq_slot_def upt_rec)
  have nx: "tloe_seqnum_next 0 = 1" "tloe_seqnum_next 1 = 2" by (simp_all add: tloe_seqnum_next_def)
  have fld: "message_buffer example_window = create_queue 5" "ack_buffer example_window = create_queue 5"
    "tl_msg_buffer example_window = create_queue 5" "response_buffer example_window = create_queue 5"
    "next_tx_seq example_window = 2" "next_rx_seq example_window = 0"
    "acked_seq example_window = 4194303"
    "ep_fc example_window = zero_flowcontrol\<lparr>credits := replicate 6 128\<rparr>"
    by (simp_all add: example_window_def)
  show ?thesis
    unfolding ep_wf_def fld example_window_list
    using q n s nx example_fc_inv by (simp add: cq_inv_create seq_ok_def)
qed

section \<open>Properties\<close>

text \<open>C8: Acknowledgements are cumulative.  Let the next frame to send have index \<open>n\<close> and let the
  window hold the \<open>k\<close> frames before it.  A frame that acknowledges the frame with index \<open>a\<close>, old,
  current or not yet sent, makes \<open>slide_window\<close> end and drop from the front exactly the buffered
  frames up to \<open>a\<close>; the rest of the endpoint is unchanged and the invariant holds again.\<close>

theorem slide_window_cumulative:
  assumes "ep_wf e" "next_tx_seq e = seq_of n" "length (cq_list (retransmit_buffer e)) = k" "k \<le> n"
    and "frame_seq_ack f = seq_of a" "n \<le> a + 2097152" "a + k < n + 2097152"
  shows "\<exists>q. slide_window e f = Inr (e\<lparr>retransmit_buffer := q\<rparr>) \<and>
    ep_wf (e\<lparr>retransmit_buffer := q\<rparr>) \<and>
    cq_list q = drop (Suc a - (n - k)) (cq_list (retransmit_buffer e)) \<and>
    map rbe_seq (cq_list q) = map seq_of [max (n - k) (Suc a)..<n]"
proof -
  obtain q where q: "slide_window e f = Inr (e\<lparr>retransmit_buffer := q\<rparr>)"
    "ep_wf (e\<lparr>retransmit_buffer := q\<rparr>)"
    "cq_list q = drop (Suc a - (n - k)) (cq_list (retransmit_buffer e))"
    using slide_window_wf [OF assms(1), of f] slide_window_index [OF assms] by metis
  moreover have "map rbe_seq (cq_list q) = map seq_of [max (n - k) (Suc a)..<n]"
  proof -
    have "map rbe_seq (cq_list (retransmit_buffer e)) = map seq_of [n - k..<n]"
      using window_index [OF assms(1,2)] assms(3,4) by simp
    then have "map rbe_seq (cq_list q) = map seq_of (drop (Suc a - (n - k)) [n - k..<n])"
      unfolding q(3) drop_map [symmetric] by simp
    moreover have "n - k + (Suc a - (n - k)) = max (n - k) (Suc a)" by simp
    ultimately show ?thesis by (simp only: drop_upt)
  qed
  ultimately show ?thesis by blast
qed

theorem slide_window_cumulative_witness:
  "let f = \<lparr>header = tloe_header_of_word 0, flits = []\<rparr> in
   \<exists>q. slide_window example_window f = Inr (example_window\<lparr>retransmit_buffer := q\<rparr>) \<and>
     map rbe_seq (cq_list q) = [seq_of 1]"
proof -
  let ?f = "\<lparr>header = tloe_header_of_word 0, flits = []\<rparr>"
  have "next_tx_seq example_window = seq_of 2" "frame_seq_ack ?f = seq_of 0"
    by (simp_all add: example_window_def seq_of_def frame_seq_ack_def header_of_zero_word)
  with slide_window_cumulative [OF example_window_wf, of 2 2 ?f 0] show ?thesis
    by (auto simp: example_window_list upt_rec Let_def)
qed

text \<open>C9: Go-back-N.  Retransmission from the frame with index \<open>a\<close> ends and sends again every
  buffered frame from \<open>a\<close> on, in order and once, each with the acknowledgement number as it is
  now; the window keeps all its frames, and nothing else changes.\<close>

theorem retransmit_go_back_n:
  assumes "ep_wf e" "next_tx_seq e = seq_of n" "length (cq_list (retransmit_buffer e)) = k" "k \<le> n"
    and "n \<le> a + 2097152" "a + k < n + 2097152"
  shows "\<exists>q. retransmit e (seq_of a) = Inr (e\<lparr>wire := wire e @ sent e (map (resend_packet e)
        (drop (a - (n - k)) (cq_list (retransmit_buffer e)))), retransmit_buffer := q\<rparr>) \<and>
    map rbe_frame (cq_list q) = map rbe_frame (cq_list (retransmit_buffer e)) \<and>
    ep_wf (e\<lparr>retransmit_buffer := q\<rparr>)"
proof -
  have idx: "map rbe_seq (cq_list (retransmit_buffer e)) = map seq_of [n - k..<n]"
    using window_index [OF assms(1,2)] assms(3,4) by simp
  have "filter (\<lambda>el. \<not> tloe_seqnum_cmp (rbe_seq el) (seq_of a) < 0) (cq_list (retransmit_buffer e)) =
      drop (a - (n - k)) (cq_list (retransmit_buffer e))"
  proof (rule filter_index [OF idx])
    show "\<not> tloe_seqnum_cmp (seq_of i) (seq_of a) < 0 \<longleftrightarrow> a \<le> i" if "n - k \<le> i" "i < n" for i
      using cmp_after(2) [of i a] that assms(4-6) by auto
  qed
  then have f: "filter (resends (seq_of a)) (cq_list (retransmit_buffer e)) =
      drop (a - (n - k)) (cq_list (retransmit_buffer e))"
    by (simp add: resends_def [abs_def])
  obtain q where q: "retransmit e (seq_of a) = Inr (e\<lparr>wire := wire e @ sent e (map (resend_packet e)
        (filter (resends (seq_of a)) (cq_list (retransmit_buffer e)))), retransmit_buffer := q\<rparr>)"
    "ep_wf (e\<lparr>wire := wire e @ sent e (map (resend_packet e)
        (filter (resends (seq_of a)) (cq_list (retransmit_buffer e)))), retransmit_buffer := q\<rparr>)"
    "cq_list q = map (mark_resent e (seq_of a)) (cq_list (retransmit_buffer e))"
    using retransmit_wf [OF assms(1), of "seq_of a"] by metis
  have "ep_wf (e\<lparr>retransmit_buffer := q\<rparr>)" using q(2) by (simp add: ep_wf_def)
  then show ?thesis using q(1,3) unfolding f by auto
qed

theorem retransmit_go_back_n_witness:
  "\<exists>q. retransmit example_window (seq_of 1) = Inr (example_window\<lparr>
     wire := [resend_packet example_window (example_element 1)], retransmit_buffer := q\<rparr>)"
proof -
  have "next_tx_seq example_window = seq_of 2" "wire example_window = []" "fabric_up example_window"
    by (simp_all add: example_window_def seq_of_def fabric_up_def)
      (simp add: example_endpoint_def)
  with retransmit_go_back_n [OF example_window_wf, of 2 2 1] show ?thesis
    by (auto simp: example_window_list sent_def)
qed

end
