(* ===== verification/Transmitter.thy ===== *)
theory Transmitter
  imports Window
begin

text \<open>
  The transmit half of an endpoint's iteration, \<open>tloe_transmitter.c\<close>: stand-alone
  acknowledgements, the normal frame with its message, acknowledgement and credit, the
  retransmit buffer and the timeout.
\<close>

section \<open>The code\<close>

text \<open>What \<open>TX\<close> takes from its surroundings: the contents of the two stack frames of
  \<open>send_ackonly_frame\<close>, which does not clear its frame, and whether the allocation of the
  retransmit buffer element succeeds.\<close>

record tx_env =
  stack_frame1 :: tloe_frame
  stack_frame2 :: tloe_frame
  rbe_alloc :: bool

definition send_ackonly_frame :: "endpoint \<Rightarrow> tloe_frame \<Rightarrow> endpoint result" where
  "send_ackonly_frame e f0 =
     (let fsize = tloe_get_fsize None;
          f1 = f0\<lparr>header := (header f0)\<lparr>frame_type := TYPE_ACKONLY\<rparr>\<rparr>;
          f2 = tloe_seqnum_set_next_and_acked_seq f1 e;
          f3 = f2\<lparr>header := (header f2)\<lparr>ack := TLOE_ACK\<rparr>\<rparr>
      in bindR (tloe_set_mask f3 0 fsize) (\<lambda>f4.
         let f5 = f4\<lparr>header := (header f4)\<lparr>chan := 0, credit := 0\<rparr>\<rparr> in
         bindR (tloe_frame_to_packet MAX_BUFFER_SIZE f5 fsize) (\<lambda>send_buffer.
           Inr (tloe_fabric_send e send_buffer))))"

text \<open>The new element is cleared, receives \<open>n\<close> bytes of the frame, and is enqueued.\<close>

definition enqueue_retransmit_buffer ::
    "endpoint \<Rightarrow> tloe_frame \<Rightarrow> int \<Rightarrow> (endpoint \<times> retransmit_element \<times> bool) result" where
  "enqueue_retransmit_buffer e f n =
     (let dst = zero_frame sizeof_tloe_frame; len = nat n - 8 in
      if 8 * length (flits f) < len \<or> 8 * length (flits dst) < len then Inl Out_Of_Bounds
      else
        let rbe = \<lparr>rbe_state = TLOE_INIT, f_size = n,
                   send_time = get_current_timestamp (iteration_ts e),
                   rbe_frame = \<lparr>header = header f,
                     flits = words_of_bytes (take len (flit_bytes (flits f)) @
                                             drop len (flit_bytes (flits dst)))\<rparr>\<rparr>;
            (q, enqueued) = enqueue (retransmit_buffer e) rbe
        in Inr (e\<lparr>retransmit_buffer := q\<rparr>, rbe, enqueued))"

definition prepare_normal_frame ::
    "endpoint \<Rightarrow> tloe_frame \<Rightarrow> tl_msg option \<Rightarrow> int \<Rightarrow> tloe_frame result" where
  "prepare_normal_frame e f tlmsg n =
     (let f1 = tloe_seqnum_set_next_and_acked_seq f e;
          f2 = f1\<lparr>header := (header f1)\<lparr>ack := TLOE_ACK\<rparr>\<rparr>
      in bindR (case tlmsg of
                  Some m \<Rightarrow> bindR (tloe_set_tlmsg f2 m) (\<lambda>f3. tloe_set_mask f3 1 n)
                | None \<Rightarrow> tloe_set_mask f2 0 n) (\<lambda>f4.
         Inr (f4\<lparr>header := (header f4)\<lparr>chan := 0, credit := 0\<rparr>\<rparr>)))"

definition send_request_normal_frame :: "endpoint \<Rightarrow> tloe_frame \<Rightarrow> int \<Rightarrow> endpoint result" where
  "send_request_normal_frame e f n =
     bindR (tloe_frame_to_packet MAX_BUFFER_SIZE f n) (\<lambda>send_buffer.
       Inr (tloe_fabric_send e send_buffer))"

text \<open>The network simulator hooks of \<open>tloe_nsm.h\<close>, as a default build compiles them.\<close>

definition handle_ack_packet_drop :: "endpoint \<Rightarrow> tloe_frame \<Rightarrow> int" where
  "handle_ack_packet_drop e f = 0"

definition handle_normal_frame_drop :: "endpoint \<Rightarrow> int" where
  "handle_normal_frame_drop e = 0"

definition handle_single_normal_frame_drop :: "endpoint \<Rightarrow> int" where
  "handle_single_normal_frame_drop e = 0"

text \<open>From the label \<open>out\<close> of \<open>TX\<close>: retransmission after a timeout, and the message that is
  returned to the caller.\<close>

definition tx_out :: "endpoint \<Rightarrow> tl_msg option \<Rightarrow> (endpoint \<times> tl_msg option) result" where
  "tx_out e return_tlmsg =
     (case getfront (retransmit_buffer e) of
        None \<Rightarrow> Inr (e, return_tlmsg)
      | Some rbe \<Rightarrow>
          if is_timeout_tx (iteration_ts e) (send_time rbe)
          then bindR (retransmit e (frame_seq (rbe_frame rbe))) (\<lambda>e. Inr (e, return_tlmsg))
          else Inr (e, return_tlmsg))"

text \<open>An ACKONLY frame that the receiver asked for.\<close>

definition tx_ackonly_requested :: "tx_env \<Rightarrow> endpoint \<Rightarrow> endpoint result" where
  "tx_ackonly_requested env e =
     (if should_send_ackonly_frame e
      then bindR (send_ackonly_frame e (stack_frame1 env)) (\<lambda>e.
             Inr (e\<lparr>should_send_ackonly_frame := False\<rparr>))
      else Inr e)"

text \<open>An ACKONLY frame when the retransmit buffer is full and its oldest frame is old.\<close>

definition tx_ackonly_full :: "tx_env \<Rightarrow> endpoint \<Rightarrow> endpoint result" where
  "tx_ackonly_full env e =
     (if is_queue_full (retransmit_buffer e) \<and> \<not> ackonly_frame_sent e then
        case getfront (retransmit_buffer e) of
          None \<Rightarrow> Inl Null_Deref
        | Some rbe \<Rightarrow>
            if is_timeout_tx_half (iteration_ts e) (send_time rbe)
            then bindR (send_ackonly_frame (e\<lparr>ackonly_frame_sent := True\<rparr>) (stack_frame2 env)) (\<lambda>e.
                   Inr (e\<lparr>ackonly_cnt := ackonly_cnt e + 1\<rparr>))
            else Inr e
      else Inr e)"

text \<open>The acknowledgement number of the oldest entry of the ack buffer goes into the frame; the
  flag tells whether the simulator drops it.\<close>

definition tx_take_ack :: "endpoint \<Rightarrow> tloe_frame \<Rightarrow> (endpoint \<times> tloe_frame \<times> bool) result" where
  "tx_take_ack e f =
     (if \<not> is_queue_empty (ack_buffer e) then
        case dequeue (ack_buffer e) of
          (q, None) \<Rightarrow> Inl Null_Deref
        | (q, Some ack_frame) \<Rightarrow>
            let e1 = e\<lparr>ack_buffer := q\<rparr>
            in Inr (e1, tloe_seqnum_set_frame_seq_num_ack f (frame_seq_ack ack_frame),
                    handle_ack_packet_drop e1 ack_frame \<noteq> 0)
      else Inr (e, f, False))"

definition tx_put_credit :: "endpoint \<Rightarrow> tloe_frame \<Rightarrow> nat \<Rightarrow> (endpoint \<times> tloe_frame) result" where
  "tx_put_credit e f target =
     (if target \<noteq> 0 then
        bindR (get_outgoing_credits (ep_fc e) target) (\<lambda>(fc, n).
          Inr (e\<lparr>ep_fc := fc\<rparr>,
               f\<lparr>header := (header f)\<lparr>chan := of_nat target, credit := of_nat n\<rparr>\<rparr>))
      else Inr (e, f))"

text \<open>The part of \<open>TX\<close> that builds and sends a normal frame: \<open>request\<close> is the message it
  carries, if any, \<open>return_tlmsg\<close> the message that goes back to the caller.\<close>

definition tx_send :: "tx_env \<Rightarrow> endpoint \<Rightarrow> nat \<Rightarrow> tl_msg option \<Rightarrow> tl_msg option
    \<Rightarrow> (endpoint \<times> tl_msg option) result" where
  "tx_send env e target request return_tlmsg =
     (let n = tloe_get_fsize request in
      bug_on (n = -1)
        (bindR (prepare_normal_frame e (zero_frame n) request n) (\<lambda>f.
         bindR (tx_take_ack e f) (\<lambda>(e1, f1, drop).
         if drop then tx_out e1 return_tlmsg
         else
           bindR (tx_put_credit e1 f1 target) (\<lambda>(e2, f2).
           if \<not> rbe_alloc env then tx_out e2 request
           else
             bindR (enqueue_retransmit_buffer e2 f2 n) (\<lambda>(e3, rbe, enqueued).
             bug_on (\<not> enqueued)
               (bindR (send_request_normal_frame e3 f2 n) (\<lambda>e4.
                let e5 = e4\<lparr>retransmit_buffer := cq_update (retransmit_buffer e4)
                              (rear (retransmit_buffer e2)) (rbe\<lparr>rbe_state := TLOE_SENT\<rparr>)\<rparr>
                in tx_out (tloe_seqnum_next_tx_seq_inc e5) return_tlmsg))))))))"

definition TX :: "tx_env \<Rightarrow> endpoint \<Rightarrow> tl_msg option \<Rightarrow> (endpoint \<times> tl_msg option) result" where
  "TX env e request =
     (let target = select_max_credit_channel (ep_fc e) in
      bindR (tx_ackonly_requested env e) (\<lambda>e.
      bindR (tx_ackonly_full env e) (\<lambda>e.
      if is_queue_full (retransmit_buffer e) then tx_out e request
      else if request = None \<and> is_queue_empty (ack_buffer e) \<and> target = 0 then tx_out e None
      else case request of
             None \<Rightarrow> tx_send env e target None None
           | Some m \<Rightarrow>
               bindR (fc_credit_dec (ep_fc e) m) (\<lambda>(fc, n).
               let e = e\<lparr>ep_fc := fc\<rparr> in
               if n \<noteq> -1 then tx_send env e target (Some m) None
               else if \<not> is_queue_empty (ack_buffer e) then tx_send env e target None (Some m)
               else tx_out e (Some m)))))"

section \<open>Messages that can be sent\<close>

text \<open>The message's block holds all the bytes its header announces, the channel exists, and the
  frame for it fits a \<open>tloe_frame_t\<close>.\<close>

definition msg_ok :: "tl_msg \<Rightarrow> bool" where
  "msg_ok m \<longleftrightarrow> unat (tl_chan (tl_hdr m)) < CHANNEL_NUM \<and>
     tlmsg_get_total_size (tl_hdr m) \<le> int (length (tlmsg_bytes m)) \<and>
     tlmsg_get_total_size (tl_hdr m) \<le> 520"

lemma fsize_ok:
  assumes "\<And>m. req = Some m \<Longrightarrow> msg_ok m"
  shows "tloe_get_fsize req mod 8 = 0" "56 \<le> tloe_get_fsize req" "tloe_get_fsize req \<le> 528"
proof -
  have "tloe_get_fsize req mod 8 = 0 \<and> 56 \<le> tloe_get_fsize req \<and> tloe_get_fsize req \<le> 528"
  proof (cases req)
    case None
    then show ?thesis by (simp add: tloe_get_fsize_def)
  next
    case (Some m)
    let ?t = "header_bytes (tl_hdr m) + data_bytes (tl_hdr m)"
    have t: "tlmsg_get_total_size (tl_hdr m) = int ?t" by (rule tlmsg_get_total_size_eq)
    have "8 dvd ?t" if "48 \<le> ?t"
      using data_bytes_dvd [of "tl_hdr m"] header_bytes_range [of "tl_hdr m"] that
      by (auto intro: dvd_add)
    then have "8 + int ?t < 56 \<or> (8 + int ?t) mod 8 = 0" by presburger
    moreover have "int ?t \<le> 520" using assms [OF Some] t by (simp add: msg_ok_def)
    ultimately show ?thesis by (auto simp: Some tloe_get_fsize_def Let_def t)
  qed
  then show "tloe_get_fsize req mod 8 = 0" "56 \<le> tloe_get_fsize req" "tloe_get_fsize req \<le> 528"
    by simp_all
qed

lemma msg_fits_fsize:
  "tlmsg_get_total_size (tl_hdr m) \<le> tloe_get_fsize (Some m) - 8"
  by (simp add: tloe_get_fsize_def Let_def)

section \<open>Packets\<close>

definition packet_header :: "byte list \<Rightarrow> tloe_header" where
  "packet_header p = tloe_header_of_word (be64toh (of_le_bytes (take 8 p)))"

lemma packet_header_frame [simp]: "packet_header (frame_packet f n) = header f"
  by (simp add: packet_header_def frame_packet_def)

lemma packet_header_resend [simp]:
  "packet_header (resend_packet e el) =
     (header (rbe_frame el))\<lparr>seq_num_ack := ucast (tloe_seqnum_prev (next_rx_seq e))\<rparr>"
  by (simp add: resend_packet_def tloe_seqnum_set_seq_num_ack_def)

section \<open>The steps of TX\<close>

text \<open>The stand-alone acknowledgement: its packet carries the next number to send and the last
  number received in order, whatever the stack frame held.\<close>

lemma send_ackonly_frame_eq:
  assumes "length (flits f0) = MAX_SIZE_FLIT"
  obtains p where "send_ackonly_frame e f0 = Inr (tloe_fabric_send e p)"
    "ack (packet_header p) = TLOE_ACK" "frame_type (packet_header p) = TYPE_ACKONLY"
    "seq_num (packet_header p) = ucast (next_tx_seq e)"
    "seq_num_ack (packet_header p) = ucast (tloe_seqnum_prev (next_rx_seq e))"
    "chan (packet_header p) = 0" "credit (packet_header p) = 0" "length p = 56"
proof -
  define h where "h = (header f0)\<lparr>frame_type := 1, seq_num := ucast (next_tx_seq e),
      seq_num_ack := ucast (tloe_seqnum_prev (next_rx_seq e)), ack := 1, chan := 0, credit := 0\<rparr>"
  define g where "g = f0\<lparr>flits := (flits f0)[5 := 0], header := h\<rparr>"
  have "send_ackonly_frame e f0 =
      bindR (tloe_frame_to_packet 1500 g 56) (\<lambda>b. Inr (tloe_fabric_send e b))"
    using assms
    by (simp add: send_ackonly_frame_def tloe_get_fsize_def Let_def tloe_set_mask_def
        mask_index_def tloe_seqnum_set_next_and_acked_seq_def tloe_seqnum_set_seq_num_ack_def
        tloe_seqnum_set_next_tx_seq_def g_def h_def)
  moreover have "tloe_frame_to_packet 1500 g 56 = Inr (frame_packet g 56)"
    using assms by (intro frame_to_packet_ok) (simp_all add: g_def)
  moreover have "length (frame_packet g 56) = 56"
    using assms by (simp add: length_frame_packet g_def)
  ultimately show thesis
    by (intro that [of "frame_packet g 56"]) (simp_all add: g_def h_def)
qed

text \<open>The header of a fresh normal frame.\<close>

definition normal_header :: "endpoint \<Rightarrow> tloe_header" where
  "normal_header e = (tloe_header_of_word 0)\<lparr>seq_num := ucast (next_tx_seq e),
     seq_num_ack := ucast (tloe_seqnum_prev (next_rx_seq e)), ack := TLOE_ACK\<rparr>"

lemma prepare_normal_frame_ok:
  assumes "\<And>m. req = Some m \<Longrightarrow> msg_ok m" "n = tloe_get_fsize req"
  obtains f where "prepare_normal_frame e (zero_frame n) req n = Inr f"
    "header f = normal_header e" "length (flits f) = nat ((n - 8) div 8)"
proof -
  define k where "k = nat ((n - 8) div 8)"
  have "n mod 8 = 0" "56 \<le> n"
    using fsize_ok [of req, OF assms(1)] by (simp_all add: assms(2))
  then have "n = 8 * (n div 8)" "7 \<le> n div 8" by auto
  then obtain j where j: "n = 8 * j" "7 \<le> j" by blast
  then have "(n - 8) div 8 = j - 1" by simp
  with j have n: "n = 8 * (1 + int k)" "6 \<le> k" by (simp_all add: k_def)
  define f2 where "f2 = \<lparr>header = normal_header e, flits = replicate k (0 :: u64)\<rparr>"
  have hd0: "(normal_header e)\<lparr>chan := 0, credit := 0\<rparr> = normal_header e"
    by (simp add: normal_header_def header_of_zero_word)
  have f2: "(let f1 = tloe_seqnum_set_next_and_acked_seq (zero_frame n) e
      in f1\<lparr>header := (header f1)\<lparr>ack := 1\<rparr>\<rparr>) = f2"
    by (simp add: f2_def normal_header_def zero_frame_def k_def
        tloe_seqnum_set_next_and_acked_seq_def tloe_seqnum_set_seq_num_ack_def
        tloe_seqnum_set_next_tx_seq_def)
  have msk: "tloe_set_mask g v n = Inr (g\<lparr>flits := (flits g)[k - 1 := v]\<rparr>)"
    if "length (flits g) = k" for g v
    using set_mask_ok [of n g v] n that by (cases "flits g") auto
  show thesis
  proof (cases req)
    case None
    then have "prepare_normal_frame e (zero_frame n) req n =
        Inr (f2\<lparr>flits := (flits f2)[k - 1 := 0]\<rparr>)"
      using f2 msk [of f2] by (simp add: prepare_normal_frame_def Let_def f2_def hd0)
    then show thesis by (rule that) (simp_all add: f2_def k_def)
  next
    case (Some m)
    have "tlmsg_get_total_size (tl_hdr m) \<le> 8 * int k"
      using msg_fits_fsize [of m] n assms(2) Some by simp
    then obtain g where g: "tloe_set_tlmsg f2 m = Inr g"
      using set_tlmsg_ok [of m f2] assms(1) [OF Some]
      by (auto simp: msg_ok_def f2_def nat_le_iff)
    note gg = set_tlmsg_bytes [OF g]
    then have "prepare_normal_frame e (zero_frame n) req n =
        Inr (g\<lparr>flits := (flits g)[k - 1 := 1]\<rparr>)"
      using f2 msk [of g] g Some
      by (simp add: prepare_normal_frame_def Let_def hd0 f2_def)
    then show thesis by (rule that) (use gg in \<open>simp_all add: f2_def k_def\<close>)
  qed
qed

text \<open>A stand-alone acknowledgement of everything up to \<open>rx\<close>.\<close>

definition ackonly_packet :: "u32 \<Rightarrow> byte list \<Rightarrow> bool" where
  "ackonly_packet rx p \<longleftrightarrow> length p = 56 \<and> ack (packet_header p) = TLOE_ACK \<and>
     frame_type (packet_header p) = TYPE_ACKONLY \<and>
     seq_num_ack (packet_header p) = ucast (tloe_seqnum_prev rx)"

text \<open>All packets of a list acknowledge.\<close>

definition all_ack :: "byte list list \<Rightarrow> bool" where
  "all_ack ps \<longleftrightarrow> (\<forall>p \<in> set ps. ack (packet_header p) = TLOE_ACK)"

lemma all_ack_simps [simp]:
  "all_ack []" "all_ack (p # ps) \<longleftrightarrow> ack (packet_header p) = 1 \<and> all_ack ps"
  "all_ack (ps @ qs) \<longleftrightarrow> all_ack ps \<and> all_ack qs"
  by (auto simp: all_ack_def)

lemma all_ackI: "list_all (\<lambda>p. ack (packet_header p) = TLOE_ACK) ps \<Longrightarrow> all_ack ps"
  by (simp add: all_ack_def list_all_iff)

lemma all_ack_sent: "all_ack ps \<Longrightarrow> all_ack (sent e ps)"
  by (simp add: sent_def)

lemma all_ack_resend:
  "list_all rbe_normal els \<Longrightarrow> all_ack (map (resend_packet e) (filter P els))"
  by (induction els) (auto simp: rbe_normal_def)

lemma all_ack_ackonly: "list_all (ackonly_packet rx) ps \<Longrightarrow> all_ack ps"
  by (auto simp: all_ack_def list_all_iff ackonly_packet_def)

lemma list_all_Nil: "list_all P []"
  by simp

lemma list_all_sent: "list_all P ps \<Longrightarrow> list_all P (sent e ps)"
  by (simp add: sent_def)

text \<open>What a buffered element keeps while it is sent again: its size and its frame.\<close>

definition rbe_key :: "retransmit_element \<Rightarrow> int \<times> tloe_frame" where
  "rbe_key el = (f_size el, rbe_frame el)"

lemma rbe_key_mark [simp]: "rbe_key (mark_resent e n el) = rbe_key el"
  by (simp add: rbe_key_def)

definition window_keys :: "endpoint \<Rightarrow> (int \<times> tloe_frame) list" where
  "window_keys e = map rbe_key (cq_list (retransmit_buffer e))"

text \<open>A packet that \<open>TX\<close> sends: a stand-alone acknowledgement, or a frame of the window \<open>keys\<close> with an
  acknowledgement number of its own, either the last number received in order or that of the oldest
  entry of the ack buffer.\<close>

definition with_ack :: "tloe_frame \<Rightarrow> 22 word \<Rightarrow> tloe_frame" where
  "with_ack f a = f\<lparr>header := (header f)\<lparr>seq_num_ack := a\<rparr>\<rparr>"

lemma with_ack_same: "seq_num_ack (header f) = a \<Longrightarrow> with_ack f a = f"
  by (cases f) (auto simp: with_ack_def)

lemma with_ack_fields [simp]:
  "flits (with_ack f a) = flits f" "seq_num_ack (header (with_ack f a)) = a"
  "seq_num (header (with_ack f a)) = seq_num (header f)" "ack (header (with_ack f a)) = ack (header f)"
  "frame_type (header (with_ack f a)) = frame_type (header f)"
  "chan (header (with_ack f a)) = chan (header f)"
  by (simp_all add: with_ack_def)

definition tx_ack_numbers :: "endpoint \<Rightarrow> 22 word list" where
  "tx_ack_numbers e = ucast (tloe_seqnum_prev (next_rx_seq e)) #
     map (\<lambda>g. seq_num_ack (header g)) (take 1 (cq_list (ack_buffer e)))"

definition tx_packet :: "endpoint \<Rightarrow> (int \<times> tloe_frame) list \<Rightarrow> byte list \<Rightarrow> bool" where
  "tx_packet e keys p \<longleftrightarrow> ackonly_packet (next_rx_seq e) p \<or>
     (\<exists>(n, f) \<in> set keys. \<exists>a \<in> set (tx_ack_numbers e). p = frame_packet (with_ack f a) n)"

lemma tx_packet_cong:
  "next_rx_seq e1 = next_rx_seq e \<Longrightarrow> ack_buffer e1 = ack_buffer e \<Longrightarrow> tx_packet e1 = tx_packet e"
  by (simp add: fun_eq_iff tx_packet_def tx_ack_numbers_def)

lemma tx_packet_resend:
  assumes "el \<in> set (cq_list (retransmit_buffer e))"
  shows "tx_packet e (window_keys e) (resend_packet e el)"
proof -
  have "resend_packet e el = frame_packet (with_ack (rbe_frame el)
      (ucast (tloe_seqnum_prev (next_rx_seq e)))) (f_size el)"
    by (simp add: resend_packet_def tloe_seqnum_set_seq_num_ack_def with_ack_def)
  moreover have "(f_size el, rbe_frame el) \<in> set (window_keys e)"
    using assms by (auto simp: window_keys_def rbe_key_def)
  ultimately show ?thesis by (auto simp: tx_packet_def tx_ack_numbers_def)
qed

text \<open>The oldest frame waits for longer than the timeout; the frames \<open>keys\<close> are among the packets, with a
  fresh acknowledgement.\<close>

definition overdue :: "endpoint \<Rightarrow> bool" where
  "overdue e \<longleftrightarrow> fabric_up e \<and>
     (\<exists>el. getfront (retransmit_buffer e) = Some el \<and> is_timeout_tx (iteration_ts e) (send_time el))"

definition resent :: "endpoint \<Rightarrow> (int \<times> tloe_frame) list \<Rightarrow> byte list list \<Rightarrow> bool" where
  "resent e keys ps \<longleftrightarrow> (\<forall>(n, f) \<in> set keys.
     frame_packet (with_ack f (ucast (tloe_seqnum_prev (next_rx_seq e)))) n \<in> set ps)"

lemma resent_mono:
  "resent e keys ps \<Longrightarrow> next_rx_seq e' = next_rx_seq e \<Longrightarrow> set keys' \<subseteq> set keys \<Longrightarrow> set ps \<subseteq> set ps' \<Longrightarrow>
    resent e' keys' ps'"
  by (fastforce simp: resent_def)

lemma resent_window:
  "resent e (window_keys e) (map (resend_packet e) (cq_list (retransmit_buffer e)))"
  by (auto simp: resent_def window_keys_def rbe_key_def resend_packet_def with_ack_def
      tloe_seqnum_set_seq_num_ack_def)

lemma overdue_cong:
  "fabric_up e1 = fabric_up e \<Longrightarrow> getfront (retransmit_buffer e1) = getfront (retransmit_buffer e) \<Longrightarrow>
    iteration_ts e1 = iteration_ts e \<Longrightarrow> overdue e1 = overdue e"
  by (simp add: overdue_def)

lemma tx_out_ok:
  assumes "ep_wf e"
  obtains q ps where "tx_out e r = Inr (e\<lparr>wire := wire e @ ps, retransmit_buffer := q\<rparr>, r)"
    "ep_wf (e\<lparr>wire := wire e @ ps, retransmit_buffer := q\<rparr>)" "all_ack ps"
    "map rbe_key (cq_list q) = map rbe_key (cq_list (retransmit_buffer e))"
    "\<And>P. list_all P (map (resend_packet e) (cq_list (retransmit_buffer e))) \<Longrightarrow> list_all P ps"
    "overdue e \<Longrightarrow> resent e (window_keys e) ps"
proof (cases "\<exists>rbe. getfront (retransmit_buffer e) = Some rbe \<and>
    is_timeout_tx (iteration_ts e) (send_time rbe)")
  case True
  then obtain rbe where rbe: "getfront (retransmit_buffer e) = Some rbe"
    "is_timeout_tx (iteration_ts e) (send_time rbe)" by blast
  let ?ps = "sent e (map (resend_packet e)
      (filter (resends (rbe_seq rbe)) (cq_list (retransmit_buffer e))))"
  obtain q where q: "retransmit e (rbe_seq rbe) =
      Inr (e\<lparr>wire := wire e @ ?ps, retransmit_buffer := q\<rparr>)"
    "ep_wf (e\<lparr>wire := wire e @ ?ps, retransmit_buffer := q\<rparr>)"
    "cq_list q = map (mark_resent e (rbe_seq rbe)) (cq_list (retransmit_buffer e))"
    using retransmit_wf [OF assms] by metis
  have "all_ack ?ps" using ep_wfD(7) [OF assms] by (intro all_ack_sent all_ack_resend)
  moreover have "list_all P ?ps" if "list_all P (map (resend_packet e) (cq_list (retransmit_buffer e)))"
    for P using that by (intro list_all_sent) (auto simp: list_all_iff)
  moreover have "resent e (window_keys e) ?ps" if "overdue e"
    using that resent_window [of e] front_resends_all [OF assms rbe(1)]
    by (simp add: sent_def overdue_def)
  ultimately show thesis
    using q rbe by (intro that [where q = q and ps = ?ps]) (simp_all add: tx_out_def)
next
  case False
  then have "tx_out e r = Inr (e, r)"
    by (auto simp: tx_out_def split: option.split)
  moreover have "\<not> overdue e" using False by (simp add: overdue_def)
  ultimately show thesis
    using assms by (intro that [where q = "retransmit_buffer e" and ps = "[]"]) simp_all
qed

lemma tx_take_ack_ok:
  assumes "cq_inv (ack_buffer e)"
  obtains q a where
    "tx_take_ack e f = Inr (e\<lparr>ack_buffer := q\<rparr>, f\<lparr>header := (header f)\<lparr>seq_num_ack := a\<rparr>\<rparr>, False)"
    "cq_inv q" "cq_list q = tl (cq_list (ack_buffer e))" "cq_cap q = cq_cap (ack_buffer e)"
    "a = (case cq_list (ack_buffer e) of [] \<Rightarrow> seq_num_ack (header f)
          | g # _ \<Rightarrow> seq_num_ack (header g))"
proof (cases "cq_list (ack_buffer e)")
  case Nil
  then show thesis using assms
    by (intro that [of "ack_buffer e"]) (simp_all add: tx_take_ack_def is_queue_empty_iff)
next
  case (Cons g gs)
  obtain q where q: "dequeue (ack_buffer e) = (q, Some g)" "cq_inv q" "cq_list q = gs"
    "cq_cap q = cq_cap (ack_buffer e)"
    using dequeue_cons [OF assms Cons] cq_cap_ops(2) [of "ack_buffer e"]
    by (cases "dequeue (ack_buffer e)") auto
  show thesis
    by (rule that [where q = q and a = "seq_num_ack (header g)"])
      (use Cons assms q in \<open>simp_all add: tx_take_ack_def is_queue_empty_iff
        tloe_seqnum_set_frame_seq_num_ack_def frame_seq_ack_def handle_ack_packet_drop_def\<close>)
qed

text \<open>What a frame returns of the credit of channel \<open>t\<close>: the largest power of two that is there, by its
  exponent; for channel 0, nothing.\<close>

definition returns_credit :: "flowcontrol \<Rightarrow> nat \<Rightarrow> flowcontrol \<Rightarrow> 3 word \<Rightarrow> 5 word \<Rightarrow> bool" where
  "returns_credit fc t fc' c n \<longleftrightarrow>
     (if t = 0 then fc' = fc \<and> c = 0 \<and> n = 0
      else \<exists>k v. unat (tx_flow_credits fc ! t) = 2 ^ k + unat v \<and> unat v < 2 ^ k \<and>
             fc' = fc\<lparr>tx_flow_credits := (tx_flow_credits fc)[t := v]\<rparr> \<and>
             c = of_nat t \<and> n = of_nat k)"

lemma tx_put_credit_ok:
  assumes "fc_inv (ep_fc e)" "target < CHANNEL_NUM"
    "target \<noteq> 0 \<Longrightarrow> tx_flow_credits (ep_fc e) ! target \<noteq> 0"
    "chan (header f) = 0" "credit (header f) = 0"
  obtains fc c n where
    "tx_put_credit e f target =
       Inr (e\<lparr>ep_fc := fc\<rparr>, f\<lparr>header := (header f)\<lparr>chan := c, credit := n\<rparr>\<rparr>)"
    "fc_inv fc" "credits fc = credits (ep_fc e)" "unat c < CHANNEL_NUM"
    "returns_credit (ep_fc e) target fc c n"
proof (cases "target = 0")
  case True
  show thesis
    by (rule that [where fc = "ep_fc e" and c = "chan (header f)" and n = "credit (header f)"])
      (use assms True in \<open>simp_all add: tx_put_credit_def returns_credit_def\<close>)
next
  case False
  obtain k fc where g: "get_outgoing_credits (ep_fc e) target = Inr (fc, k)" "fc_inv fc"
    "unat (tx_flow_credits (ep_fc e) ! target) = 2 ^ k + unat (tx_flow_credits fc ! target)"
    "unat (tx_flow_credits fc ! target) < 2 ^ k"
    "fc = (ep_fc e)\<lparr>tx_flow_credits := (tx_flow_credits (ep_fc e))[target := tx_flow_credits fc ! target]\<rparr>"
    by (rule get_outgoing_spec [OF assms(1,2) assms(3) [OF False]])
  have "credits fc = credits (ep_fc e)" by (subst g(5)) simp
  moreover have "unat (of_nat target :: 3 word) = target"
    using assms(2) by (simp add: unat_of_nat take_bit_nat_eq_self)
  moreover have "returns_credit (ep_fc e) target fc (of_nat target) (of_nat k)"
    using False g(3-5) unfolding returns_credit_def by auto
  ultimately show thesis using False assms(2) g(1,2)
    by (intro that [where fc = fc and c = "of_nat target" and n = "of_nat k"])
      (simp_all add: tx_put_credit_def)
qed

text \<open>The element that \<open>TX\<close> leaves in the retransmit buffer for the frame \<open>f\<close> of \<open>n\<close> bytes.\<close>

definition stored_element :: "endpoint \<Rightarrow> tloe_frame \<Rightarrow> int \<Rightarrow> rbe_state \<Rightarrow> retransmit_element" where
  "stored_element e f n st =
     \<lparr>rbe_state = st, f_size = n, send_time = get_current_timestamp (iteration_ts e),
      rbe_frame = \<lparr>header = header f,
                   flits = flits f @ replicate (MAX_SIZE_FLIT - length (flits f)) 0\<rparr>\<rparr>"

lemma enqueue_retransmit_buffer_ok:
  assumes "n = 8 * (1 + int (length (flits f)))" "length (flits f) \<le> MAX_SIZE_FLIT"
    "\<not> is_queue_full (retransmit_buffer e)"
  shows "enqueue_retransmit_buffer e f n =
    Inr (e\<lparr>retransmit_buffer :=
           fst (enqueue (retransmit_buffer e) (stored_element e f n TLOE_INIT))\<rparr>,
         stored_element e f n TLOE_INIT, True)"
proof -
  let ?k = "length (flits f)"
  have len: "nat n - 8 = 8 * ?k" using assms(1) by simp
  have z: "flits (zero_frame 528) = replicate 65 0" by (simp add: zero_frame_def)
  have "words_of_bytes (take (8 * ?k) (flit_bytes (flits f)) @
      drop (8 * ?k) (flit_bytes (replicate 65 0))) = flits f @ replicate (65 - ?k) 0"
    by (simp add: drop_flit_bytes take_flit_bytes words_of_flit_bytes_append)
  then have "enqueue_retransmit_buffer e f n =
      (case enqueue (retransmit_buffer e) (stored_element e f n TLOE_INIT) of
         (q, ok) \<Rightarrow> Inr (e\<lparr>retransmit_buffer := q\<rparr>, stored_element e f n TLOE_INIT, ok))"
    using assms(2)
    by (simp add: enqueue_retransmit_buffer_def sizeof_tloe_frame_def z len Let_def
        stored_element_def)
  then show ?thesis
    using assms(3) by (simp add: enqueue_def)
qed

lemma stored_element_simps [simp]:
  "(stored_element e f n st)\<lparr>rbe_state := st'\<rparr> = stored_element e f n st'"
  "header (rbe_frame (stored_element e f n st)) = header f"
  by (simp_all add: stored_element_def)

lemma enqueue_then_update:
  assumes "cq_inv q" "\<not> is_queue_full q"
  shows "cq_inv (cq_update (fst (enqueue q x)) (rear q) y)"
    "cq_list (cq_update (fst (enqueue q x)) (rear q) y) = cq_list q @ [y]"
proof -
  let ?q1 = "fst (enqueue q x)"
  have "rear q = cq_slot ?q1 (cq_count q)"
    using assms by (simp add: enqueue_count(2) cq_slot_count)
  moreover have "cq_count q < cq_count ?q1" using assms by (simp add: enqueue_count(1))
  ultimately show "cq_inv (cq_update ?q1 (rear q) y)"
    "cq_list (cq_update ?q1 (rear q) y) = cq_list q @ [y]"
    using cq_update_slot [OF enqueue_room(3) [OF assms, of x], of "cq_count q" y]
      enqueue_room(2) [OF assms, of x]
    by (simp_all add: list_update_append1 flip: length_cq_list)
qed

text \<open>The header of the frame \<open>f\<close> that \<open>TX\<close> builds: the next sequence number, the acknowledgement number of
  the oldest entry of the ack buffer, or of the last frame received in order, and a credit.\<close>

definition fresh_header :: "endpoint \<Rightarrow> tloe_frame \<Rightarrow> 3 word \<Rightarrow> 5 word \<Rightarrow> bool" where
  "fresh_header e f c n \<longleftrightarrow> header f = (normal_header e)\<lparr>
     seq_num_ack := (case cq_list (ack_buffer e) of
        [] \<Rightarrow> ucast (tloe_seqnum_prev (next_rx_seq e)) | g # _ \<Rightarrow> seq_num_ack (header g)),
     chan := c, credit := n\<rparr>"

text \<open>A normal frame is sent: it takes the next sequence number, an acknowledgement and credit if
  there are any, goes out on the wire and to the end of the retransmit buffer.\<close>

lemma tx_send_ok:
  assumes "ep_wf e" "\<not> is_queue_full (retransmit_buffer e)"
    and "\<And>m. req = Some m \<Longrightarrow> msg_ok m"
    and "target < CHANNEL_NUM" "target \<noteq> 0 \<Longrightarrow> tx_flow_credits (ep_fc e) ! target \<noteq> 0"
    and "rbe_alloc env" and "n = tloe_get_fsize req"
  obtains f g aq fc q where
    "tx_send env e target req ret = tx_out (e\<lparr>ack_buffer := aq, ep_fc := fc,
       wire := wire e @ sent e [frame_packet f n], retransmit_buffer := q,
       next_tx_seq := tloe_seqnum_next (next_tx_seq e)\<rparr>) ret"
    "ep_wf (e\<lparr>ack_buffer := aq, ep_fc := fc, wire := wire e @ sent e [frame_packet f n],
       retransmit_buffer := q,
       next_tx_seq := tloe_seqnum_next (next_tx_seq e)\<rparr>)"
    "cq_list q = cq_list (retransmit_buffer e) @ [stored_element e f n TLOE_SENT]"
    "prepare_normal_frame e (zero_frame n) req n = Inr g" "flits f = flits g"
    "ack (header f) = TLOE_ACK" "frame_type (header f) = TYPE_NORMAL"
    "seq_num (header f) = ucast (next_tx_seq e)" "cq_list aq = tl (cq_list (ack_buffer e))"
    "cq_cap aq = cq_cap (ack_buffer e)" "credits fc = credits (ep_fc e)" "unat (chan (header f)) < CHANNEL_NUM"
    "seq_num_ack (header f) \<in> set (tx_ack_numbers e)"
    "fresh_header e f (chan (header f)) (credit (header f))"
    "returns_credit (ep_fc e) target fc (chan (header f)) (credit (header f))"
proof -
  note wf = ep_wfD [OF assms(1)]
  have sz: "n mod 8 = 0" "56 \<le> n" "n \<le> 528" using fsize_ok [of req, OF assms(3)] assms(7) by auto
  obtain g where g: "prepare_normal_frame e (zero_frame n) req n = Inr g"
    "header g = normal_header e" "length (flits g) = nat ((n - 8) div 8)"
    using prepare_normal_frame_ok [OF assms(3,7)] by metis
  obtain aq a where a: "tx_take_ack e g =
      Inr (e\<lparr>ack_buffer := aq\<rparr>, g\<lparr>header := (header g)\<lparr>seq_num_ack := a\<rparr>\<rparr>, False)"
    "cq_inv aq" "cq_list aq = tl (cq_list (ack_buffer e))" "cq_cap aq = cq_cap (ack_buffer e)"
    "a = (case cq_list (ack_buffer e) of [] \<Rightarrow> seq_num_ack (header g)
          | g # _ \<Rightarrow> seq_num_ack (header g))"
    using tx_take_ack_ok [OF wf(4)] by metis
  have an: "a \<in> set (tx_ack_numbers e)"
    using a(5) g(2) by (auto simp: tx_ack_numbers_def normal_header_def split: list.splits)
  define e1 g1 where "e1 = e\<lparr>ack_buffer := aq\<rparr>" and
    "g1 = g\<lparr>header := (header g)\<lparr>seq_num_ack := a\<rparr>\<rparr>"
  have ch: "chan (header g1) = 0" "credit (header g1) = 0"
    by (simp_all add: g1_def g(2) normal_header_def header_of_zero_word)
  have fc1: "ep_fc e1 = ep_fc e" by (simp add: e1_def)
  obtain fc c k where c: "tx_put_credit e1 g1 target =
      Inr (e1\<lparr>ep_fc := fc\<rparr>, g1\<lparr>header := (header g1)\<lparr>chan := c, credit := k\<rparr>\<rparr>)"
    "fc_inv fc" "credits fc = credits (ep_fc e)" "unat c < 6" "returns_credit (ep_fc e) target fc c k"
    using tx_put_credit_ok [of e1 target g1, unfolded fc1, OF wf(12) assms(4,5) ch] by metis
  define e2 f where "e2 = e1\<lparr>ep_fc := fc\<rparr>" and
    "f = g1\<lparr>header := (header g1)\<lparr>chan := c, credit := k\<rparr>\<rparr>"
  have fl: "flits f = flits g" by (simp add: f_def g1_def)
  have hd: "ack (header f) = 1" "frame_type (header f) = 0"
    "seq_num (header f) = ucast (next_tx_seq e)" "unat (chan (header f)) < 6"
    using c(4) by (simp_all add: f_def g1_def g(2) normal_header_def header_of_zero_word)
  have fh: "fresh_header e f (chan (header f)) (credit (header f))"
    using a(5) g(2) by (auto simp: fresh_header_def f_def g1_def normal_header_def split: list.splits)
  have rc: "returns_credit (ep_fc e) target fc (chan (header f)) (credit (header f))"
    using c(5) by (simp add: f_def)
  have lenf: "n = 8 * (1 + int (length (flits f)))" "length (flits f) \<le> 65"
  proof -
    have "n = 8 * (n div 8)" using sz(1) by auto
    then have "n div 8 = (n - 8) div 8 + 1" "7 \<le> n div 8" "n div 8 \<le> 66" using sz by auto
    with \<open>n = 8 * (n div 8)\<close> show "n = 8 * (1 + int (length (flits f)))" "length (flits f) \<le> 65"
      using g(3) by (auto simp: fl)
  qed
  let ?el = "stored_element e f n"
  let ?q1 = "fst (enqueue (retransmit_buffer e) (?el TLOE_INIT))"
  define q where "q = cq_update ?q1 (rear (retransmit_buffer e)) (?el TLOE_SENT)"
  have st: "stored_element e2 f n = ?el"
    by (simp add: e2_def e1_def stored_element_def fun_eq_iff)
  have en: "enqueue_retransmit_buffer e2 f n =
      Inr (e2\<lparr>retransmit_buffer := ?q1\<rparr>, ?el TLOE_INIT, True)"
    using enqueue_retransmit_buffer_ok [of n f e2] lenf assms(2) unfolding st
    by (simp add: e2_def e1_def)
  have pk: "tloe_frame_to_packet 1500 f n = Inr (frame_packet f n)"
    using sz lenf by (intro frame_to_packet_ok) simp_all
  have rb2: "retransmit_buffer e2 = retransmit_buffer e" by (simp add: e2_def e1_def)
  let ?e' = "e\<lparr>ack_buffer := aq, ep_fc := fc, wire := wire e @ sent e [frame_packet f n],
       retransmit_buffer := q,
       next_tx_seq := tloe_seqnum_next (next_tx_seq e)\<rparr>"
  have run: "tx_send env e target req ret = tx_out ?e' ret"
    using sz assms(6) unfolding tx_send_def assms(7) [symmetric] Let_def g(1) bindR.simps a(1)
      prod.case e1_def [symmetric] g1_def [symmetric] c(1) e2_def [symmetric] f_def [symmetric]
      en send_request_normal_frame_def pk
    by (simp add: tloe_fabric_send_wire sent_def fabric_up_def e2_def e1_def q_def
        tloe_seqnum_next_tx_seq_inc_def)
  have lq: "cq_inv q" "cq_list q = cq_list (retransmit_buffer e) @ [?el TLOE_SENT]"
    unfolding q_def by (rule enqueue_then_update [OF wf(1) assms(2)])+
  have capq: "cq_cap q = 4" using wf(2) by (simp add: q_def)
  have "nat ((n - 8) div 8) = length (flits f)" using lenf(1) by simp
  then have nrm: "rbe_normal (?el TLOE_SENT)"
    using hd sz lenf by (simp add: rbe_normal_def rbe_ok_def stored_element_def)
  have sq: "rbe_seq (?el TLOE_SENT) = next_tx_seq e"
    using hd wf(9) by (simp add: frame_seq_def)
  have "ep_wf ?e'"
    using assms(1) lq capq nrm sq a(2) c(2) by (simp add: ep_wf_def chain_to_snoc)
  then show thesis
    using that [OF run _ lq(2) g(1) fl hd(1-3) a(3,4) c(3) hd(4) _ fh rc] an
    by (simp add: f_def g1_def)
qed

section \<open>What a buffered frame carries\<close>

text \<open>The mask tells whether the frame carries a message.  The message is read back from the
  first flit, unless the mask word lies on top of its last eight bytes.\<close>

definition carries :: "retransmit_element \<Rightarrow> tl_msg option \<Rightarrow> bool" where
  "carries el req =
     (case req of
        None \<Rightarrow> tloe_get_mask (rbe_frame el) (f_size el) = Inr 0
      | Some m \<Rightarrow>
          (let total = nat (tlmsg_get_total_size (tl_hdr m)); bs = take total (tlmsg_bytes m) in
           tloe_get_mask (rbe_frame el) (f_size el) = Inr 1 \<and>
           (8 \<le> total \<longrightarrow> total \<le> 40 \<longrightarrow>
              tloe_get_tlmsg (rbe_frame el) 0 = Inr (Block (tlmsg_of_bytes bs))) \<and>
           (48 \<le> total \<longrightarrow>
              tloe_get_tlmsg (rbe_frame el) 0 =
                Inr (Block (tlmsg_of_bytes (take (total - 8) bs @ le_bytes 1))))))"

lemma prepared_flits:
  assumes "prepare_normal_frame e (zero_frame n) req n = Inr g" "n = tloe_get_fsize req"
    and "\<And>m. req = Some m \<Longrightarrow> msg_ok m"
  obtains k where "n = 8 * (1 + int k)" "6 \<le> k" "k \<le> 65" "length (flits g) = k"
    "flit_bytes (flits g) = take (8 * (k - 1)) (case req of
        None \<Rightarrow> replicate (8 * k) 0
      | Some m \<Rightarrow> take (nat (tlmsg_get_total_size (tl_hdr m))) (tlmsg_bytes m) @
          replicate (8 * k - nat (tlmsg_get_total_size (tl_hdr m))) 0) @
      le_bytes (if req = None then 0 else 1)"
proof -
  have sz: "n mod 8 = 0" "56 \<le> n" "n \<le> 528" using fsize_ok [of req, OF assms(3)] assms(2) by auto
  define k where "k = nat ((n - 8) div 8)"
  have "n = 8 * (n div 8)" using sz(1) by auto
  then have n8: "(n - 8) div 8 = n div 8 - 1" "7 \<le> n div 8" "n div 8 \<le> 66" using sz by auto
  with \<open>n = 8 * (n div 8)\<close> have n: "n = 8 * (1 + int k)" "6 \<le> k" "k \<le> 65"
    by (simp_all add: k_def)
  define f2 where "f2 = (let f1 = tloe_seqnum_set_next_and_acked_seq (zero_frame n) e
      in f1\<lparr>header := (header f1)\<lparr>ack := 1\<rparr>\<rparr>)"
  have f2: "flits f2 = replicate k 0"
    by (simp add: f2_def zero_frame_def k_def tloe_seqnum_set_next_and_acked_seq_def
        tloe_seqnum_set_seq_num_ack_def tloe_seqnum_set_next_tx_seq_def)
  have z: "flit_bytes (replicate k 0) = replicate (8 * k) 0"
  proof -
    have "le_bytes 0 = replicate 8 0" by (simp add: le_bytes_def upt_rec numeral_eq_Suc)
    then show ?thesis by (induction k) (simp_all add: replicate_add [symmetric])
  qed
  have msk: "tloe_set_mask g v n = Inr (g\<lparr>flits := (flits g)[k - 1 := v]\<rparr>)"
    if "length (flits g) = k" for g v
    using set_mask_ok [of n g v] n that by (cases "flits g") auto
  have upd: "flit_bytes (fl[k - 1 := v]) = take (8 * (k - 1)) (flit_bytes fl) @ le_bytes v"
    if "length fl = k" for fl v
    using flit_bytes_last_update [of fl v] that n(2) by (cases fl) auto
  show thesis
  proof (cases req)
    case None
    then have "flits g = (flits f2)[k - 1 := 0]"
      using assms(1) msk [of f2 0] f2
      by (auto simp: prepare_normal_frame_def Let_def f2_def)
    then have "length (flits g) = k \<and>
        flit_bytes (flits g) = take (8 * (k - 1)) (replicate (8 * k) 0) @ le_bytes 0"
      using upd [of "flits f2" 0] by (simp add: f2 z)
    then show thesis using that [OF n] None by simp
  next
    case (Some m)
    then obtain g1 where g1: "tloe_set_tlmsg f2 m = Inr g1"
      using assms(1) by (auto simp: prepare_normal_frame_def Let_def f2_def bindR_Inr_iff)
    note b = set_tlmsg_bytes [OF g1]
    have "flits g = (flits g1)[k - 1 := 1]"
      using assms(1) Some g1 msk [of g1 1] b f2
      by (auto simp: prepare_normal_frame_def Let_def f2_def)
    then have "length (flits g) = k \<and> flit_bytes (flits g) =
        take (8 * (k - 1)) (take (nat (tlmsg_get_total_size (tl_hdr m))) (tlmsg_bytes m) @
          replicate (8 * k - nat (tlmsg_get_total_size (tl_hdr m))) 0) @ le_bytes 1"
      using upd [of "flits g1" 1] b f2 z by simp
    then show thesis using that [OF n] Some by simp
  qed
qed

lemma stored_carries:
  assumes "prepare_normal_frame e0 (zero_frame n) req n = Inr g" "n = tloe_get_fsize req"
    and "\<And>m. req = Some m \<Longrightarrow> msg_ok m" and "flits f = flits g"
  shows "carries (stored_element e f n st) req"
proof -
  obtain k where k: "n = 8 * (1 + int k)" "6 \<le> k" "k \<le> 65" "length (flits g) = k"
    and bytes: "flit_bytes (flits g) = take (8 * (k - 1)) (case req of
        None \<Rightarrow> replicate (8 * k) 0
      | Some m \<Rightarrow> take (nat (tlmsg_get_total_size (tl_hdr m))) (tlmsg_bytes m) @
          replicate (8 * k - nat (tlmsg_get_total_size (tl_hdr m))) 0) @
      le_bytes (if req = None then 0 else 1)"
    by (rule prepared_flits [OF assms(1-3)])
  let ?el = "stored_element e f n st"
  let ?v = "if req = None then 0 else 1 :: u64"
  have fl: "flits (rbe_frame ?el) = flits g @ replicate (65 - k) 0"
    by (simp add: stored_element_def assms(4) k(4))
  have "flits g ! (k - 1) = of_le_bytes (take 8 (drop (8 * (k - 1)) (flit_bytes (flits g))))"
    using k by (intro nth_flit_bytes) simp
  moreover have "8 * (k - 1) \<le> length (case req of
        None \<Rightarrow> replicate (8 * k) 0
      | Some m \<Rightarrow> take (nat (tlmsg_get_total_size (tl_hdr m))) (tlmsg_bytes m) @
          replicate (8 * k - nat (tlmsg_get_total_size (tl_hdr m))) 0)"
  proof -
    have "length (flit_bytes (flits g)) = 8 * k" using k by simp
    then show ?thesis unfolding bytes length_append length_le_bytes length_take by linarith
  qed
  ultimately have "flits g ! (k - 1) = ?v" by (simp add: bytes)
  then have msk: "tloe_get_mask (rbe_frame ?el) (f_size ?el) = Inr ?v"
    using k fl get_mask_ok [of "f_size ?el" k "rbe_frame ?el"]
    by (simp add: stored_element_def nth_append)
  show ?thesis
  proof (cases req)
    case None
    then show ?thesis using msk by (simp add: carries_def)
  next
    case (Some m)
    define t where "t = nat (tlmsg_get_total_size (tl_hdr m))"
    define bs where "bs = take t (tlmsg_bytes m)"
    have t: "t \<le> length (tlmsg_bytes m)" using assms(3) [OF Some] by (simp add: msg_ok_def t_def nat_le_iff)
    then have lbs: "length bs = t" by (simp add: bs_def)
    have nt: "n = (if 8 + int t < 56 then 56 else 8 + int t)"
      using assms(2) Some by (simp add: tloe_get_fsize_def Let_def t_def)
    have fb: "flit_bytes (flits g) =
        take (8 * (k - 1)) (bs @ replicate (8 * k - t) 0) @ le_bytes 1"
      using bytes Some by (simp add: t_def bs_def)
    have hdr: "tl_header_of_word (of_le_bytes (take 8 bs)) = tl_hdr m" if "8 \<le> t"
      using that by (simp add: bs_def tlmsg_bytes_def min_def)
    have small: "tloe_get_tlmsg (rbe_frame ?el) 0 = Inr (Block (tlmsg_of_bytes bs))"
      if "8 \<le> t" "t \<le> 40"
    proof -
      have "t \<le> 8 * (k - 1)" using that k(2) by linarith
      then have "drop (8 * 0) (flit_bytes (flits (rbe_frame ?el))) =
          bs @ (take (8 * (k - 1) - t) (replicate (8 * k - t) 0) @ le_bytes 1 @
                flit_bytes (replicate (65 - k) 0))"
        by (simp add: fl fb flit_bytes_append lbs)
      then show ?thesis
        by (rule get_tlmsg_bytes [where h = "tl_hdr m"]) (use that lbs hdr in \<open>simp_all add: t_def\<close>)
    qed
    have big: "tloe_get_tlmsg (rbe_frame ?el) 0 =
        Inr (Block (tlmsg_of_bytes (take (t - 8) bs @ le_bytes 1)))" if "48 \<le> t"
    proof -
      have "t = 8 * k" using nt k(1) that by simp
      then have "drop (8 * 0) (flit_bytes (flits (rbe_frame ?el))) =
          (take (t - 8) bs @ le_bytes 1) @ flit_bytes (replicate (65 - k) 0)"
        using lbs by (simp add: fl fb flit_bytes_append diff_mult_distrib2)
      then show ?thesis
        by (rule get_tlmsg_bytes [where h = "tl_hdr m"]) (use that lbs hdr in \<open>simp_all add: t_def\<close>)
    qed
    show ?thesis using msk small big Some by (simp add: carries_def t_def bs_def)
  qed
qed

section \<open>TX\<close>

text \<open>What \<open>TX\<close> leaves alone, and the packets it adds to the wire.\<close>

definition tx_frame :: "endpoint \<Rightarrow> endpoint \<Rightarrow> bool" where
  "tx_frame e e' \<longleftrightarrow>
     message_buffer e' = message_buffer e \<and> tl_msg_buffer e' = tl_msg_buffer e \<and>
     response_buffer e' = response_buffer e \<and> next_rx_seq e' = next_rx_seq e \<and>
     cq_cap (ack_buffer e') = cq_cap (ack_buffer e) \<and>
     acked_seq e' = acked_seq e \<and> iteration_ts e' = iteration_ts e \<and>
     ep_fabric e' = ep_fabric e \<and> connection e' = connection e \<and> master e' = master e \<and>
     is_done e' = is_done e \<and>
     (\<exists>ps. wire e' = wire e @ ps \<and> all_ack ps \<and> list_all (tx_packet e (window_keys e')) ps \<and>
       (overdue e \<longrightarrow> resent e (window_keys e) ps))"

definition env_ok :: "tx_env \<Rightarrow> bool" where
  "env_ok env \<longleftrightarrow> length (flits (stack_frame1 env)) = MAX_SIZE_FLIT \<and>
     length (flits (stack_frame2 env)) = MAX_SIZE_FLIT"

text \<open>No frame was added to the retransmit buffer; or one was, with the next sequence number.\<close>

definition tx_idle :: "endpoint \<Rightarrow> endpoint \<Rightarrow> bool" where
  "tx_idle e e' \<longleftrightarrow> next_tx_seq e' = next_tx_seq e \<and>
     window_keys e' = window_keys e \<and> cq_list (ack_buffer e') = cq_list (ack_buffer e) \<and> ep_fc e' = ep_fc e"

definition tx_sent :: "endpoint \<Rightarrow> endpoint \<Rightarrow> tl_msg option \<Rightarrow> bool" where
  "tx_sent e e' req \<longleftrightarrow> next_tx_seq e' = tloe_seqnum_next (next_tx_seq e) \<and>
     cq_list (ack_buffer e') = tl (cq_list (ack_buffer e)) \<and>
     (\<exists>el. window_keys e' = window_keys e @ [rbe_key el] \<and> rbe_seq el = next_tx_seq e \<and> carries el req \<and>
           (fabric_up e \<longrightarrow> frame_packet (rbe_frame el) (f_size el) \<in> set (wire e')))"

lemma tx_ackonly_requested_ok:
  assumes "env_ok env"
  obtains ps where
    "tx_ackonly_requested env e =
       Inr (e\<lparr>wire := wire e @ ps, should_send_ackonly_frame := False\<rparr>)"
    "list_all (ackonly_packet (next_rx_seq e)) ps"
proof (cases "should_send_ackonly_frame e")
  case True
  obtain p where p: "send_ackonly_frame e (stack_frame1 env) = Inr (tloe_fabric_send e p)"
    "ackonly_packet (next_rx_seq e) p"
    using send_ackonly_frame_eq [of "stack_frame1 env" e] assms
    by (auto simp: env_ok_def ackonly_packet_def)
  then have "list_all (ackonly_packet (next_rx_seq e)) (sent e [p])" by (intro list_all_sent) simp
  with p True show thesis
    by (intro that [where ps = "sent e [p]"]) (simp_all add: tx_ackonly_requested_def tloe_fabric_send_wire)
next
  case False
  then show thesis by (intro that [where ps = "[]"]) (simp_all add: tx_ackonly_requested_def)
qed

lemma tx_ackonly_full_ok:
  assumes "env_ok env" "ep_wf e"
  obtains b ps n where
    "tx_ackonly_full env e =
       Inr (e\<lparr>ackonly_frame_sent := b, wire := wire e @ ps, ackonly_cnt := n\<rparr>)"
    "list_all (ackonly_packet (next_rx_seq e)) ps"
proof -
  have same: "e = e\<lparr>ackonly_frame_sent := ackonly_frame_sent e, wire := wire e @ [],
      ackonly_cnt := ackonly_cnt e\<rparr>"
    by simp
  show thesis
  proof (cases "is_queue_full (retransmit_buffer e) \<and> \<not> ackonly_frame_sent e")
    case True
    then obtain x xs where "cq_list (retransmit_buffer e) = x # xs"
      using ep_wfD(1,2) [OF assms(2)]
      by (cases "cq_list (retransmit_buffer e)") (auto simp: is_queue_full_iff)
    then have fr: "getfront (retransmit_buffer e) = Some x"
      using ep_wfD(1) [OF assms(2)] by (simp add: getfront_eq)
    show thesis
    proof (cases "is_timeout_tx_half (iteration_ts e) (send_time x)")
      case half: True
      let ?e = "e\<lparr>ackonly_frame_sent := True\<rparr>"
      obtain p where p: "send_ackonly_frame ?e (stack_frame2 env) = Inr (tloe_fabric_send ?e p)"
        "ackonly_packet (next_rx_seq e) p"
        using send_ackonly_frame_eq [of "stack_frame2 env" ?e] assms(1)
        by (auto simp: env_ok_def ackonly_packet_def)
      then have "list_all (ackonly_packet (next_rx_seq e)) (sent e [p])" by (intro list_all_sent) simp
      with p True half fr show thesis
        by (intro that [where b = True and ps = "sent e [p]" and n = "ackonly_cnt e + 1"])
          (simp_all add: tx_ackonly_full_def tloe_fabric_send_wire sent_def fabric_up_def)
    next
      case False
      with True fr have "tx_ackonly_full env e = Inr e" by (simp add: tx_ackonly_full_def)
      then show thesis using that [OF _ list_all_Nil] same by metis
    qed
  next
    case False
    then have "tx_ackonly_full env e = Inr e" by (auto simp: tx_ackonly_full_def)
    then show thesis using that [OF _ list_all_Nil] same by metis
  qed
qed

text \<open>The endpoint after the two stand-alone acknowledgements.\<close>

definition acked :: "endpoint \<Rightarrow> endpoint \<Rightarrow> bool" where
  "acked e e1 \<longleftrightarrow> (\<exists>b s ps n. list_all (ackonly_packet (next_rx_seq e)) ps \<and>
     e1 = e\<lparr>wire := wire e @ ps, should_send_ackonly_frame := s, ackonly_frame_sent := b,
            ackonly_cnt := n\<rparr>)"

lemma tx_acks_ok:
  assumes "env_ok env" "ep_wf e"
  obtains e1 where
    "bindR (tx_ackonly_requested env e) (tx_ackonly_full env) = Inr e1" "acked e e1" "ep_wf e1"
proof -
  obtain ps where ps: "tx_ackonly_requested env e =
      Inr (e\<lparr>wire := wire e @ ps, should_send_ackonly_frame := False\<rparr>)"
    "list_all (ackonly_packet (next_rx_seq e)) ps"
    using tx_ackonly_requested_ok [OF assms(1)] by metis
  let ?e = "e\<lparr>wire := wire e @ ps, should_send_ackonly_frame := False\<rparr>"
  have wf: "ep_wf ?e" using assms(2) by (simp add: ep_wf_def)
  obtain b ps' n where b: "tx_ackonly_full env ?e =
      Inr (?e\<lparr>ackonly_frame_sent := b, wire := wire ?e @ ps', ackonly_cnt := n\<rparr>)"
    "list_all (ackonly_packet (next_rx_seq ?e)) ps'"
    using tx_ackonly_full_ok [OF assms(1) wf] by metis
  let ?e1 = "?e\<lparr>ackonly_frame_sent := b, wire := wire ?e @ ps', ackonly_cnt := n\<rparr>"
  have "acked e ?e1" unfolding acked_def
    by (rule exI [of _ b], rule exI [of _ False], rule exI [of _ "ps @ ps'"], rule exI [of _ n])
      (use ps(2) b(2) in simp)
  moreover have "ep_wf ?e1" using wf by (simp add: ep_wf_def)
  ultimately show thesis using ps(1) b(1) by (intro that [of ?e1]) simp_all
qed

lemma acked_packets:
  assumes "acked e e1"
  shows "tx_packet e1 = tx_packet e"
  using assms by (intro tx_packet_cong) (auto simp: acked_def)

lemma acked_frame:
  assumes "acked e e1" "tx_frame e1 e2"
  shows "tx_frame e e2"
proof -
  obtain ps where e1: "wire e1 = wire e @ ps" "list_all (ackonly_packet (next_rx_seq e)) ps"
    using assms(1) by (auto simp: acked_def)
  obtain qs where e2: "wire e2 = wire e1 @ qs" "all_ack qs"
    "list_all (tx_packet e1 (window_keys e2)) qs" "overdue e1 \<longrightarrow> resent e1 (window_keys e1) qs"
    using assms(2) by (auto simp: tx_frame_def)
  have "list_all (tx_packet e (window_keys e2)) ps" using e1(2) by (auto simp: tx_packet_def list_all_iff)
  moreover have "overdue e1 = overdue e" "next_rx_seq e1 = next_rx_seq e" "window_keys e1 = window_keys e"
    using assms(1) by (auto simp: acked_def fabric_up_def window_keys_def overdue_def)
  then have "overdue e \<longrightarrow> resent e (window_keys e) (ps @ qs)"
    using e2(4) resent_mono [of e1 "window_keys e1" qs e] by simp
  ultimately have "wire e2 = wire e @ (ps @ qs) \<and> all_ack (ps @ qs) \<and>
      list_all (tx_packet e (window_keys e2)) (ps @ qs) \<and>
      (overdue e \<longrightarrow> resent e (window_keys e) (ps @ qs))"
    using e1 e2(1-3) all_ack_ackonly [OF e1(2)] acked_packets [OF assms(1)] by simp
  then have new: "\<exists>ps. wire e2 = wire e @ ps \<and> all_ack ps \<and> list_all (tx_packet e (window_keys e2)) ps \<and>
      (overdue e \<longrightarrow> resent e (window_keys e) ps)" by (rule exI)
  obtain b s qs n where r: "e1 = e\<lparr>wire := wire e @ qs, should_send_ackonly_frame := s,
      ackonly_frame_sent := b, ackonly_cnt := n\<rparr>"
    using assms(1) unfolding acked_def by blast
  have same: "message_buffer e1 = message_buffer e" "tl_msg_buffer e1 = tl_msg_buffer e"
    "response_buffer e1 = response_buffer e" "ack_buffer e1 = ack_buffer e" "acked_seq e1 = acked_seq e"
    "next_rx_seq e1 = next_rx_seq e" "iteration_ts e1 = iteration_ts e" "ep_fabric e1 = ep_fabric e"
    "connection e1 = connection e" "master e1 = master e" "is_done e1 = is_done e"
    by (simp_all add: r)
  from assms(2) show ?thesis unfolding tx_frame_def same by (elim conjE) (intro conjI new)
qed

lemma acked_idle: "acked e e1 \<Longrightarrow> tx_idle e1 e2 \<Longrightarrow> tx_idle e e2"
  by (auto simp: acked_def tx_idle_def window_keys_def)

lemma acked_sent: "acked e e1 \<Longrightarrow> tx_sent e1 e2 req \<Longrightarrow> tx_sent e e2 req"
  by (auto simp: acked_def tx_sent_def window_keys_def fabric_up_def)

text \<open>What \<open>tx_out\<close> changes: the resent packets on the wire and the marks of the window.\<close>

lemma tx_out_idle:
  assumes "ep_wf e"
  obtains e' ps where "tx_out e r = Inr (e', r)" "ep_wf e'" "tx_frame e e'" "tx_idle e e'"
    "wire e' = wire e @ ps"
    "\<And>P. list_all P (map (resend_packet e) (cq_list (retransmit_buffer e))) \<Longrightarrow> list_all P ps"
    "overdue e \<Longrightarrow> resent e (window_keys e) ps"
proof -
  obtain q ps where o: "tx_out e r = Inr (e\<lparr>wire := wire e @ ps, retransmit_buffer := q\<rparr>, r)"
    "ep_wf (e\<lparr>wire := wire e @ ps, retransmit_buffer := q\<rparr>)" "all_ack ps"
    "map rbe_key (cq_list q) = map rbe_key (cq_list (retransmit_buffer e))"
    "\<And>P. list_all P (map (resend_packet e) (cq_list (retransmit_buffer e))) \<Longrightarrow> list_all P ps"
    "overdue e \<Longrightarrow> resent e (window_keys e) ps"
    using tx_out_ok [OF assms] by metis
  let ?e = "e\<lparr>wire := wire e @ ps, retransmit_buffer := q\<rparr>"
  have idle: "tx_idle e ?e" using o(4) by (simp add: tx_idle_def window_keys_def)
  then have "list_all (tx_packet e (window_keys ?e)) ps"
    by (intro o(5)) (auto simp: list_all_iff tx_idle_def tx_packet_resend)
  then have "tx_frame e ?e" using o(3,6) by (simp add: tx_frame_def)
  then show thesis using o idle by (intro that [of ?e ps]) simp_all
qed

lemma frame_packet_stored:
  assumes "n = 8 * (1 + int (length (flits f)))"
  shows "frame_packet (rbe_frame (stored_element e f n st)) n = frame_packet f n"
  using assms by (simp add: frame_packet_def stored_element_def flit_bytes_append)

lemma tx_send_sent:
  assumes "ep_wf e" "\<not> is_queue_full (retransmit_buffer e)"
    and "\<And>m. req = Some m \<Longrightarrow> msg_ok m" "rbe_alloc env"
    and "target < CHANNEL_NUM" "target \<noteq> 0 \<Longrightarrow> tx_flow_credits (ep_fc e) ! target \<noteq> 0"
  obtains e' where "tx_send env e target req r = Inr (e', r)" "ep_wf e'" "tx_frame e e'"
    "tx_sent e e' req" "credits (ep_fc e') = credits (ep_fc e)"
proof -
  define n where "n = tloe_get_fsize req"
  obtain f g aq fc q where s:
    "tx_send env e target req r = tx_out (e\<lparr>ack_buffer := aq, ep_fc := fc,
       wire := wire e @ sent e [frame_packet f n], retransmit_buffer := q,
       next_tx_seq := tloe_seqnum_next (next_tx_seq e)\<rparr>) r"
    "ep_wf (e\<lparr>ack_buffer := aq, ep_fc := fc, wire := wire e @ sent e [frame_packet f n],
       retransmit_buffer := q, next_tx_seq := tloe_seqnum_next (next_tx_seq e)\<rparr>)"
    "cq_list q = cq_list (retransmit_buffer e) @ [stored_element e f n TLOE_SENT]"
    "prepare_normal_frame e (zero_frame n) req n = Inr g" "flits f = flits g"
    "ack (header f) = TLOE_ACK" "seq_num (header f) = ucast (next_tx_seq e)"
    "cq_list aq = tl (cq_list (ack_buffer e))" "credits fc = credits (ep_fc e)"
    "cq_cap aq = cq_cap (ack_buffer e)" "seq_num_ack (header f) \<in> set (tx_ack_numbers e)"
    by (rule tx_send_ok [OF assms(1-3,5,6,4) n_def, where ret = r])
  let ?e = "e\<lparr>ack_buffer := aq, ep_fc := fc, wire := wire e @ sent e [frame_packet f n],
       retransmit_buffer := q, next_tx_seq := tloe_seqnum_next (next_tx_seq e)\<rparr>"
  let ?el = "stored_element e f n TLOE_SENT"
  have el: "carries ?el req" by (rule stored_carries [OF s(4) n_def assms(3) s(5)])
  obtain e' ps where o: "tx_out ?e r = Inr (e', r)" "ep_wf e'" "tx_frame ?e e'" "tx_idle ?e e'"
    "wire e' = wire ?e @ ps"
    "\<And>P. list_all P (map (resend_packet ?e) (cq_list (retransmit_buffer ?e))) \<Longrightarrow> list_all P ps"
    "overdue ?e \<Longrightarrow> resent ?e (window_keys ?e) ps"
    using tx_out_idle [OF s(2)] by metis
  have keys: "window_keys e' = window_keys e @ [rbe_key ?el]"
    using o(4) s(3) by (simp add: tx_idle_def window_keys_def)
  have seq: "rbe_seq ?el = next_tx_seq e" using s(7) ep_wfD(9) [OF assms(1)] by (simp add: frame_seq_def)
  obtain k where "n = 8 * (1 + int k)" "length (flits g) = k"
    using prepared_flits [OF s(4) n_def assms(3)] by metis
  then have len: "n = 8 * (1 + int (length (flits f)))" unfolding s(5) by simp
  note pk = frame_packet_stored [OF len, of e TLOE_SENT]
  have wire: "frame_packet (rbe_frame ?el) (f_size ?el) \<in> set (wire e')" if "fabric_up e"
    using o(5) pk that by (auto simp: sent_def stored_element_def)
  have fr: "tx_frame e e'"
  proof -
    have ak: "all_ack (sent e [frame_packet f n])" by (rule all_ack_sent) (simp add: s(6))
    have kk: "window_keys ?e = window_keys e'" using o(4) by (simp add: tx_idle_def)
    have "frame_packet f n = frame_packet (with_ack (rbe_frame ?el) (seq_num_ack (header f))) n"
      using pk by (simp add: with_ack_same)
    moreover have "(n, rbe_frame ?el) \<in> set (window_keys e')"
      unfolding keys by (simp add: rbe_key_def stored_element_def)
    ultimately have "tx_packet e (window_keys e') (frame_packet f n)"
      using s(11) unfolding tx_packet_def by blast
    then have "list_all (tx_packet e (window_keys e')) (sent e [frame_packet f n])"
      by (intro list_all_sent) simp
    moreover have "tx_packet e (window_keys e') (resend_packet ?e el)"
      if "el \<in> set (cq_list (retransmit_buffer ?e))" for el
    proof -
      have "resend_packet ?e el = frame_packet (with_ack (rbe_frame el)
          (ucast (tloe_seqnum_prev (next_rx_seq e)))) (f_size el)"
        by (simp add: resend_packet_def tloe_seqnum_set_seq_num_ack_def with_ack_def)
      moreover have "(f_size el, rbe_frame el) \<in> set (window_keys e')"
        using that unfolding kk [symmetric] by (auto simp: window_keys_def rbe_key_def)
      ultimately show ?thesis by (auto simp: tx_packet_def tx_ack_numbers_def)
    qed
    then have "list_all (tx_packet e (window_keys e')) ps" by (intro o(6)) (simp add: list_all_iff)
    moreover have "all_ack ps"
      by (rule all_ackI, rule o(6)) (use ep_wfD(7) [OF s(2)] in \<open>auto simp: list_all_iff rbe_normal_def\<close>)
    moreover have "resent e (window_keys e) (sent e [frame_packet f n] @ ps)" if od: "overdue e"
    proof -
      obtain el where "getfront (retransmit_buffer e) = Some el" using od by (auto simp: overdue_def)
      then have "getfront q = getfront (retransmit_buffer e)"
        using getfront_eq [OF ep_wfD(1) [OF assms(1)]] getfront_eq [OF ep_wfD(1) [OF s(2)]] s(3)
        by (cases "cq_list (retransmit_buffer e)") auto
      then have "overdue ?e" using od by (simp add: overdue_def fabric_up_def)
      then show ?thesis
        by (rule resent_mono [OF o(7)]) (auto simp: window_keys_def s(3))
    qed
    ultimately have "wire e' = wire e @ (sent e [frame_packet f n] @ ps) \<and>
        all_ack (sent e [frame_packet f n] @ ps) \<and>
        list_all (tx_packet e (window_keys e')) (sent e [frame_packet f n] @ ps) \<and>
        (overdue e \<longrightarrow> resent e (window_keys e) (sent e [frame_packet f n] @ ps))"
      using o(5) ak by simp
    then show ?thesis using o(3) s(10) unfolding tx_frame_def by auto
  qed
  have "next_tx_seq e' = tloe_seqnum_next (next_tx_seq e)"
    "cq_list (ack_buffer e') = tl (cq_list (ack_buffer e))"
    using o(4) s(8) by (simp_all add: tx_idle_def)
  then have "tx_sent e e' req"
    unfolding tx_sent_def using keys seq el wire by blast
  moreover have "credits (ep_fc e') = credits (ep_fc e)" using o(4) s(9) by (simp add: tx_idle_def)
  ultimately show thesis using s(1) o(1,2) fr by (intro that [of e']) simp_all
qed

text \<open>The outcome of \<open>TX\<close>, case by case: which frame was sent, if any, and which message goes
  back to the caller.\<close>

definition tx_result :: "endpoint \<Rightarrow> tl_msg option \<Rightarrow> endpoint \<Rightarrow> tl_msg option \<Rightarrow> bool" where
  "tx_result e req e' r =
     (if is_queue_full (retransmit_buffer e) then tx_idle e e' \<and> r = req
      else case req of
        None \<Rightarrow>
          if is_queue_empty (ack_buffer e) \<and> select_max_credit_channel (ep_fc e) = 0
          then tx_idle e e' \<and> r = None
          else tx_sent e e' None \<and> r = None \<and> credits (ep_fc e') = credits (ep_fc e)
      | Some m \<Rightarrow>
          (case fc_credit_dec (ep_fc e) m of
             Inl _ \<Rightarrow> False
           | Inr (fc, c) \<Rightarrow>
               if c \<noteq> -1 then tx_sent e e' req \<and> r = None \<and> credits (ep_fc e') = credits fc
               else if \<not> is_queue_empty (ack_buffer e)
               then tx_sent e e' None \<and> r = req \<and> credits (ep_fc e') = credits (ep_fc e)
               else tx_idle e e' \<and> r = req))"

lemma tx_sent_fc: "tx_sent (e\<lparr>ep_fc := fc\<rparr>) e' req = tx_sent e e' req"
  by (simp add: tx_sent_def window_keys_def fabric_up_def)

lemma tx_frame_fc: "tx_frame (e\<lparr>ep_fc := fc\<rparr>) e' = tx_frame e e'"
  using tx_packet_cong [of "e\<lparr>ep_fc := fc\<rparr>" e] overdue_cong [of "e\<lparr>ep_fc := fc\<rparr>" e]
  by (simp add: tx_frame_def fabric_up_def resent_def window_keys_def)

text \<open>The part of \<open>TX\<close> after the stand-alone acknowledgements.\<close>

definition tx_main :: "tx_env \<Rightarrow> nat \<Rightarrow> endpoint \<Rightarrow> tl_msg option
    \<Rightarrow> (endpoint \<times> tl_msg option) result" where
  "tx_main env target e request =
     (if is_queue_full (retransmit_buffer e) then tx_out e request
      else if request = None \<and> is_queue_empty (ack_buffer e) \<and> target = 0 then tx_out e None
      else case request of
             None \<Rightarrow> tx_send env e target None None
           | Some m \<Rightarrow>
               bindR (fc_credit_dec (ep_fc e) m) (\<lambda>(fc, n).
               let e = e\<lparr>ep_fc := fc\<rparr> in
               if n \<noteq> -1 then tx_send env e target (Some m) None
               else if \<not> is_queue_empty (ack_buffer e) then tx_send env e target None (Some m)
               else tx_out e (Some m)))"

lemma TX_main:
  "TX env e req = bindR (bindR (tx_ackonly_requested env e) (tx_ackonly_full env))
     (\<lambda>e1. tx_main env (select_max_credit_channel (ep_fc e)) e1 req)"
  by (simp add: TX_def tx_main_def bindR_assoc Let_def)

lemma tx_main_ok:
  assumes "ep_wf e" "rbe_alloc env" and req: "\<And>m. req = Some m \<Longrightarrow> msg_ok m"
    and "target = select_max_credit_channel (ep_fc e)"
  obtains e' r where "tx_main env target e req = Inr (e', r)" "ep_wf e'" "tx_frame e e'"
    "tx_result e req e' r"
proof -
  have tgt: "target < CHANNEL_NUM" "target \<noteq> 0 \<Longrightarrow> tx_flow_credits (ep_fc e) ! target \<noteq> 0"
    using select_max_spec(1,3) [of "ep_fc e"] by (auto simp: assms(4))
  have idle: "\<exists>e'. tx_out e r = Inr (e', r) \<and> ep_wf e' \<and> tx_frame e e' \<and> tx_idle e e'" for r
    using tx_out_idle [OF assms(1)] by metis
  have send: "\<exists>e'. tx_send env (e\<lparr>ep_fc := fc\<rparr>) target rq r = Inr (e', r) \<and> ep_wf e' \<and>
      tx_frame e e' \<and> tx_sent e e' rq \<and> credits (ep_fc e') = credits fc"
    if "\<not> is_queue_full (retransmit_buffer e)" "\<And>m. rq = Some m \<Longrightarrow> msg_ok m"
      "fc_inv fc" "tx_flow_credits fc = tx_flow_credits (ep_fc e)" for rq r fc
  proof -
    have "ep_wf (e\<lparr>ep_fc := fc\<rparr>)" using assms(1) that(3) by (simp add: ep_wf_def)
    then show ?thesis
      using tx_send_sent [of "e\<lparr>ep_fc := fc\<rparr>" rq env target r] that assms(2) tgt
      by (simp add: tx_sent_fc tx_frame_fc) metis
  qed
  have send0: "\<exists>e'. tx_send env e target rq r = Inr (e', r) \<and> ep_wf e' \<and>
      tx_frame e e' \<and> tx_sent e e' rq \<and> credits (ep_fc e') = credits (ep_fc e)"
    if "\<not> is_queue_full (retransmit_buffer e)" "\<And>m. rq = Some m \<Longrightarrow> msg_ok m" for rq r
    using send [of rq "ep_fc e" r] that ep_wfD(12) [OF assms(1)] by simp
  have "\<exists>e' r. tx_main env target e req = Inr (e', r) \<and> ep_wf e' \<and> tx_frame e e' \<and>
      tx_result e req e' r"
  proof (cases "is_queue_full (retransmit_buffer e)")
    case True
    then show ?thesis using idle [of req] by (auto simp: tx_main_def tx_result_def)
  next
    case room: False
    show ?thesis
    proof (cases req)
      case None
      then show ?thesis using room idle [of None] send0 [of None None]
        by (auto simp: tx_main_def tx_result_def assms(4))
    next
      case (Some m)
      obtain fc c where d: "fc_credit_dec (ep_fc e) m = Inr (fc, c)"
        using fc_credit_dec_ok [of m "ep_fc e"] req [OF Some] by (auto simp: msg_ok_def)
      note inv = fc_credit_dec_inv [OF ep_wfD(12) [OF assms(1)] d]
      show ?thesis
      proof (cases "c = -1")
        case False
        then show ?thesis using room Some d send [of req fc None] inv req
          by (auto simp: tx_main_def tx_result_def Let_def)
      next
        case True
        then have "fc = ep_fc e" using d fc_credit_dec_refused by metis
        then show ?thesis
          using room Some d True send0 [of None req] idle [of req]
          by (auto simp: tx_main_def tx_result_def Let_def)
      qed
    qed
  qed
  then show thesis using that by blast
qed

lemma acked_result:
  assumes "acked e e1"
  shows "tx_result e1 req e' r = tx_result e req e' r"
proof -
  have same: "retransmit_buffer e1 = retransmit_buffer e" "ack_buffer e1 = ack_buffer e"
    "ep_fc e1 = ep_fc e" "next_tx_seq e1 = next_tx_seq e" "ep_fabric e1 = ep_fabric e"
    using assms by (auto simp: acked_def)
  have "tx_idle e1 e' = tx_idle e e'" "tx_sent e1 e' q = tx_sent e e' q" for q
    by (simp_all add: tx_idle_def tx_sent_def window_keys_def fabric_up_def same)
  then show ?thesis by (simp only: tx_result_def same)
qed

lemma TX_ok:
  assumes "env_ok env" "rbe_alloc env" "ep_wf e" "\<And>m. req = Some m \<Longrightarrow> msg_ok m"
  obtains e' r where "TX env e req = Inr (e', r)" "ep_wf e'" "tx_frame e e'" "tx_result e req e' r"
proof -
  obtain e1 where e1: "bindR (tx_ackonly_requested env e) (tx_ackonly_full env) = Inr e1"
    "acked e e1" "ep_wf e1"
    using tx_acks_ok [OF assms(1,3)] by metis
  have "ep_fc e1 = ep_fc e" using e1(2) by (auto simp: acked_def)
  then obtain e' r where "tx_main env (select_max_credit_channel (ep_fc e)) e1 req = Inr (e', r)"
    "ep_wf e'" "tx_frame e1 e'" "tx_result e1 req e' r"
    using tx_main_ok [OF e1(3) assms(2,4)] by metis
  then show thesis
    using that [of e' r] e1 acked_frame [OF e1(2)] acked_result [OF e1(2)] by (simp add: TX_main)
qed

text \<open>When there is no memory for the retransmit buffer element, the frame is not sent, but the
  acknowledgement and the credit that were taken for it are gone.\<close>

definition tx_dropped :: "endpoint \<Rightarrow> endpoint \<Rightarrow> bool" where
  "tx_dropped e e' \<longleftrightarrow> window_keys e' = window_keys e \<and> next_tx_seq e' = next_tx_seq e \<and>
     cq_list (ack_buffer e') = tl (cq_list (ack_buffer e))"

lemma tx_send_no_memory:
  assumes "ep_wf e" "\<And>m. req = Some m \<Longrightarrow> msg_ok m" "\<not> rbe_alloc env"
    and "target < CHANNEL_NUM" "target \<noteq> 0 \<Longrightarrow> tx_flow_credits (ep_fc e) ! target \<noteq> 0"
  obtains e' where "tx_send env e target req ret = Inr (e', req)" "tx_dropped e e'"
    "credits (ep_fc e') = credits (ep_fc e)"
proof -
  note wf = ep_wfD [OF assms(1)]
  define n where "n = tloe_get_fsize req"
  have sz: "56 \<le> n" using fsize_ok(2) [of req, OF assms(2)] by (simp add: n_def)
  obtain g where g: "prepare_normal_frame e (zero_frame n) req n = Inr g"
    "header g = normal_header e"
    using prepare_normal_frame_ok [OF assms(2) n_def] by metis
  obtain aq a where a: "tx_take_ack e g =
      Inr (e\<lparr>ack_buffer := aq\<rparr>, g\<lparr>header := (header g)\<lparr>seq_num_ack := a\<rparr>\<rparr>, False)"
    "cq_inv aq" "cq_list aq = tl (cq_list (ack_buffer e))" "cq_cap aq = cq_cap (ack_buffer e)"
    using tx_take_ack_ok [OF wf(4)] by metis
  define e1 g1 where "e1 = e\<lparr>ack_buffer := aq\<rparr>" and
    "g1 = g\<lparr>header := (header g)\<lparr>seq_num_ack := a\<rparr>\<rparr>"
  have ch: "chan (header g1) = 0" "credit (header g1) = 0"
    by (simp_all add: g1_def g(2) normal_header_def header_of_zero_word)
  have fc1: "ep_fc e1 = ep_fc e" by (simp add: e1_def)
  obtain fc c k where c: "tx_put_credit e1 g1 target =
      Inr (e1\<lparr>ep_fc := fc\<rparr>, g1\<lparr>header := (header g1)\<lparr>chan := c, credit := k\<rparr>\<rparr>)"
    "fc_inv fc" "credits fc = credits (ep_fc e)"
    using tx_put_credit_ok [of e1 target g1, unfolded fc1, OF wf(12) assms(4,5) ch] by metis
  let ?e2 = "e1\<lparr>ep_fc := fc\<rparr>"
  have "ep_wf ?e2" using assms(1) a(2) c(2) by (simp add: ep_wf_def e1_def)
  then obtain e' where o: "tx_out ?e2 req = Inr (e', req)" "tx_idle ?e2 e'"
    using tx_out_idle by metis
  have "tx_send env e target req ret = tx_out ?e2 req"
    using sz assms(3) unfolding tx_send_def n_def [symmetric] Let_def g(1) bindR.simps a(1)
      prod.case e1_def [symmetric] g1_def [symmetric] c(1) by simp
  moreover have "tx_dropped e e'" "credits (ep_fc e') = credits (ep_fc e)"
    using o(2) a(3) c(3) by (simp_all add: tx_dropped_def tx_idle_def window_keys_def e1_def)
  ultimately show thesis using o(1) by (intro that [of e']) simp_all
qed

lemma TX_no_memory:
  assumes "env_ok env" "\<not> rbe_alloc env" "ep_wf e" "msg_ok m"
    and "\<not> is_queue_full (retransmit_buffer e)"
    and "fc_credit_dec (ep_fc e) m = Inr (fc, c)" "c \<noteq> -1 \<or> \<not> is_queue_empty (ack_buffer e)"
  obtains e' where "TX env e (Some m) = Inr (e', if c \<noteq> -1 then Some m else None)"
    "tx_dropped e e'" "credits (ep_fc e') = credits fc"
proof -
  obtain e1 where e1: "bindR (tx_ackonly_requested env e) (tx_ackonly_full env) = Inr e1"
    "acked e e1" "ep_wf e1"
    using tx_acks_ok [OF assms(1,3)] by metis
  have same: "retransmit_buffer e1 = retransmit_buffer e" "ack_buffer e1 = ack_buffer e"
    "ep_fc e1 = ep_fc e" "next_tx_seq e1 = next_tx_seq e"
    using e1(2) by (auto simp: acked_def)
  define target where "target = select_max_credit_channel (ep_fc e)"
  have tgt: "target < CHANNEL_NUM" "target \<noteq> 0 \<Longrightarrow> tx_flow_credits (ep_fc e) ! target \<noteq> 0"
    using select_max_spec(1,3) [of "ep_fc e"] by (auto simp: target_def)
  note inv = fc_credit_dec_inv [OF ep_wfD(12) [OF assms(3)] assms(6)]
  have run: "TX env e (Some m) = tx_main env target e1 (Some m)"
    using e1(1) by (simp add: TX_main target_def)
  let ?req = "if c \<noteq> -1 then Some m else None"
  let ?e = "e1\<lparr>ep_fc := fc\<rparr>"
  have wf: "ep_wf ?e" using e1(3) inv(1) by (simp add: ep_wf_def)
  have ok: "\<And>m'. ?req = Some m' \<Longrightarrow> msg_ok m'" using assms(4) by (auto split: if_splits)
  have fc: "ep_fc ?e = fc" by simp
  obtain e' where e': "tx_send env ?e target ?req (if c \<noteq> -1 then None else Some m) =
      Inr (e', ?req)" "tx_dropped ?e e'" "credits (ep_fc e') = credits fc"
    by (rule tx_send_no_memory [OF wf ok assms(2) tgt(1),
          where ret = "if c \<noteq> -1 then None else Some m"])
      (use tgt(2) inv(3) in \<open>simp_all add: fc\<close>)
  have "TX env e (Some m) = Inr (e', ?req)"
    using run e'(1) assms(5-7) by (cases "c = -1") (simp_all add: tx_main_def same)
  moreover have "tx_dropped e e'" using e'(2) by (simp add: tx_dropped_def window_keys_def same)
  ultimately show thesis using that [of e'] e'(3) by simp
qed

section \<open>Messages that are too large\<close>

lemma header_of_prepared:
  assumes "prepare_normal_frame e (zero_frame n) req n = Inr g"
  shows "header g = normal_header e"
proof -
  have "(normal_header e)\<lparr>chan := 0, credit := 0\<rparr> = normal_header e"
    by (simp add: normal_header_def header_of_zero_word)
  then show ?thesis
    using assms
    by (auto simp: prepare_normal_frame_def Let_def bindR_Inr_iff tloe_set_mask_def
        tloe_set_tlmsg_def zero_frame_def normal_header_def tloe_seqnum_set_next_and_acked_seq_def
        tloe_seqnum_set_seq_num_ack_def tloe_seqnum_set_next_tx_seq_def
        split: option.splits if_splits)
qed

lemma prepare_error: "prepare_normal_frame e f req n = Inl err \<Longrightarrow> err = Out_Of_Bounds"
  by (auto simp: prepare_normal_frame_def Let_def tloe_set_mask_def tloe_set_tlmsg_def arr_set_def
      split: option.splits if_splits)

text \<open>The frame of a message of more than 520 bytes does not fit the frame of a retransmit buffer
  element; \<open>TX\<close> runs over the end of a block when it gets to send it.\<close>

lemma tx_send_too_large:
  assumes "ep_wf e" "520 < tlmsg_get_total_size (tl_hdr m)" "rbe_alloc env"
    and "target < CHANNEL_NUM" "target \<noteq> 0 \<Longrightarrow> tx_flow_credits (ep_fc e) ! target \<noteq> 0"
  shows "tx_send env e target (Some m) ret = Inl Out_Of_Bounds"
proof -
  note wf = ep_wfD [OF assms(1)]
  define n where "n = tloe_get_fsize (Some m)"
  have n: "528 < n" using assms(2) by (simp add: n_def tloe_get_fsize_def Let_def)
  show ?thesis
  proof (cases "prepare_normal_frame e (zero_frame n) (Some m) n")
    case (Inl err)
    then have "err = Out_Of_Bounds" by (rule prepare_error)
    then show ?thesis using n Inl unfolding tx_send_def n_def [symmetric] Let_def by simp
  next
    case (Inr g)
    obtain aq a where a: "tx_take_ack e g =
        Inr (e\<lparr>ack_buffer := aq\<rparr>, g\<lparr>header := (header g)\<lparr>seq_num_ack := a\<rparr>\<rparr>, False)"
      using tx_take_ack_ok [OF wf(4)] by metis
    define e1 g1 where "e1 = e\<lparr>ack_buffer := aq\<rparr>" and
      "g1 = g\<lparr>header := (header g)\<lparr>seq_num_ack := a\<rparr>\<rparr>"
    have ch: "chan (header g1) = 0" "credit (header g1) = 0"
      using header_of_prepared [OF Inr] by (simp_all add: g1_def normal_header_def header_of_zero_word)
    have fc1: "ep_fc e1 = ep_fc e" by (simp add: e1_def)
    obtain fc c k where c: "tx_put_credit e1 g1 target =
        Inr (e1\<lparr>ep_fc := fc\<rparr>, g1\<lparr>header := (header g1)\<lparr>chan := c, credit := k\<rparr>\<rparr>)"
      using tx_put_credit_ok [of e1 target g1, unfolded fc1, OF wf(12) assms(4,5) ch] by metis
    have "8 * length (flits (zero_frame 528)) < nat n - 8" using n by simp
    then have "enqueue_retransmit_buffer e2 f n = Inl Out_Of_Bounds" for e2 f
      by (simp add: enqueue_retransmit_buffer_def sizeof_tloe_frame_def Let_def)
    then show ?thesis
      using n assms(3) unfolding tx_send_def n_def [symmetric] Let_def Inr bindR.simps a
        prod.case e1_def [symmetric] g1_def [symmetric] c by simp
  qed
qed

lemma TX_send_error:
  assumes "env_ok env" "ep_wf e" "\<not> is_queue_full (retransmit_buffer e)"
    and "fc_credit_dec (ep_fc e) m = Inr (fc, c)" "c \<noteq> -1"
    and "\<And>e target. ep_wf e \<Longrightarrow> target < CHANNEL_NUM \<Longrightarrow>
      (target \<noteq> 0 \<Longrightarrow> tx_flow_credits (ep_fc e) ! target \<noteq> 0) \<Longrightarrow>
      tx_send env e target (Some m) None = Inl err"
  shows "TX env e (Some m) = Inl err"
proof -
  obtain e1 where e1: "bindR (tx_ackonly_requested env e) (tx_ackonly_full env) = Inr e1"
    "acked e e1" "ep_wf e1"
    using tx_acks_ok [OF assms(1,2)] by metis
  have same: "retransmit_buffer e1 = retransmit_buffer e" "ack_buffer e1 = ack_buffer e"
    "ep_fc e1 = ep_fc e"
    using e1(2) by (auto simp: acked_def)
  define target where "target = select_max_credit_channel (ep_fc e)"
  have tgt: "target < CHANNEL_NUM" "target \<noteq> 0 \<Longrightarrow> tx_flow_credits (ep_fc e) ! target \<noteq> 0"
    using select_max_spec(1,3) [of "ep_fc e"] by (auto simp: target_def)
  note inv = fc_credit_dec_inv [OF ep_wfD(12) [OF assms(2)] assms(4)]
  let ?e = "e1\<lparr>ep_fc := fc\<rparr>"
  have "ep_wf ?e" using e1(3) inv(1) by (simp add: ep_wf_def)
  then have "tx_send env ?e target (Some m) None = Inl err"
    using tgt inv(3) by (intro assms(6)) simp_all
  then show ?thesis
    using e1(1) assms(3,4,5) by (simp add: TX_main target_def [symmetric] tx_main_def same)
qed

lemma TX_too_large:
  assumes "env_ok env" "rbe_alloc env" "ep_wf e" "\<not> is_queue_full (retransmit_buffer e)"
    and "520 < tlmsg_get_total_size (tl_hdr m)" "fc_credit_dec (ep_fc e) m = Inr (fc, c)" "c \<noteq> -1"
  shows "TX env e (Some m) = Inl Out_Of_Bounds"
  by (rule TX_send_error [OF assms(1,3,4,6,7)]) (rule tx_send_too_large [OF _ assms(5,2)])

text \<open>So it does with a message whose block is shorter than its header says.\<close>

lemma TX_short_block:
  assumes "env_ok env" "ep_wf e" "\<not> is_queue_full (retransmit_buffer e)"
    and "int (length (tlmsg_bytes m)) < tlmsg_get_total_size (tl_hdr m)"
    and "fc_credit_dec (ep_fc e) m = Inr (fc, c)" "c \<noteq> -1"
  shows "TX env e (Some m) = Inl Out_Of_Bounds"
proof (rule TX_send_error [OF assms(1,2,3,5,6)])
  fix e :: endpoint and target
  have "tloe_set_tlmsg f m = Inl Out_Of_Bounds" for f
    using assms(4) by (simp add: tloe_set_tlmsg_def Let_def zless_nat_eq_int_zless)
  moreover have "tloe_get_fsize (Some m) \<noteq> -1" by (simp add: tloe_get_fsize_def Let_def)
  ultimately show "tx_send env e target (Some m) None = Inl Out_Of_Bounds"
    by (simp add: tx_send_def prepare_normal_frame_def Let_def)
qed

section \<open>Properties\<close>

definition example_env :: tx_env where
  "example_env = \<lparr>stack_frame1 = zero_frame 528, stack_frame2 = zero_frame 528, rbe_alloc = True\<rparr>"

definition example_get :: "nat \<Rightarrow> tl_msg" where
  "example_get k = \<lparr>tl_hdr = (tl_header_of_word 0)\<lparr>tl_chan := 1, tl_opcode := 4\<rparr>,
     tl_data = replicate k 0\<rparr>"

lemma example_env_ok: "env_ok example_env" "rbe_alloc example_env"
  by (simp_all add: example_env_def env_ok_def)

lemma example_get_sizes:
  "header_bytes (tl_hdr (example_get k)) = 16" "data_bytes (tl_hdr (example_get k)) = 0"
  by (simp_all add: example_get_def header_bytes_def data_bytes_def carries_data_def)

lemma example_get_ok: "msg_ok (example_get 8)"
  using example_get_sizes by (simp add: msg_ok_def tlmsg_get_total_size_eq) (simp add: example_get_def)

lemma example_credit: "\<exists>fc. fc_credit_dec (ep_fc example_endpoint) (example_get k) = Inr (fc, 2)"
proof -
  have "tlmsg_get_flits_cnt (tl_hdr (example_get k)) = 2"
    by (simp add: tlmsg_get_flits_cnt_eq example_get_sizes)
  then show ?thesis
    using dec_spec [OF example_fc_inv, of "example_get k" 1]
    by (simp add: example_get_def Let_def)
qed

lemma example_not_full: "\<not> is_queue_full (retransmit_buffer example_endpoint)"
  using cq_inv_create [of 5, where ?'a = retransmit_element] by (simp add: is_queue_full_iff)

text \<open>C30: Every packet that \<open>TX\<close> puts on the wire, new frames, stand-alone acknowledgements and
  retransmissions alike, has its acknowledgement bit set, also when the entry it takes from the ack
  buffer is a negative acknowledgement: the receiver's NAK never reaches the peer.\<close>

theorem TX_never_sends_nak:
  assumes "env_ok env" "rbe_alloc env" "ep_wf e" "\<And>m. req = Some m \<Longrightarrow> msg_ok m"
    and "TX env e req = Inr (e', r)"
  shows "\<exists>ps. wire e' = wire e @ ps \<and> list_all (\<lambda>p. ack (packet_header p) = TLOE_ACK) ps"
proof -
  obtain e1 r1 where "TX env e req = Inr (e1, r1)" "tx_frame e e1"
    by (rule TX_ok [OF assms(1-4)])
  then show ?thesis using assms(5) by (auto simp: tx_frame_def all_ack_def list_all_iff)
qed

theorem TX_never_sends_nak_witness:
  "let nak = \<lparr>header = tloe_header_of_word 0, flits = []\<rparr>;
       e = example_endpoint\<lparr>ack_buffer := fst (enqueue (create_queue 5) nak)\<rparr> in
   ack (header nak) = TLOE_NAK \<and>
   (\<exists>e' r. TX example_env e None = Inr (e', r) \<and>
      list_all (\<lambda>p. ack (packet_header p) = TLOE_ACK) (wire e') \<and> cq_list (ack_buffer e') = [])"
proof -
  let ?nak = "\<lparr>header = tloe_header_of_word 0, flits = []\<rparr>"
  let ?e = "example_endpoint\<lparr>ack_buffer := fst (enqueue (create_queue 5) ?nak)\<rparr>"
  have q: "cq_inv (create_queue 5 :: tloe_frame cqueue)" by (rule cq_inv_create) simp
  have nf: "\<not> is_queue_full (create_queue 5 :: tloe_frame cqueue)" by (simp add: is_queue_full_iff [OF q])
  note en = enqueue_room [OF q nf, of ?nak]
  have wf: "ep_wf ?e" using example_wf en(3) by (simp add: ep_wf_def)
  have ne: "\<not> is_queue_empty (ack_buffer ?e)" using en by (simp add: is_queue_empty_iff)
  obtain e' r where t: "TX example_env ?e None = Inr (e', r)" "tx_result ?e None e' r"
    by (rule TX_ok [OF example_env_ok wf, of None]) auto
  have "tx_sent ?e e' None" using t(2) ne example_not_full by (simp add: tx_result_def)
  then have "cq_list (ack_buffer e') = []" using en(2) by (simp add: tx_sent_def)
  then show ?thesis
    using TX_never_sends_nak [OF example_env_ok wf _ t(1)] t(1)
    by (auto simp: Let_def header_of_zero_word)
qed

text \<open>C11: A small message survives the way through a frame.  For a message of at most 40 bytes whose
  block has exactly the size its header announces, the frame that \<open>TX\<close> prepares and keeps in the
  retransmit buffer marks one message, and reading it back gives the message.\<close>

theorem small_message_carried:
  assumes "msg_ok m" "int (length (tlmsg_bytes m)) = tlmsg_get_total_size (tl_hdr m)"
    and "tlmsg_get_total_size (tl_hdr m) \<le> 40" "n = tloe_get_fsize (Some m)"
  shows "\<exists>g. prepare_normal_frame e (zero_frame n) (Some m) n = Inr g \<and>
    (let f = rbe_frame (stored_element e g n TLOE_SENT) in
     tloe_get_mask f n = Inr 1 \<and> tloe_get_tlmsg f 0 = Inr (Block m))"
proof -
  have req: "\<And>m'. Some m = Some m' \<Longrightarrow> msg_ok m'" using assms(1) by simp
  obtain g where g: "prepare_normal_frame e (zero_frame n) (Some m) n = Inr g"
    using prepare_normal_frame_ok [OF req assms(4)] by metis
  have "carries (stored_element e g n TLOE_SENT) (Some m)"
    by (rule stored_carries [OF g assms(4) req refl])
  moreover have "nat (tlmsg_get_total_size (tl_hdr m)) = length (tlmsg_bytes m)"
    using assms(2) by linarith
  moreover have "8 \<le> length (tlmsg_bytes m)" "length (tlmsg_bytes m) \<le> 40"
    using assms(2,3) by (simp, linarith)
  moreover have "f_size (stored_element e g n TLOE_SENT) = n" by (simp add: stored_element_def)
  ultimately show ?thesis using g by (simp add: carries_def Let_def del: length_tlmsg_bytes)
qed

theorem small_message_carried_witness:
  "\<exists>g. prepare_normal_frame example_endpoint (zero_frame 56) (Some (example_get 8)) 56 = Inr g \<and>
    tloe_get_tlmsg (rbe_frame (stored_element example_endpoint g 56 TLOE_SENT)) 0 =
      Inr (Block (example_get 8))"
proof -
  have t: "tlmsg_get_total_size (tl_hdr (example_get 8)) = 16"
    by (simp add: tlmsg_get_total_size_eq example_get_sizes)
  then have "tloe_get_fsize (Some (example_get 8)) = 56" by (simp add: tloe_get_fsize_def)
  moreover have "int (length (tlmsg_bytes (example_get 8))) = 16" by (simp add: example_get_def)
  ultimately show ?thesis
    using small_message_carried [OF example_get_ok, of 56 example_endpoint] t by (auto simp: Let_def)
qed

text \<open>C32: A large message loses its end.  \<open>tloe_get_fsize\<close> leaves no room for the mask word behind a
  message of 48 bytes or more: the frame that \<open>TX\<close> prepares overwrites the last eight data bytes
  with the mask, and the receiver reads the message back with these eight bytes replaced.\<close>

theorem large_message_corrupted:
  assumes "msg_ok m" "int (length (tlmsg_bytes m)) = tlmsg_get_total_size (tl_hdr m)"
    and "48 \<le> tlmsg_get_total_size (tl_hdr m)" "n = tloe_get_fsize (Some m)"
  shows "\<exists>g. prepare_normal_frame e (zero_frame n) (Some m) n = Inr g \<and>
    tloe_get_tlmsg (rbe_frame (stored_element e g n TLOE_SENT)) 0 =
      Inr (Block (m\<lparr>tl_data := take (length (tl_data m) - 8) (tl_data m) @ le_bytes 1\<rparr>))"
proof -
  have req: "\<And>m'. Some m = Some m' \<Longrightarrow> msg_ok m'" using assms(1) by simp
  obtain g where g: "prepare_normal_frame e (zero_frame n) (Some m) n = Inr g"
    using prepare_normal_frame_ok [OF req assms(4)] by metis
  have c: "carries (stored_element e g n TLOE_SENT) (Some m)"
    by (rule stored_carries [OF g assms(4) req refl])
  have len: "nat (tlmsg_get_total_size (tl_hdr m)) = length (tlmsg_bytes m)"
    using assms(2) by linarith
  have l: "48 \<le> length (tlmsg_bytes m)" using assms(2,3) by linarith
  have "take (length (tlmsg_bytes m) - 8) (tlmsg_bytes m) @ le_bytes 1 =
      tlmsg_bytes (m\<lparr>tl_data := take (length (tl_data m) - 8) (tl_data m) @ le_bytes 1\<rparr>)"
    using l by (simp add: tlmsg_bytes_def)
  then have "tlmsg_of_bytes (take (length (tlmsg_bytes m) - 8) (tlmsg_bytes m) @ le_bytes 1) =
      m\<lparr>tl_data := take (length (tl_data m) - 8) (tl_data m) @ le_bytes 1\<rparr>"
    by (simp only: tlmsg_of_bytes_bytes)
  then show ?thesis using g c l by (simp add: carries_def Let_def len del: length_tlmsg_bytes)
qed

definition example_put32 :: tl_msg where
  "example_put32 = \<lparr>tl_hdr = (tl_header_of_word 0)\<lparr>tl_chan := 1, tl_size := 5\<rparr>,
     tl_data = replicate 40 7\<rparr>"

lemma example_put32_sizes: "tlmsg_get_total_size (tl_hdr example_put32) = 48"
  by (simp add: tlmsg_get_total_size_eq example_put32_def header_bytes_def data_bytes_def
      carries_data_def tl_header_of_word_def)

theorem large_message_corrupted_witness:
  "\<exists>g m. prepare_normal_frame example_endpoint (zero_frame 56) (Some example_put32) 56 = Inr g \<and>
    tloe_get_tlmsg (rbe_frame (stored_element example_endpoint g 56 TLOE_SENT)) 0 = Inr (Block m) \<and>
    m \<noteq> example_put32"
proof -
  have fs: "56 = tloe_get_fsize (Some example_put32)"
    using example_put32_sizes by (simp add: tloe_get_fsize_def)
  have len: "int (length (tlmsg_bytes example_put32)) = tlmsg_get_total_size (tl_hdr example_put32)"
    using example_put32_sizes by (simp add: example_put32_def)
  have ok: "msg_ok example_put32"
    using example_put32_sizes by (simp add: msg_ok_def) (simp add: example_put32_def)
  let ?d = "take (length (tl_data example_put32) - 8) (tl_data example_put32) @ le_bytes 1"
  have "?d ! 39 = 0"
    by (simp add: nth_append nth_le_bytes example_put32_def drop_bit_eq_div)
  moreover have "tl_data example_put32 ! 39 = 7" by (simp add: example_put32_def)
  ultimately have "?d \<noteq> tl_data example_put32" by auto
  then have "example_put32\<lparr>tl_data := ?d\<rparr> \<noteq> example_put32"
    by (metis tl_msg.select_convs(2) tl_msg.surjective tl_msg.update_convs(2))
  then show ?thesis
    using large_message_corrupted [OF ok len _ fs, of example_endpoint] example_put32_sizes by auto
qed

text \<open>C33: No memory for the retransmit buffer element.  The acknowledgement and the credit of the
  frame are gone and nothing was sent; when the message had been held back for lack of credit and
  the frame was an empty one, \<open>TX\<close> moreover returns NULL, and the caller, who takes this for sent,
  frees the message: it is neither in the window nor with the caller.\<close>

theorem TX_no_memory_loses_message:
  assumes "env_ok env" "\<not> rbe_alloc env" "ep_wf e" "msg_ok m"
    and "\<not> is_queue_full (retransmit_buffer e)" "\<not> is_queue_empty (ack_buffer e)"
    and "fc_credit_dec (ep_fc e) m = Inr (fc, -1)"
  shows "\<exists>e'. TX env e (Some m) = Inr (e', None) \<and> window_keys e' = window_keys e \<and>
    next_tx_seq e' = next_tx_seq e \<and> cq_list (ack_buffer e') = tl (cq_list (ack_buffer e))"
proof -
  have "(-1::int) \<noteq> -1 \<or> \<not> is_queue_empty (ack_buffer e)" using assms(6) by simp
  from TX_no_memory [OF assms(1-5,7) this] show ?thesis by (auto simp: tx_dropped_def)
qed

theorem TX_no_memory_loses_message_witness:
  "let f = \<lparr>header = tloe_header_of_word 0, flits = []\<rparr>;
       e = example_endpoint\<lparr>ack_buffer := fst (enqueue (create_queue 5) f), ep_fc := zero_flowcontrol\<rparr>
   in \<exists>e'. TX (example_env\<lparr>rbe_alloc := False\<rparr>) e (Some (example_get 8)) = Inr (e', None) \<and>
      window_keys e' = []"
proof -
  let ?f = "\<lparr>header = tloe_header_of_word 0, flits = []\<rparr>"
  let ?e = "example_endpoint\<lparr>ack_buffer := fst (enqueue (create_queue 5) ?f),
    ep_fc := zero_flowcontrol\<rparr>"
  have q: "cq_inv (create_queue 5 :: tloe_frame cqueue)" by (rule cq_inv_create) simp
  have nf: "\<not> is_queue_full (create_queue 5 :: tloe_frame cqueue)" by (simp add: is_queue_full_iff [OF q])
  note en = enqueue_room [OF q nf, of ?f]
  have fc: "fc_inv zero_flowcontrol" by (simp add: fc_inv_def zero_flowcontrol_def)
  have wf: "ep_wf ?e" using example_wf en(3) fc by (simp add: ep_wf_def)
  have ne: "\<not> is_queue_empty (ack_buffer ?e)" using en by (simp add: is_queue_empty_iff)
  have env: "env_ok (example_env\<lparr>rbe_alloc := False\<rparr>)" "\<not> rbe_alloc (example_env\<lparr>rbe_alloc := False\<rparr>)"
    by (simp_all add: env_ok_def example_env_def)
  have full: "\<not> is_queue_full (retransmit_buffer ?e)" using example_not_full by simp
  have "tlmsg_get_flits_cnt (tl_hdr (example_get 8)) = 2"
    by (simp add: tlmsg_get_flits_cnt_eq example_get_sizes)
  then have "fc_credit_dec (ep_fc ?e) (example_get 8) = Inr (zero_flowcontrol, -1)"
    using dec_spec [OF fc, of "example_get 8" 1]
    by (simp add: example_get_def Let_def zero_flowcontrol_def)
  from TX_no_memory_loses_message [OF env wf example_get_ok full ne this] show ?thesis
    by (auto simp: Let_def window_keys_def)
qed

text \<open>The answer to a Get of 1024 bytes is too large for the element of the retransmit buffer.\<close>

lemma TX_large_answer_overflows:
  "let m = \<lparr>tl_hdr = (tl_header_of_word 0)\<lparr>tl_chan := 4, tl_opcode := 1, tl_size := 10\<rparr>,
            tl_data = replicate 1024 0\<rparr>;
       e = example_endpoint\<lparr>ep_fc := zero_flowcontrol\<lparr>credits := replicate 6 1024\<rparr>\<rparr>
   in TX example_env e (Some m) = Inl Out_Of_Bounds"
proof -
  let ?m = "\<lparr>tl_hdr = (tl_header_of_word 0)\<lparr>tl_chan := 4, tl_opcode := 1, tl_size := 10\<rparr>,
            tl_data = replicate 1024 0\<rparr>"
  let ?fc = "zero_flowcontrol\<lparr>credits := replicate 6 1024\<rparr>"
  let ?e = "example_endpoint\<lparr>ep_fc := ?fc\<rparr>"
  have fc: "fc_inv ?fc" by (simp add: fc_inv_def zero_flowcontrol_def)
  have wf: "ep_wf ?e" using example_wf fc by (simp add: ep_wf_def)
  let ?h = "(tl_header_of_word 0)\<lparr>tl_chan := 4, tl_opcode := 1, tl_size := 10\<rparr>"
  have b: "header_bytes ?h = 8" "data_bytes ?h = 1024"
    by (simp_all add: header_bytes_def data_bytes_def carries_data_def)
  then have t: "520 < tlmsg_get_total_size (tl_hdr ?m)" by (simp add: tlmsg_get_total_size_eq)
  have n: "tlmsg_get_flits_cnt (tl_hdr ?m) = 129" using b by (simp add: tlmsg_get_flits_cnt_eq)
  have "\<exists>fc'. fc_credit_dec (ep_fc ?e) ?m = Inr (fc', 129)"
    using dec_spec [OF fc, of ?m 4] n by (simp add: Let_def)
  then obtain fc' where d: "fc_credit_dec (ep_fc ?e) ?m = Inr (fc', 129)" by blast
  have full: "\<not> is_queue_full (retransmit_buffer ?e)" using example_not_full by simp
  show ?thesis
    using TX_too_large [OF example_env_ok wf full t d] by (simp add: Let_def)
qed

end
