(* ===== verification/Tx_Outcome.thy ===== *)
theory Tx_Outcome
  imports Transmitter
begin

text \<open>
  What \<open>TX\<close> of \<open>tloe_transmitter.c\<close> does, exactly: every packet it hands to the fabric, in order,
  the window, the queue of acknowledgements, the credit and the message that goes back to the
  caller, on every path, with and without memory for the element of the retransmit buffer.
\<close>

section \<open>The parts of the outcome\<close>

definition now :: "endpoint \<Rightarrow> int" where
  "now e = get_current_timestamp (iteration_ts e)"

abbreviation window :: "endpoint \<Rightarrow> retransmit_element list" where
  "window e \<equiv> cq_list (retransmit_buffer e)"

abbreviation acks :: "endpoint \<Rightarrow> tloe_frame list" where
  "acks e \<equiv> cq_list (ack_buffer e)"

text \<open>The window is full, its oldest frame waits for half the timeout, and no stand-alone
  acknowledgement went out for that yet.\<close>

definition window_waits :: "endpoint \<Rightarrow> bool" where
  "window_waits e \<longleftrightarrow> length (window e) = WINDOW_SIZE \<and> \<not> ackonly_frame_sent e \<and>
     TIMEOUT_TIME div 2 \<le> now e - send_time (hd (window e))"

text \<open>The number of stand-alone acknowledgements that are due, and such a packet.\<close>

definition acks_due :: "endpoint \<Rightarrow> nat" where
  "acks_due e = of_bool (should_send_ackonly_frame e) + of_bool (window_waits e)"

definition ackonly_of :: "endpoint \<Rightarrow> byte list \<Rightarrow> bool" where
  "ackonly_of e p \<longleftrightarrow> length p = 56 \<and> ack (packet_header p) = TLOE_ACK \<and>
     frame_type (packet_header p) = TYPE_ACKONLY \<and>
     seq_num (packet_header p) = ucast (next_tx_seq e) \<and>
     seq_num_ack (packet_header p) = ucast (tloe_seqnum_prev (next_rx_seq e)) \<and>
     chan (packet_header p) = 0 \<and> credit (packet_header p) = 0"

text \<open>The credit counters after the message was paid for, the normal frame to send, if any (with the message
  it carries, if any), and the message that goes back.\<close>

definition tx_plan :: "endpoint \<Rightarrow> tl_msg option \<Rightarrow> flowcontrol \<times> tl_msg option option \<times> tl_msg option" where
  "tx_plan e req =
     (if length (window e) = WINDOW_SIZE then (ep_fc e, None, req)
      else case req of
        None \<Rightarrow> (ep_fc e, if acks e = [] \<and> select_max_credit_channel (ep_fc e) = 0 then None else Some None, None)
      | Some m \<Rightarrow>
          (case fc_credit_dec (ep_fc e) m of
             Inl _ \<Rightarrow> (ep_fc e, None, req)
           | Inr (fc, n) \<Rightarrow>
               if n \<noteq> -1 then (fc, Some req, None)
               else (ep_fc e, if acks e = [] then None else Some None, req)))"

text \<open>The element for the frame that carries \<open>msg\<close> and returns the credit \<open>n\<close> of channel \<open>c\<close>.\<close>

definition element_of :: "endpoint \<Rightarrow> tl_msg option \<Rightarrow> 3 word \<Rightarrow> 5 word \<Rightarrow> retransmit_element \<Rightarrow> bool" where
  "element_of e msg c n el \<longleftrightarrow> rbe_state el = TLOE_SENT \<and> send_time el = now e \<and>
     f_size el = tloe_get_fsize msg \<and> fresh_header e (rbe_frame el) c n \<and> carries el msg"

text \<open>The timeout: when the oldest frame of the window \<open>els\<close> is overdue, all of them are sent again, oldest
  first, with a fresh acknowledgement number, and the clock of each starts anew.\<close>

definition again :: "endpoint \<Rightarrow> retransmit_element list \<Rightarrow> byte list list" where
  "again e els =
     (if els \<noteq> [] \<and> TIMEOUT_TIME \<le> now e - send_time (hd els)
      then map (\<lambda>el. frame_packet (with_ack (rbe_frame el) (ucast (tloe_seqnum_prev (next_rx_seq e)))) (f_size el)) els
      else [])"

definition restarted :: "endpoint \<Rightarrow> retransmit_element list \<Rightarrow> retransmit_element list" where
  "restarted e els =
     (if els \<noteq> [] \<and> TIMEOUT_TIME \<le> now e - send_time (hd els)
      then map (\<lambda>el. el\<lparr>rbe_state := TLOE_RESENT, send_time := now e\<rparr>) els else els)"

text \<open>The endpoint after \<open>TX\<close>: \<open>ao\<close> are the stand-alone acknowledgements, \<open>new\<close> the normal frames.\<close>

definition tx_after :: "endpoint \<Rightarrow> byte list list \<Rightarrow> byte list list \<Rightarrow> retransmit_element list \<Rightarrow> endpoint \<Rightarrow> bool" where
  "tx_after e ao new els e' \<longleftrightarrow>
     e' = e\<lparr>wire := wire e @ sent e (ao @ new @ again e els), should_send_ackonly_frame := False,
            ackonly_frame_sent := ackonly_frame_sent e \<or> window_waits e,
            ackonly_cnt := ackonly_cnt e + of_bool (window_waits e),
            retransmit_buffer := retransmit_buffer e', ack_buffer := ack_buffer e', ep_fc := ep_fc e',
            next_tx_seq := next_tx_seq e'\<rparr> \<and>
     window e' = restarted e els"

section \<open>The steps\<close>

lemma tx_acks_exact:
  assumes "env_ok env" "ep_wf e"
  obtains ps where
    "bindR (tx_ackonly_requested env e) (tx_ackonly_full env) =
       Inr (e\<lparr>wire := wire e @ sent e ps, should_send_ackonly_frame := False,
              ackonly_frame_sent := ackonly_frame_sent e \<or> window_waits e,
              ackonly_cnt := ackonly_cnt e + of_bool (window_waits e)\<rparr>)"
    "length ps = acks_due e" "list_all (ackonly_of e) ps"
proof -
  have stack: "length (flits (stack_frame1 env)) = 65" "length (flits (stack_frame2 env)) = 65"
    using assms(1) by (simp_all add: env_ok_def)
  obtain p where p: "send_ackonly_frame e (stack_frame1 env) = Inr (tloe_fabric_send e p)" "ackonly_of e p"
    using send_ackonly_frame_eq [OF stack(1), of e] by (auto simp: ackonly_of_def)
  define ps where "ps = (if should_send_ackonly_frame e then [p] else [])"
  define e1 where "e1 = e\<lparr>wire := wire e @ sent e ps, should_send_ackonly_frame := False\<rparr>"
  have r: "tx_ackonly_requested env e = Inr e1"
    using p(1) by (simp add: tx_ackonly_requested_def e1_def ps_def tloe_fabric_send_wire)
  have same: "retransmit_buffer e1 = retransmit_buffer e" "ackonly_frame_sent e1 = ackonly_frame_sent e"
    "iteration_ts e1 = iteration_ts e" by (simp_all add: e1_def)
  note q = ep_wfD(1,2) [OF assms(2)]
  have full: "is_queue_full (retransmit_buffer e) \<longleftrightarrow> length (window e) = 4"
    using is_queue_full_iff [OF q(1)] q(2) by simp
  have fr: "getfront (retransmit_buffer e) = Some (hd (window e))" if "length (window e) = 4"
    using getfront_eq [OF q(1)] that by (cases "window e") auto
  let ?e = "e1\<lparr>ackonly_frame_sent := True\<rparr>"
  obtain p' where p': "send_ackonly_frame ?e (stack_frame2 env) = Inr (tloe_fabric_send ?e p')" "ackonly_of e p'"
    using send_ackonly_frame_eq [OF stack(2), of ?e] by (auto simp: ackonly_of_def e1_def)
  define ps' where "ps' = (if window_waits e then [p'] else [])"
  have full_step: "tx_ackonly_full env e1 =
      Inr (e1\<lparr>ackonly_frame_sent := ackonly_frame_sent e \<or> window_waits e, wire := wire e1 @ sent e ps',
              ackonly_cnt := ackonly_cnt e + of_bool (window_waits e)\<rparr>)"
  proof (cases "window_waits e")
    case True
    then have w: "length (window e) = 4" "\<not> ackonly_frame_sent e" "50000 \<le> now e - send_time (hd (window e))"
      by (simp_all add: window_waits_def)
    then show ?thesis
      using p'(1) True fr full
      by (simp add: tx_ackonly_full_def same is_timeout_tx_half_def now_def ps'_def tloe_fabric_send_wire)
        (simp add: e1_def sent_def fabric_up_def)
  next
    case False
    then have "tx_ackonly_full env e1 = Inr e1"
      using fr full by (auto simp: tx_ackonly_full_def same is_timeout_tx_half_def now_def window_waits_def)
    then show ?thesis using False by (simp add: ps'_def e1_def)
  qed
  have "length (ps @ ps') = acks_due e" "list_all (ackonly_of e) (ps @ ps')"
    using p(2) p'(2) by (simp_all add: acks_due_def ps_def ps'_def)
  then show thesis
    using r full_step by (intro that [of "ps @ ps'"]) (simp_all add: e1_def)
qed

lemma tx_out_exact:
  assumes "ep_wf e"
  obtains q where
    "tx_out e r = Inr (e\<lparr>wire := wire e @ sent e (again e (window e)), retransmit_buffer := q\<rparr>, r)"
    "ep_wf (e\<lparr>wire := wire e @ sent e (again e (window e)), retransmit_buffer := q\<rparr>)"
    "cq_list q = restarted e (window e)"
proof (cases "window e \<noteq> [] \<and> 100000 \<le> now e - send_time (hd (window e))")
  case True
  then have fr: "getfront (retransmit_buffer e) = Some (hd (window e))"
    using getfront_eq [OF ep_wfD(1) [OF assms]] by (cases "window e") auto
  note all = front_resends_all [OF assms fr]
  have ag: "again e (window e) = map (resend_packet e) (window e)"
    using True by (simp add: again_def resend_packet_def with_ack_def tloe_seqnum_set_seq_num_ack_def)
  have "resends (rbe_seq (hd (window e))) el" if "el \<in> set (window e)" for el
    using that all by (simp add: filter_id_conv)
  then have rs: "map (mark_resent e (rbe_seq (hd (window e)))) (window e) = restarted e (window e)"
    using True by (simp add: restarted_def mark_resent_def now_def)
  obtain q where "retransmit e (rbe_seq (hd (window e))) =
      Inr (e\<lparr>wire := wire e @ sent e (again e (window e)), retransmit_buffer := q\<rparr>)"
    "ep_wf (e\<lparr>wire := wire e @ sent e (again e (window e)), retransmit_buffer := q\<rparr>)"
    "cq_list q = restarted e (window e)"
    using retransmit_wf [OF assms, of "rbe_seq (hd (window e))"] unfolding all ag [symmetric] rs by metis
  then show thesis
    using fr True by (intro that [of q]) (simp_all add: tx_out_def is_timeout_tx_def now_def)
next
  case False
  then have "tx_out e r = Inr (e, r)"
    using getfront_eq [OF ep_wfD(1) [OF assms]]
    by (cases "window e") (auto simp: tx_out_def is_timeout_tx_def now_def)
  moreover have "again e (window e) = []" "restarted e (window e) = window e"
    using False by (auto simp: again_def restarted_def)
  ultimately show thesis using assms by (intro that [of "retransmit_buffer e"]) simp_all
qed

text \<open>The stamp of a frame and the resending look only at the clock and at the sequence numbers.\<close>

lemma same_clock:
  assumes "iteration_ts e1 = iteration_ts e" "next_rx_seq e1 = next_rx_seq e"
  shows "now e1 = now e" "again e1 = again e" "restarted e1 = restarted e"
proof -
  show n: "now e1 = now e" by (simp add: now_def assms(1))
  show "again e1 = again e" "restarted e1 = restarted e"
    by (simp_all add: fun_eq_iff again_def restarted_def n assms(2))
qed

lemma same_element:
  assumes "iteration_ts e1 = iteration_ts e" "next_rx_seq e1 = next_rx_seq e"
    "next_tx_seq e1 = next_tx_seq e" "ack_buffer e1 = ack_buffer e"
  shows "element_of e1 = element_of e"
  unfolding fun_eq_iff element_of_def same_clock [OF assms(1,2)] fresh_header_def normal_header_def assms
  by simp

text \<open>What \<open>tx_send\<close> does with the frame for \<open>msg\<close>.\<close>

definition send_after :: "bool \<Rightarrow> endpoint \<Rightarrow> nat \<Rightarrow> tl_msg option \<Rightarrow> byte list list \<Rightarrow>
    retransmit_element list \<Rightarrow> endpoint \<Rightarrow> bool" where
  "send_after memory e target msg new els e' \<longleftrightarrow> acks e' = tl (acks e) \<and>
     cq_cap (ack_buffer e') = cq_cap (ack_buffer e) \<and>
     (\<exists>c n. returns_credit (ep_fc e) target (ep_fc e') c n \<and>
        (if memory
         then \<exists>el. element_of e msg c n el \<and> els = window e @ [el] \<and>
                new = [frame_packet (rbe_frame el) (f_size el)] \<and>
                next_tx_seq e' = tloe_seqnum_next (next_tx_seq e)
         else els = window e \<and> new = [] \<and> next_tx_seq e' = next_tx_seq e))"

lemma tx_send_memory:
  assumes "ep_wf e" "\<not> is_queue_full (retransmit_buffer e)" "\<And>m. msg = Some m \<Longrightarrow> msg_ok m"
    and "target < CHANNEL_NUM" "target \<noteq> 0 \<Longrightarrow> tx_flow_credits (ep_fc e) ! target \<noteq> 0" "rbe_alloc env"
  obtains new els aq fc q nx where
    "tx_send env e target msg r = Inr (e\<lparr>wire := wire e @ sent e (new @ again e els), ack_buffer := aq,
       ep_fc := fc, retransmit_buffer := q, next_tx_seq := nx\<rparr>, r)"
    "ep_wf (e\<lparr>wire := wire e @ sent e (new @ again e els), ack_buffer := aq,
       ep_fc := fc, retransmit_buffer := q, next_tx_seq := nx\<rparr>)"
    "cq_list q = restarted e els"
    "send_after True e target msg new els (e\<lparr>wire := wire e @ sent e (new @ again e els), ack_buffer := aq,
       ep_fc := fc, retransmit_buffer := q, next_tx_seq := nx\<rparr>)"
proof -
  define n where "n = tloe_get_fsize msg"
  obtain f g aq fc q where s:
    "tx_send env e target msg r = tx_out (e\<lparr>ack_buffer := aq, ep_fc := fc,
       wire := wire e @ sent e [frame_packet f n], retransmit_buffer := q,
       next_tx_seq := tloe_seqnum_next (next_tx_seq e)\<rparr>) r"
    "ep_wf (e\<lparr>ack_buffer := aq, ep_fc := fc, wire := wire e @ sent e [frame_packet f n],
       retransmit_buffer := q, next_tx_seq := tloe_seqnum_next (next_tx_seq e)\<rparr>)"
    "cq_list q = window e @ [stored_element e f n TLOE_SENT]"
    "prepare_normal_frame e (zero_frame n) msg n = Inr g" "flits f = flits g"
    "cq_list aq = tl (acks e)" "cq_cap aq = cq_cap (ack_buffer e)"
    "fresh_header e f (chan (header f)) (credit (header f))"
    "returns_credit (ep_fc e) target fc (chan (header f)) (credit (header f))"
    by (rule tx_send_ok [OF assms(1-6) n_def, where ret = r])
  let ?el = "stored_element e f n TLOE_SENT"
  define e2 where "e2 = e\<lparr>ack_buffer := aq, ep_fc := fc, wire := wire e @ sent e [frame_packet f n],
       retransmit_buffer := q, next_tx_seq := tloe_seqnum_next (next_tx_seq e)\<rparr>"
  have same: "again e2 = again e" "restarted e2 = restarted e" by (rule same_clock; simp add: e2_def)+
  have same2: "sent e2 = sent e" "wire e2 = wire e @ sent e [frame_packet f n]" "retransmit_buffer e2 = q"
    by (simp_all add: fun_eq_iff sent_def fabric_up_def e2_def)
  obtain q' where o: "tx_out e2 r = Inr (e2\<lparr>wire := wire e @ sent e ([frame_packet f n] @
      again e (window e @ [?el])), retransmit_buffer := q'\<rparr>, r)"
    "ep_wf (e2\<lparr>wire := wire e @ sent e ([frame_packet f n] @ again e (window e @ [?el])),
      retransmit_buffer := q'\<rparr>)"
    "cq_list q' = restarted e (window e @ [?el])"
    using tx_out_exact [OF s(2) [folded e2_def], of r] unfolding same same2 s(3) sent_simps append_assoc
    by metis
  obtain k where "n = 8 * (1 + int k)" "length (flits g) = k"
    using prepared_flits [OF s(4) n_def assms(3)] by metis
  then have len: "n = 8 * (1 + int (length (flits f)))" unfolding s(5) by simp
  have el: "element_of e msg (chan (header f)) (credit (header f)) ?el"
    using s(8) stored_carries [OF s(4) n_def assms(3) s(5), of e TLOE_SENT]
    by (simp add: element_of_def stored_element_def now_def n_def fresh_header_def)
  have pk: "frame_packet (rbe_frame ?el) (f_size ?el) = frame_packet f n"
    using frame_packet_stored [OF len, of e TLOE_SENT] by (simp add: stored_element_def)
  let ?new = "[frame_packet f n]" and ?els = "window e @ [?el]"
  let ?e' = "e\<lparr>wire := wire e @ sent e (?new @ again e ?els), ack_buffer := aq, ep_fc := fc,
    retransmit_buffer := q', next_tx_seq := tloe_seqnum_next (next_tx_seq e)\<rparr>"
  have e': "e2\<lparr>wire := wire e @ sent e (?new @ again e ?els), retransmit_buffer := q'\<rparr> = ?e'"
    by (simp add: e2_def)
  have "send_after True e target msg ?new ?els ?e'"
    using s(6,7,9) el pk unfolding send_after_def by auto
  moreover have "tx_send env e target msg r = Inr (?e', r)"
    using s(1) o(1) unfolding e2_def [symmetric] e' by simp
  ultimately show thesis using o(2,3) unfolding e' by (intro that)
qed

lemma tx_send_no_memory_exact:
  assumes "ep_wf e" "\<And>m. msg = Some m \<Longrightarrow> msg_ok m"
    and "target < CHANNEL_NUM" "target \<noteq> 0 \<Longrightarrow> tx_flow_credits (ep_fc e) ! target \<noteq> 0" "\<not> rbe_alloc env"
  obtains new els aq fc q nx where
    "tx_send env e target msg r = Inr (e\<lparr>wire := wire e @ sent e (new @ again e els), ack_buffer := aq,
       ep_fc := fc, retransmit_buffer := q, next_tx_seq := nx\<rparr>, msg)"
    "ep_wf (e\<lparr>wire := wire e @ sent e (new @ again e els), ack_buffer := aq,
       ep_fc := fc, retransmit_buffer := q, next_tx_seq := nx\<rparr>)"
    "cq_list q = restarted e els"
    "send_after False e target msg new els (e\<lparr>wire := wire e @ sent e (new @ again e els), ack_buffer := aq,
       ep_fc := fc, retransmit_buffer := q, next_tx_seq := nx\<rparr>)"
proof -
  define n where "n = tloe_get_fsize msg"
  have sz: "56 \<le> n" using fsize_ok(2) [of msg, OF assms(2)] by (simp add: n_def)
  obtain g where g: "prepare_normal_frame e (zero_frame n) msg n = Inr g" "header g = normal_header e"
    using prepare_normal_frame_ok [OF assms(2) n_def] by metis
  obtain aq a where a: "tx_take_ack e g =
      Inr (e\<lparr>ack_buffer := aq\<rparr>, g\<lparr>header := (header g)\<lparr>seq_num_ack := a\<rparr>\<rparr>, False)"
    "cq_inv aq" "cq_list aq = tl (acks e)" "cq_cap aq = cq_cap (ack_buffer e)"
    using tx_take_ack_ok [OF ep_wfD(4) [OF assms(1)]] by metis
  define g1 where "g1 = g\<lparr>header := (header g)\<lparr>seq_num_ack := a\<rparr>\<rparr>"
  have ch: "chan (header g1) = 0" "credit (header g1) = 0"
    by (simp_all add: g1_def g(2) normal_header_def header_of_zero_word)
  let ?e1 = "e\<lparr>ack_buffer := aq\<rparr>"
  have fc1: "ep_fc ?e1 = ep_fc e" by simp
  obtain fc c k where c: "tx_put_credit ?e1 g1 target =
      Inr (?e1\<lparr>ep_fc := fc\<rparr>, g1\<lparr>header := (header g1)\<lparr>chan := c, credit := k\<rparr>\<rparr>)"
    "fc_inv fc" "returns_credit (ep_fc e) target fc c k"
    using tx_put_credit_ok [of ?e1 target g1, unfolded fc1, OF ep_wfD(12) [OF assms(1)] assms(3,4) ch]
    by metis
  define e2 where "e2 = e\<lparr>ack_buffer := aq, ep_fc := fc\<rparr>"
  have wf: "ep_wf e2" using assms(1) a(2) c(2) by (simp add: ep_wf_def e2_def)
  have same: "again e2 = again e" "restarted e2 = restarted e" by (rule same_clock; simp add: e2_def)+
  have same2: "sent e2 = sent e" "wire e2 = wire e" "retransmit_buffer e2 = retransmit_buffer e"
    by (simp_all add: fun_eq_iff sent_def fabric_up_def e2_def)
  obtain q where o:
    "tx_out e2 msg = Inr (e2\<lparr>wire := wire e @ sent e ([] @ again e (window e)), retransmit_buffer := q\<rparr>, msg)"
    "ep_wf (e2\<lparr>wire := wire e @ sent e ([] @ again e (window e)), retransmit_buffer := q\<rparr>)"
    "cq_list q = restarted e (window e)"
    using tx_out_exact [OF wf, of msg] unfolding same same2 append_Nil by metis
  let ?e' = "e\<lparr>wire := wire e @ sent e ([] @ again e (window e)), ack_buffer := aq, ep_fc := fc,
    retransmit_buffer := q, next_tx_seq := next_tx_seq e\<rparr>"
  have e': "e2\<lparr>wire := wire e @ sent e ([] @ again e (window e)), retransmit_buffer := q\<rparr> = ?e'"
    by (simp add: e2_def)
  have "tx_send env e target msg r = tx_out e2 msg"
    using sz assms(5) unfolding tx_send_def n_def [symmetric] Let_def g(1) bindR.simps a(1)
      prod.case g1_def [symmetric] c(1) by (simp add: e2_def)
  then have "tx_send env e target msg r = Inr (?e', msg)" using o(1) unfolding e' by simp
  moreover have "send_after False e target msg [] (window e) ?e'"
    using a(3,4) c(3) unfolding send_after_def by auto
  ultimately show thesis using o(2,3) unfolding e' by (intro that)
qed

lemma tx_send_exact:
  assumes "ep_wf e" "\<not> is_queue_full (retransmit_buffer e)" "\<And>m. msg = Some m \<Longrightarrow> msg_ok m"
    and "target < CHANNEL_NUM" "target \<noteq> 0 \<Longrightarrow> tx_flow_credits (ep_fc e) ! target \<noteq> 0"
  obtains new els aq fc q nx where
    "tx_send env e target msg r = Inr (e\<lparr>wire := wire e @ sent e (new @ again e els), ack_buffer := aq,
       ep_fc := fc, retransmit_buffer := q, next_tx_seq := nx\<rparr>, if rbe_alloc env then r else msg)"
    "ep_wf (e\<lparr>wire := wire e @ sent e (new @ again e els), ack_buffer := aq,
       ep_fc := fc, retransmit_buffer := q, next_tx_seq := nx\<rparr>)"
    "cq_list q = restarted e els"
    "send_after (rbe_alloc env) e target msg new els (e\<lparr>wire := wire e @ sent e (new @ again e els),
       ack_buffer := aq, ep_fc := fc, retransmit_buffer := q, next_tx_seq := nx\<rparr>)"
proof (cases "rbe_alloc env")
  case True
  show thesis by (rule tx_send_memory [OF assms True], assumption+, rule that) (simp_all add: True)
next
  case False
  show thesis by (rule tx_send_no_memory_exact [OF assms(1,3-5) False], assumption+, rule that) (simp_all add: False)
qed

section \<open>The outcome\<close>

text \<open>What \<open>TX\<close> does to the endpoint \<open>e\<close> with the message \<open>req\<close>: \<open>e'\<close> is the endpoint afterwards, \<open>kept\<close>
  the message that the caller keeps.\<close>

definition tx_exact :: "tx_env \<Rightarrow> endpoint \<Rightarrow> tl_msg option \<Rightarrow> endpoint \<Rightarrow> tl_msg option \<Rightarrow> bool" where
  "tx_exact env e req e' kept \<longleftrightarrow>
     (case tx_plan e req of (fc, frame, ret) \<Rightarrow> \<exists>ao new els.
        length ao = acks_due e \<and> list_all (ackonly_of e) ao \<and> tx_after e ao new els e' \<and>
        (case frame of
           None \<Rightarrow> new = [] \<and> els = window e \<and> ack_buffer e' = ack_buffer e \<and> ep_fc e' = fc \<and>
             next_tx_seq e' = next_tx_seq e \<and> kept = ret
         | Some msg \<Rightarrow>
             send_after (rbe_alloc env) (e\<lparr>ep_fc := fc\<rparr>) (select_max_credit_channel (ep_fc e)) msg new els e' \<and>
             kept = (if rbe_alloc env then ret else msg)))"

text \<open>The plan: the credit to return is still there, there is room for a frame, and its message can be sent.\<close>

lemma tx_plan_ok:
  assumes "ep_wf e" "\<And>m. req = Some m \<Longrightarrow> msg_ok m" "tx_plan e req = (fc, frame, ret)"
  shows "fc_inv fc" "tx_flow_credits fc = tx_flow_credits (ep_fc e)"
    "frame \<noteq> None \<Longrightarrow> \<not> is_queue_full (retransmit_buffer e)"
    "frame = Some (Some m) \<Longrightarrow> msg_ok m"
proof -
  note q = is_queue_full_iff [OF ep_wfD(1) [OF assms(1)]] ep_wfD(2) [OF assms(1)]
  note inv = fc_credit_dec_inv [OF ep_wfD(12) [OF assms(1)]]
  show "frame \<noteq> None \<Longrightarrow> \<not> is_queue_full (retransmit_buffer e)" "frame = Some (Some m) \<Longrightarrow> msg_ok m"
    using assms q by (auto simp: tx_plan_def split: if_splits option.splits sum.splits)
  show "fc_inv fc" "tx_flow_credits fc = tx_flow_credits (ep_fc e)"
    using assms(3) inv ep_wfD(12) [OF assms(1)]
    by (auto simp: tx_plan_def split: if_splits option.splits sum.splits)
qed

text \<open>The rest of \<open>TX\<close>, from the endpoint \<open>e1\<close> that the acknowledgements left, follows the plan.\<close>

lemma tx_main_plan:
  assumes "ep_wf e" "\<And>m. req = Some m \<Longrightarrow> msg_ok m" "tx_plan e req = (fc, frame, ret)"
    and "retransmit_buffer e1 = retransmit_buffer e" "ack_buffer e1 = ack_buffer e" "ep_fc e1 = ep_fc e"
  shows "tx_main env (select_max_credit_channel (ep_fc e)) e1 req =
    (case frame of
       None \<Rightarrow> tx_out (e1\<lparr>ep_fc := fc\<rparr>) ret
     | Some msg \<Rightarrow> tx_send env (e1\<lparr>ep_fc := fc\<rparr>) (select_max_credit_channel (ep_fc e)) msg ret)"
proof -
  note q = is_queue_full_iff [OF ep_wfD(1) [OF assms(1)]] ep_wfD(2) [OF assms(1)]
    is_queue_empty_iff [OF ep_wfD(4) [OF assms(1)]]
  have same: "e1\<lparr>ep_fc := ep_fc e\<rparr> = e1" unfolding assms(6) [symmetric] by simp
  show ?thesis
  proof (cases req)
    case None
    then show ?thesis using assms(3) q
      by (auto simp: same tx_plan_def tx_main_def assms(4-6) split: if_splits)
  next
    case (Some m)
    obtain fc1 n where d: "fc_credit_dec (ep_fc e) m = Inr (fc1, n)"
      using fc_credit_dec_ok [of m "ep_fc e"] assms(2) [OF Some] by (auto simp: msg_ok_def)
    have "fc1 = ep_fc e" if "n = -1" using d that fc_credit_dec_refused by metis
    then show ?thesis using assms(3) q d Some
      by (auto simp: same tx_plan_def tx_main_def assms(4-6) Let_def split: if_splits)
  qed
qed

text \<open>C5: The transmitter, exactly.  For a well-formed endpoint and a message that can be sent, \<open>TX\<close>
  returns without error, with or without memory for the buffer element, keeps the invariant, and does
  what \<open>tx_exact\<close> says.  The packets it hands to the fabric are, in this order: one stand-alone
  acknowledgement if the receiver asked for it and one if the window is full and half overdue; the
  normal frame of the plan; and, if the oldest frame of the window is overdue, the whole window again.
  The plan: with a full window no frame, and the message comes back; without a message a frame only
  when an acknowledgement or credit has to be returned; with a message, the frame that carries it when
  its credit can be paid, which is then paid; else an empty frame when an acknowledgement waits, and the
  message comes back.  The frame has the next sequence number, takes the oldest acknowledgement from
  its queue and the largest power of two of credit of the channel with the most to return, and goes to
  the end of the window.  Without memory the acknowledgement and the credit are taken, but there is no
  frame, no new element and no new number.  Nothing else in the endpoint changes.\<close>

theorem TX_outcome:
  assumes "env_ok env" "ep_wf e" "\<And>m. req = Some m \<Longrightarrow> msg_ok m"
  shows "\<exists>e' kept. TX env e req = Inr (e', kept) \<and> ep_wf e' \<and> tx_exact env e req e' kept"
proof -
  obtain ao where ao:
    "bindR (tx_ackonly_requested env e) (tx_ackonly_full env) =
       Inr (e\<lparr>wire := wire e @ sent e ao, should_send_ackonly_frame := False,
              ackonly_frame_sent := ackonly_frame_sent e \<or> window_waits e,
              ackonly_cnt := ackonly_cnt e + of_bool (window_waits e)\<rparr>)"
    "length ao = acks_due e" "list_all (ackonly_of e) ao"
    by (rule tx_acks_exact [OF assms(1,2)])
  obtain fc frame ret where plan: "tx_plan e req = (fc, frame, ret)" by (cases "tx_plan e req") auto
  note ok = tx_plan_ok [OF assms(2,3) plan]
  define t where "t = select_max_credit_channel (ep_fc e)"
  have tgt: "t < 6" "t \<noteq> 0 \<Longrightarrow> tx_flow_credits fc ! t \<noteq> 0"
    using select_max_spec(1,3) [of "ep_fc e"] by (auto simp: t_def ok(2))
  define e1 where "e1 = e\<lparr>wire := wire e @ sent e ao, should_send_ackonly_frame := False,
    ackonly_frame_sent := ackonly_frame_sent e \<or> window_waits e,
    ackonly_cnt := ackonly_cnt e + of_bool (window_waits e)\<rparr>"
  define e2 where "e2 = e1\<lparr>ep_fc := fc\<rparr>"
  have "TX env e req = tx_main env t e1 req" using ao(1) by (simp add: TX_main e1_def t_def)
  also have "\<dots> = (case frame of None \<Rightarrow> tx_out e2 ret | Some msg \<Rightarrow> tx_send env e2 t msg ret)"
    unfolding t_def e2_def by (rule tx_main_plan [OF assms(2,3) plan]) (simp_all add: e1_def)
  finally have run: "TX env e req = (case frame of None \<Rightarrow> tx_out e2 ret | Some msg \<Rightarrow> tx_send env e2 t msg ret)" .
  have wf: "ep_wf e2" using assms(2) ok(1) by (simp add: ep_wf_def e2_def e1_def)
  have same: "again e2 = again e" "restarted e2 = restarted e" "sent e2 = sent e"
    "retransmit_buffer e2 = retransmit_buffer e" "ep_fc e2 = fc" "wire e2 = wire e @ sent e ao"
    by (rule same_clock(2,3); simp add: e2_def e1_def)+
      (simp_all add: fun_eq_iff sent_def fabric_up_def e2_def e1_def)
  have el: "element_of e2 = element_of e" "element_of (e\<lparr>ep_fc := fc\<rparr>) = element_of e"
    by (rule same_element; simp add: e2_def e1_def)+
  show ?thesis
  proof (cases frame)
    case None
    obtain q where o: "tx_out e2 ret = Inr (e2\<lparr>wire := wire e2 @ sent e (again e (window e)), retransmit_buffer := q\<rparr>, ret)"
      "ep_wf (e2\<lparr>wire := wire e2 @ sent e (again e (window e)), retransmit_buffer := q\<rparr>)"
      "cq_list q = restarted e (window e)"
      using tx_out_exact [OF wf, of ret] unfolding same(1-4) by metis
    let ?e' = "e2\<lparr>wire := wire e2 @ sent e (again e (window e)), retransmit_buffer := q\<rparr>"
    have "tx_after e ao [] (window e) ?e'" using o(3) same(6) by (simp add: tx_after_def e2_def e1_def)
    then have "tx_exact env e req ?e' ret"
      using ao(2,3) None plan by (auto simp: tx_exact_def e2_def e1_def)
    then show ?thesis using run None o(1,2) by auto
  next
    case (Some msg)
    have m: "\<And>m. msg = Some m \<Longrightarrow> msg_ok m" using ok(4) Some by simp
    have room: "\<not> is_queue_full (retransmit_buffer e2)" using ok(3) Some same(4) by simp
    obtain new els aq fc' q nx where o:
      "tx_send env e2 t msg ret = Inr (e2\<lparr>wire := wire e2 @ sent e (new @ again e els), ack_buffer := aq,
         ep_fc := fc', retransmit_buffer := q, next_tx_seq := nx\<rparr>, if rbe_alloc env then ret else msg)"
      "ep_wf (e2\<lparr>wire := wire e2 @ sent e (new @ again e els), ack_buffer := aq,
         ep_fc := fc', retransmit_buffer := q, next_tx_seq := nx\<rparr>)"
      "cq_list q = restarted e els"
      "send_after (rbe_alloc env) e2 t msg new els (e2\<lparr>wire := wire e2 @ sent e (new @ again e els),
         ack_buffer := aq, ep_fc := fc', retransmit_buffer := q, next_tx_seq := nx\<rparr>)"
      by (rule tx_send_exact [OF wf room m tgt(1), unfolded same(1-3,5), where r = ret and env = env, OF _ tgt(2)])
    let ?e' = "e2\<lparr>wire := wire e2 @ sent e (new @ again e els), ack_buffer := aq,
         ep_fc := fc', retransmit_buffer := q, next_tx_seq := nx\<rparr>"
    have "tx_after e ao new els ?e'" using o(3) same(6) by (simp add: tx_after_def e2_def e1_def)
    moreover have "send_after (rbe_alloc env) (e\<lparr>ep_fc := fc\<rparr>) t msg new els ?e'"
      using o(4) unfolding send_after_def el by (cases "rbe_alloc env") (simp_all add: e2_def e1_def)
    ultimately have "tx_exact env e req ?e' (if rbe_alloc env then ret else msg)"
      using ao(2,3) Some plan unfolding tx_exact_def t_def by auto
    then show ?thesis using run Some o(1,2) by auto
  qed
qed

lemma tx_after_wire:
  assumes "tx_after e ao new els e'"
  shows "wire e' = wire e @ sent e (ao @ new @ again e els)" "window e' = restarted e els"
proof -
  from assms have "wire e' = wire (e\<lparr>wire := wire e @ sent e (ao @ new @ again e els),
      should_send_ackonly_frame := False, ackonly_frame_sent := ackonly_frame_sent e \<or> window_waits e,
      ackonly_cnt := ackonly_cnt e + of_bool (window_waits e),
      retransmit_buffer := retransmit_buffer e', ack_buffer := ack_buffer e', ep_fc := ep_fc e',
      next_tx_seq := next_tx_seq e'\<rparr>)"
    unfolding tx_after_def by (elim conjE) (erule arg_cong)
  then show "wire e' = wire e @ sent e (ao @ new @ again e els)" by simp
  show "window e' = restarted e els" using assms by (simp add: tx_after_def)
qed

text \<open>The receiver asked for an acknowledgement, and a Get waits: both go out, in this order, or the
  acknowledgement alone when there is no memory, and then the Get comes back.\<close>

theorem TX_outcome_witness:
  "let e = example_endpoint\<lparr>should_send_ackonly_frame := True\<rparr>; get = Some (example_get 8) in
   (\<exists>e' p el. TX example_env e get = Inr (e', None) \<and> wire e' = [p, frame_packet (rbe_frame el) (f_size el)] \<and>
      ackonly_of e p \<and> carries el get \<and> window e' = [el] \<and> next_tx_seq e' = 1) \<and>
   (\<exists>e' p. TX (example_env\<lparr>rbe_alloc := False\<rparr>) e get = Inr (e', get) \<and> wire e' = [p] \<and>
      ackonly_of e p \<and> window e' = [] \<and> next_tx_seq e' = 0)"
proof -
  let ?e = "example_endpoint\<lparr>should_send_ackonly_frame := True\<rparr>" and ?get = "Some (example_get 8)"
  let ?env = "example_env\<lparr>rbe_alloc := False\<rparr>"
  have wf: "ep_wf ?e" using example_wf by (simp add: ep_wf_def)
  have env: "env_ok ?env" by (simp add: env_ok_def example_env_def)
  have w: "window ?e = []" "acks ?e = []" "fabric_up ?e" "wire ?e = []" "next_tx_seq ?e = 0"
    "\<not> window_waits ?e" "acks_due ?e = 1"
    by (simp_all add: fabric_up_def example_endpoint_def zero_endpoint_def window_waits_def acks_due_def)
  obtain fc where "fc_credit_dec (ep_fc ?e) (example_get 8) = Inr (fc, 2)"
    using example_credit by auto
  then have plan: "tx_plan ?e ?get = (fc, Some ?get, None)" using w by (simp add: tx_plan_def)
  have get: "\<And>m. ?get = Some m \<Longrightarrow> msg_ok m" using example_get_ok by simp
  have el: "element_of (?e\<lparr>ep_fc := fc\<rparr>) = element_of ?e" by (rule same_element) simp_all
  have out: "\<exists>e' p new els. TX v ?e ?get = Inr (e', if rbe_alloc v then None else ?get) \<and> ackonly_of ?e p \<and>
      wire e' = p # new @ again ?e els \<and> window e' = restarted ?e els \<and>
      (\<exists>c n. if rbe_alloc v then \<exists>el. element_of ?e ?get c n el \<and> els = [el] \<and>
          new = [frame_packet (rbe_frame el) (f_size el)] \<and> next_tx_seq e' = 1
        else els = [] \<and> new = [] \<and> next_tx_seq e' = 0)" if v: "env_ok v" for v
  proof -
    obtain e' kept where t: "TX v ?e ?get = Inr (e', kept)" "tx_exact v ?e ?get e' kept"
      using TX_outcome [OF v wf get] by blast
    then obtain ao new els where x: "length ao = 1" "list_all (ackonly_of ?e) ao" "tx_after ?e ao new els e'"
      "send_after (rbe_alloc v) (?e\<lparr>ep_fc := fc\<rparr>) (select_max_credit_channel (ep_fc ?e)) ?get new els e'"
      "kept = (if rbe_alloc v then None else ?get)"
      unfolding tx_exact_def plan w(7) by auto
    obtain p where p: "ao = [p]" using x(1) by (cases ao) auto
    have "wire e' = p # new @ again ?e els" "window e' = restarted ?e els"
      using tx_after_wire [OF x(3)] w(3,4) p by (simp_all add: sent_def)
    moreover obtain c n where "if rbe_alloc v then \<exists>el. element_of ?e ?get c n el \<and> els = [el] \<and>
          new = [frame_packet (rbe_frame el) (f_size el)] \<and> next_tx_seq e' = 1
        else els = [] \<and> new = [] \<and> next_tx_seq e' = 0"
      using x(4) w(1,5) unfolding send_after_def el by (auto simp: tloe_seqnum_next_def split: if_splits)
    moreover have "TX v ?e ?get = Inr (e', if rbe_alloc v then None else ?get)" "ackonly_of ?e p"
      using t(1) x(2,5) p by simp_all
    ultimately show ?thesis by blast
  qed
  have fresh: "again ?e [el] = [] \<and> restarted ?e [el] = [el] \<and> carries el ?get" if "element_of ?e ?get c n el" for c n el
    using that by (simp add: element_of_def again_def restarted_def)
  have "\<exists>e' p el. TX example_env ?e ?get = Inr (e', None) \<and>
      wire e' = [p, frame_packet (rbe_frame el) (f_size el)] \<and>
      ackonly_of ?e p \<and> carries el ?get \<and> window e' = [el] \<and> next_tx_seq e' = 1"
    using out [OF example_env_ok(1)] example_env_ok(2) fresh by fastforce
  moreover have "\<exists>e' p. TX ?env ?e ?get = Inr (e', ?get) \<and> wire e' = [p] \<and>
      ackonly_of ?e p \<and> window e' = [] \<and> next_tx_seq e' = 0"
    using out [OF env] by (auto simp: again_def restarted_def)
  ultimately show ?thesis unfolding Let_def by blast
qed

end
