(* ===== verification/Receiver.thy ===== *)
theory Receiver
  imports Transmitter
begin

text \<open>
  The receive half of an endpoint's iteration, \<open>tloe_receiver.h\<close> and \<open>tloe_receiver.c\<close>:
  acknowledgements, in-order acceptance, duplicates and out-of-sequence frames.
\<close>

section \<open>The code\<close>

datatype tloe_rx_req_type = REQ_NORMAL | REQ_DUPLICATE | REQ_OOS

definition tloe_rx_get_req_type :: "endpoint \<Rightarrow> tloe_frame \<Rightarrow> tloe_rx_req_type" where
  "tloe_rx_get_req_type e f =
     (let diff_seq = tloe_seqnum_cmp (frame_seq f) (next_rx_seq e) in
      if diff_seq = 0 then REQ_NORMAL
      else if diff_seq < 0 then REQ_DUPLICATE
      else REQ_OOS)"

definition serve_ack :: "endpoint \<Rightarrow> tloe_frame \<Rightarrow> endpoint result" where
  "serve_ack e f =
     bindR (slide_window e f) (\<lambda>e.
     bindR (if ack (header f) = TLOE_NAK
            then retransmit e (tloe_seqnum_next (frame_seq_ack f)) else Inr e) (\<lambda>e.
       Inr (e\<lparr>ack_cnt := ack_cnt e + 1\<rparr>)))"

text \<open>The loop over the mask: every set bit is the flit position of a message.  A full buffer
  makes the program exit.\<close>

function serve_mask :: "endpoint \<Rightarrow> tloe_frame \<Rightarrow> u64 \<Rightarrow> nat \<Rightarrow> endpoint result" where
  "serve_mask e f msk i =
     (if msk = 0 then Inr e
      else
        bindR (if bit msk 0 then
                 bindR (tloe_get_tlmsg f i) (\<lambda>tlmsg.
                   case enqueue (tl_msg_buffer e) tlmsg of
                     (q, ok) \<Rightarrow> if ok then Inr (e\<lparr>tl_msg_buffer := q\<rparr>) else Inl Exited)
               else Inr e) (\<lambda>e.
          serve_mask e f (drop_bit 1 msk) (i + 1)))"
  by pat_completeness auto
termination
proof (relation "measure (\<lambda>(e, f, msk, i). unat msk)", simp)
  fix msk :: u64
  assume "msk \<noteq> 0"
  then have "0 < unat msk" by (simp add: unat_gt_0)
  then have "unat msk div 2 < unat msk" by simp
  then show "((x, f, drop_bit 1 msk, i + 1), (e, f, msk, i)) \<in> measure (\<lambda>(e, f, msk, i). unat msk)"
    for x e f i
    by (simp add: drop_bit_eq_div unat_div)
qed

declare serve_mask.simps [simp del]

definition serve_normal_request :: "endpoint \<Rightarrow> tloe_frame \<Rightarrow> int \<Rightarrow> endpoint result" where
  "serve_normal_request e f n =
     (let e1 = tloe_seqnum_update_acked_seq (tloe_seqnum_update_next_rx_seq e f) f in
      bindR (tloe_get_mask f n) (\<lambda>msk.
      bindR (serve_mask e1 f msk 0) (\<lambda>e2.
      bindR (fc_credit_inc (ep_fc e2) f) (\<lambda>(fc, _). Inr (e2\<lparr>ep_fc := fc\<rparr>)))))"

definition serve_zero_tlmsg_request :: "endpoint \<Rightarrow> tloe_frame \<Rightarrow> endpoint result" where
  "serve_zero_tlmsg_request e f =
     (let e1 = tloe_seqnum_update_acked_seq (tloe_seqnum_update_next_rx_seq e f) f;
          e2 = e1\<lparr>should_send_ackonly_frame := True\<rparr>
      in bindR (fc_credit_inc (ep_fc e2) f) (\<lambda>(fc, _). Inr (e2\<lparr>ep_fc := fc\<rparr>)))"

definition serve_duplicate_request :: "endpoint \<Rightarrow> tloe_frame \<Rightarrow> int \<Rightarrow> endpoint result" where
  "serve_duplicate_request e f n =
     (let g = f\<lparr>header := (header f)\<lparr>seq_num_ack := seq_num (header f), ack := TLOE_ACK,
                                     chan := 0, credit := 0\<rparr>\<rparr> in
      bindR (tloe_set_mask g 0 n) (\<lambda>g.
        case enqueue (ack_buffer e) g of
          (q, enqueued) \<Rightarrow>
            bug_on (\<not> enqueued) (Inr (e\<lparr>ack_buffer := q, dup_cnt := dup_cnt e + 1\<rparr>))))"

definition serve_oos_request :: "endpoint \<Rightarrow> tloe_frame \<Rightarrow> int \<Rightarrow> u32 \<Rightarrow> endpoint result" where
  "serve_oos_request e f n last_proper_rx_seq =
     (let g1 = tloe_seqnum_set_frame_seq_num_ack f last_proper_rx_seq;
          g2 = g1\<lparr>header := (header g1)\<lparr>ack := TLOE_NAK\<rparr>\<rparr>
      in bindR (tloe_set_mask g2 0 n) (\<lambda>g3.
         let g4 = g3\<lparr>header := (header g3)\<lparr>chan := 0, credit := 0\<rparr>\<rparr> in
         case enqueue (ack_buffer e) g4 of
           (q, enqueued) \<Rightarrow>
             bug_on (\<not> enqueued) (Inr (e\<lparr>ack_buffer := q, oos_cnt := oos_cnt e + 1\<rparr>))))"

text \<open>The frame after its acknowledgement was served, by its kind.\<close>

definition rx_dispatch :: "endpoint \<Rightarrow> tloe_frame \<Rightarrow> int \<Rightarrow> endpoint result" where
  "rx_dispatch e f n =
     (case tloe_rx_get_req_type e f of
        REQ_NORMAL \<Rightarrow>
          if handle_single_normal_frame_drop e \<noteq> 0 then Inr e
          else bindR (is_zero_tl_frame f n) (\<lambda>zero.
                 if \<not> zero then serve_normal_request e f n
                 else serve_zero_tlmsg_request e f)
      | REQ_DUPLICATE \<Rightarrow> serve_duplicate_request e f n
      | REQ_OOS \<Rightarrow> serve_oos_request e f n (tloe_seqnum_prev (next_rx_seq e)))"

text \<open>\<open>RX\<close>: \<open>alloc\<close> tells whether the frame could be allocated, \<open>ev\<close> is what the driver
  delivers.\<close>

definition RX :: "bool \<Rightarrow> recv_event \<Rightarrow> endpoint \<Rightarrow> endpoint result" where
  "RX alloc ev e =
     (if \<not> alloc then Inr e
      else case tloe_fabric_recv e ev of
        (n, recv_buffer) \<Rightarrow>
          if n < 0 then Inr e
          else
            bindR (packet_to_tloe_frame recv_buffer n (zero_frame sizeof_tloe_frame)) (\<lambda>f.
            bindR (serve_ack e f) (\<lambda>e.
            let e = e\<lparr>ackonly_frame_sent := False\<rparr> in
            if is_ackonly_frame f then Inr (tloe_seqnum_update_acked_seq e f)
            else if handle_normal_frame_drop e \<noteq> 0 then Inr e
            else rx_dispatch e f n)))"

section \<open>Serving the acknowledgement\<close>

text \<open>The frames that the acknowledgement leaves in the window, and the packets that a negative
  one sends again.\<close>

definition unacked :: "endpoint \<Rightarrow> tloe_frame \<Rightarrow> retransmit_element list" where
  "unacked e f = dropWhile (\<lambda>el. \<not> tloe_seqnum_cmp (rbe_seq el) (frame_seq_ack f) > 0)
     (cq_list (retransmit_buffer e))"

definition nak_packets :: "endpoint \<Rightarrow> tloe_frame \<Rightarrow> byte list list" where
  "nak_packets e f =
     (if ack (header f) = TLOE_NAK
      then map (resend_packet e)
             (filter (resends (tloe_seqnum_next (frame_seq_ack f))) (unacked e f))
      else [])"

lemma all_ack_nak:
  assumes "ep_wf e"
  shows "all_ack (sent e (nak_packets e f))"
proof -
  have "list_all rbe_normal (unacked e f)"
    using ep_wfD(7) [OF assms] unfolding unacked_def list_all_iff by (meson set_dropWhileD)
  then show ?thesis by (intro all_ack_sent) (simp add: nak_packets_def all_ack_resend)
qed

lemma serve_ack_ok:
  assumes "ep_wf e"
  obtains q where
    "serve_ack e f = Inr (e\<lparr>wire := wire e @ sent e (nak_packets e f), retransmit_buffer := q,
       ack_cnt := ack_cnt e + 1\<rparr>)"
    "ep_wf (e\<lparr>wire := wire e @ sent e (nak_packets e f), retransmit_buffer := q,
       ack_cnt := ack_cnt e + 1\<rparr>)"
    "map rbe_key (cq_list q) = map rbe_key (unacked e f)"
proof -
  obtain q1 where q1: "slide_window e f = Inr (e\<lparr>retransmit_buffer := q1\<rparr>)"
    "ep_wf (e\<lparr>retransmit_buffer := q1\<rparr>)" "cq_list q1 = unacked e f"
    using slide_window_wf [OF assms, of f] unfolding unacked_def by metis
  let ?e1 = "e\<lparr>retransmit_buffer := q1\<rparr>"
  let ?n = "tloe_seqnum_next (frame_seq_ack f)"
  have ctx: "sent ?e1 = sent e" "resend_packet ?e1 = resend_packet e"
    by (simp_all add: fun_eq_iff sent_def fabric_up_def resend_packet_def
        tloe_seqnum_set_seq_num_ack_def)
  show thesis
  proof (cases "ack (header f) = TLOE_NAK")
    case True
    obtain q where q: "retransmit ?e1 ?n = Inr (?e1\<lparr>wire := wire ?e1 @ sent ?e1
        (map (resend_packet ?e1) (filter (resends ?n) (cq_list (retransmit_buffer ?e1)))),
        retransmit_buffer := q\<rparr>)"
      "ep_wf (?e1\<lparr>wire := wire ?e1 @ sent ?e1
        (map (resend_packet ?e1) (filter (resends ?n) (cq_list (retransmit_buffer ?e1)))),
        retransmit_buffer := q\<rparr>)"
      "cq_list q = map (mark_resent ?e1 ?n) (cq_list (retransmit_buffer ?e1))"
      using retransmit_wf [OF q1(2), of ?n] by metis
    have keys: "map rbe_key (cq_list q) = map rbe_key (unacked e f)" using q(3) q1(3) by simp
    show thesis
      by (rule that [OF _ _ keys])
        (use q(1,2) q1 True in \<open>simp_all add: serve_ack_def nak_packets_def ctx ep_wf_def\<close>)
  next
    case False
    have "map rbe_key (cq_list q1) = map rbe_key (unacked e f)" using q1(3) by simp
    then show thesis
      by (rule that [rotated 2])
        (use q1 False in \<open>simp_all add: serve_ack_def nak_packets_def ep_wf_def\<close>)
  qed
qed

section \<open>The messages of a frame\<close>

definition mask_bits :: "u64 \<Rightarrow> nat list" where
  "mask_bits msk = filter (bit msk) [0..<64]"

lemma mask_bits_0 [simp]: "mask_bits 0 = []"
  by (simp add: mask_bits_def)

lemma mask_bits_step:
  "mask_bits msk = (if bit msk 0 then [0] else []) @ map Suc (mask_bits (drop_bit 1 msk))"
proof -
  have "[0..<64::nat] = 0 # map Suc [0..<63]" by (simp add: map_Suc_upt upt_rec)
  moreover have "filter (bit msk) (map Suc [0..<63]) =
      map Suc (filter (bit (drop_bit 1 msk)) [0..<63])"
    by (simp add: filter_map comp_def bit_drop_bit_eq)
  moreover have "filter (bit (drop_bit 1 msk)) [0..<64] = filter (bit (drop_bit 1 msk)) [0..<63]"
  proof -
    have "[0..<64::nat] = [0..<63] @ [63]"
      using upt_Suc_append [of 0 63] by (simp add: numeral_eq_Suc)
    moreover have "\<not> bit (drop_bit 1 msk) 63"
      by (auto simp: bit_drop_bit_eq dest: bit_imp_le_length)
    ultimately show ?thesis by simp
  qed
  ultimately show ?thesis by (simp add: mask_bits_def)
qed

lemma serve_mask_bit:
  assumes "bit msk 0" "tloe_get_tlmsg f i = Inr m" "\<not> is_queue_full (tl_msg_buffer e)"
  shows "serve_mask e f msk i =
    serve_mask (e\<lparr>tl_msg_buffer := fst (enqueue (tl_msg_buffer e) m)\<rparr>) f (drop_bit 1 msk) (Suc i)"
proof -
  obtain q where en: "enqueue (tl_msg_buffer e) m = (q, True)"
    using assms(3) by (simp add: enqueue_def)
  have "msk \<noteq> 0" using assms(1) by auto
  then have "serve_mask e f msk i = serve_mask (e\<lparr>tl_msg_buffer := q\<rparr>) f (drop_bit 1 msk) (i + 1)"
    by (subst serve_mask.simps) (simp add: assms(1,2) en)
  then show ?thesis by (simp add: en)
qed

lemma serve_mask_skip:
  "msk \<noteq> 0 \<Longrightarrow> \<not> bit msk 0 \<Longrightarrow> serve_mask e f msk i = serve_mask e f (drop_bit 1 msk) (Suc i)"
  by (subst serve_mask.simps) simp

text \<open>The loop over the mask appends the messages at the marked positions, in order, when they
  can be read and there is room.\<close>

lemma serve_mask_ok:
  assumes "cq_inv (tl_msg_buffer e)"
    and "\<forall>j \<in> set (mask_bits msk). tloe_get_tlmsg f (i + j) = Inr (b (i + j))"
    and "length (cq_list (tl_msg_buffer e)) + length (mask_bits msk) \<le> cq_cap (tl_msg_buffer e)"
  shows "\<exists>q. serve_mask e f msk i = Inr (e\<lparr>tl_msg_buffer := q\<rparr>) \<and> cq_inv q \<and>
    cq_cap q = cq_cap (tl_msg_buffer e) \<and>
    cq_list q = cq_list (tl_msg_buffer e) @ map (\<lambda>j. b (i + j)) (mask_bits msk)"
  using assms
proof (induction "unat msk" arbitrary: e msk i rule: less_induct)
  case less
  note step = mask_bits_step [of msk]
  let ?m = "drop_bit 1 msk"
  show ?case
  proof (cases "msk = 0")
    case True
    then show ?thesis using less.prems(1)
      by (intro exI [of _ "tl_msg_buffer e"]) (simp add: serve_mask.simps)
  next
    case False
    then have dec: "unat ?m < unat msk" by (simp add: drop_bit_eq_div unat_div unat_gt_0)
    show ?thesis
    proof (cases "bit msk 0")
      case True
      let ?q = "fst (enqueue (tl_msg_buffer e) (b i))"
      let ?e = "e\<lparr>tl_msg_buffer := ?q\<rparr>"
      have rd: "tloe_get_tlmsg f i = Inr (b i)" using less.prems(2) step True by simp
      have room: "\<not> is_queue_full (tl_msg_buffer e)"
        using less.prems(1,3) step True by (simp add: is_queue_full_iff)
      note q = enqueue_room [OF less.prems(1) room, of "b i"]
      have "\<forall>j \<in> set (mask_bits ?m). tloe_get_tlmsg f (Suc i + j) = Inr (b (Suc i + j))"
        using less.prems(2) step True by simp
      moreover have "length (cq_list (tl_msg_buffer ?e)) + length (mask_bits ?m) \<le>
          cq_cap (tl_msg_buffer ?e)"
        using less.prems(3) step True q(2) by (simp del: length_cq_list)
      ultimately obtain q' where "serve_mask ?e f ?m (Suc i) = Inr (?e\<lparr>tl_msg_buffer := q'\<rparr>)"
        "cq_inv q'" "cq_cap q' = cq_cap ?q"
        "cq_list q' = cq_list ?q @ map (\<lambda>j. b (Suc i + j)) (mask_bits ?m)"
        using less.hyps [OF dec, of ?e "Suc i"] q(3) by auto
      then show ?thesis
        using serve_mask_bit [OF True rd room] step True q(2) by auto
    next
      case no: False
      have "\<forall>j \<in> set (mask_bits ?m). tloe_get_tlmsg f (Suc i + j) = Inr (b (Suc i + j))"
        "length (cq_list (tl_msg_buffer e)) + length (mask_bits ?m) \<le> cq_cap (tl_msg_buffer e)"
        using less.prems(2,3) step no by simp_all
      then obtain q' where "serve_mask e f ?m (Suc i) = Inr (e\<lparr>tl_msg_buffer := q'\<rparr>)"
        "cq_inv q'" "cq_cap q' = cq_cap (tl_msg_buffer e)"
        "cq_list q' = cq_list (tl_msg_buffer e) @ map (\<lambda>j. b (Suc i + j)) (mask_bits ?m)"
        using less.hyps [OF dec less.prems(1)] by blast
      then show ?thesis
        using serve_mask_skip [OF False no] step no by auto
    qed
  qed
qed

section \<open>What RX does with a frame\<close>

text \<open>The frame \<open>f\<close> of \<open>n\<close> bytes: its mask word, the message blocks it marks, and whether they
  can all be read without leaving the frame.\<close>

definition frame_blocks :: "tloe_frame \<Rightarrow> int \<Rightarrow> tl_block list" where
  "frame_blocks f n =
     (case tloe_get_mask f n of
        Inl _ \<Rightarrow> []
      | Inr w \<Rightarrow> map (\<lambda>j. case tloe_get_tlmsg f j of Inl _ \<Rightarrow> Truncated | Inr b \<Rightarrow> b) (mask_bits w))"

definition frame_readable :: "tloe_frame \<Rightarrow> int \<Rightarrow> bool" where
  "frame_readable f n \<longleftrightarrow> unat (chan (header f)) < CHANNEL_NUM \<and>
     (case tloe_get_mask f n of
        Inl _ \<Rightarrow> False
      | Inr w \<Rightarrow> list_all (\<lambda>j. \<exists>b. tloe_get_tlmsg f j = Inr b) (mask_bits w))"

text \<open>There is room for what the frame asks for.\<close>

definition rx_room :: "endpoint \<Rightarrow> tloe_frame \<Rightarrow> int \<Rightarrow> bool" where
  "rx_room e f n \<longleftrightarrow>
     (if tloe_rx_get_req_type e f = REQ_NORMAL
      then length (cq_list (tl_msg_buffer e)) + length (frame_blocks f n) \<le> cq_cap (tl_msg_buffer e)
      else \<not> is_queue_full (ack_buffer e))"

text \<open>What no frame changes.\<close>

definition rx_keeps :: "endpoint \<Rightarrow> endpoint \<Rightarrow> bool" where
  "rx_keeps e e' \<longleftrightarrow>
     next_tx_seq e' = next_tx_seq e \<and> message_buffer e' = message_buffer e \<and>
     response_buffer e' = response_buffer e \<and> iteration_ts e' = iteration_ts e \<and>
     ep_fabric e' = ep_fabric e \<and> connection e' = connection e \<and> master e' = master e \<and>
     is_done e' = is_done e \<and> printed e' = printed e \<and>
     tx_flow_credits (ep_fc e') = tx_flow_credits (ep_fc e)"

text \<open>What the kind of the frame decides: a frame in order hands its messages over, advances the
  receiver and adds the credit it returns; a frame that came before is acknowledged again; a frame
  that came too early is answered with the last number in order.  The last two deliver nothing.\<close>

definition rx_takes :: "endpoint \<Rightarrow> tloe_frame \<Rightarrow> int \<Rightarrow> endpoint \<Rightarrow> bool" where
  "rx_takes e f n e' \<longleftrightarrow>
     next_rx_seq e' = tloe_seqnum_next (next_rx_seq e) \<and>
     cq_list (tl_msg_buffer e') = cq_list (tl_msg_buffer e) @ frame_blocks f n \<and>
     cq_cap (tl_msg_buffer e') = cq_cap (tl_msg_buffer e) \<and> ack_buffer e' = ack_buffer e \<and>
     (\<exists>r. fc_credit_inc (ep_fc e) f = Inr (ep_fc e', r)) \<and>
     should_send_ackonly_frame e' =
       (should_send_ackonly_frame e \<or> tloe_get_mask f n = Inr 0)"

definition rx_answers :: "endpoint \<Rightarrow> 22 word \<Rightarrow> 1 word \<Rightarrow> endpoint \<Rightarrow> bool" where
  "rx_answers e a k e' \<longleftrightarrow>
     next_rx_seq e' = next_rx_seq e \<and> tl_msg_buffer e' = tl_msg_buffer e \<and> ep_fc e' = ep_fc e \<and>
     should_send_ackonly_frame e' = should_send_ackonly_frame e \<and>
     (\<exists>g. cq_list (ack_buffer e') = cq_list (ack_buffer e) @ [g] \<and>
          seq_num_ack (header g) = a \<and> ack (header g) = k)"

definition rx_kind :: "endpoint \<Rightarrow> tloe_frame \<Rightarrow> int \<Rightarrow> endpoint \<Rightarrow> bool" where
  "rx_kind e f n e' =
     (case tloe_rx_get_req_type e f of
        REQ_NORMAL \<Rightarrow> rx_takes e f n e'
      | REQ_DUPLICATE \<Rightarrow> rx_answers e (seq_num (header f)) TLOE_ACK e' \<and> dup_cnt e' = dup_cnt e + 1
      | REQ_OOS \<Rightarrow>
          rx_answers e (ucast (tloe_seqnum_prev (next_rx_seq e))) TLOE_NAK e' \<and>
          oos_cnt e' = oos_cnt e + 1)"

lemma mask_bits_Nil: "mask_bits w = [] \<longleftrightarrow> w = 0"
proof
  assume "mask_bits w = []"
  then have "\<not> bit w j" if "j < 64" for j using that by (simp add: mask_bits_def filter_empty_conv)
  then show "w = 0" by (intro bit_word_eqI) simp
qed simp

text \<open>The number of a frame in order is the expected one.\<close>

lemma rx_normal_seq:
  "tloe_rx_get_req_type e f = REQ_NORMAL \<longleftrightarrow> frame_seq f = next_rx_seq e"
  by (simp add: tloe_rx_get_req_type_def Let_def cmp_zero_iff)

lemma rx_normal_ok:
  assumes "ep_wf e" "tloe_rx_get_req_type e f = REQ_NORMAL" "frame_readable f n" "rx_room e f n"
  obtains e' where "rx_dispatch e f n = Inr e'" "ep_wf e'" "rx_takes e f n e'" "rx_keeps e e'"
    "retransmit_buffer e' = retransmit_buffer e" "wire e' = wire e"
    "ack_cnt e' = ack_cnt e" "ackonly_frame_sent e' = ackonly_frame_sent e"
proof -
  note wf = ep_wfD [OF assms(1)]
  obtain w where w: "tloe_get_mask f n = Inr w"
    "list_all (\<lambda>j. \<exists>b. tloe_get_tlmsg f j = Inr b) (mask_bits w)"
    using assms(3) by (auto simp: frame_readable_def split: sum.splits)
  obtain fc r where fc: "fc_credit_inc (ep_fc e) f = Inr (fc, r)"
    using fc_credit_inc_ok [of f "ep_fc e"] assms(3) by (auto simp: frame_readable_def)
  note inv = fc_credit_inc_inv [OF wf(12) fc]
  have sq: "frame_seq f = next_rx_seq e" using assms(2) by (simp add: rx_normal_seq)
  define a where "a = (if tloe_seqnum_cmp (frame_seq_ack f) (acked_seq e) > 0
                    then frame_seq_ack f else acked_seq e)"
  have aok: "seq_ok a" using wf(11) by (simp add: a_def)
  let ?b = "\<lambda>j. case tloe_get_tlmsg f j of Inl _ \<Rightarrow> Truncated | Inr b \<Rightarrow> b"
  have bl: "frame_blocks f n = map ?b (mask_bits w)" by (simp add: frame_blocks_def w(1))
  let ?e1 = "e\<lparr>next_rx_seq := tloe_seqnum_next (next_rx_seq e), acked_seq := a\<rparr>"
  have upd: "tloe_seqnum_update_acked_seq (tloe_seqnum_update_next_rx_seq e f) f = ?e1"
    by (simp add: update_acked_seq_eq tloe_seqnum_update_next_rx_seq_def sq a_def)
  have wf1: "ep_wf ?e1" using assms(1) aok by (simp add: ep_wf_def)
  show thesis
  proof (cases "w = 0")
    case True
    let ?e' = "?e1\<lparr>should_send_ackonly_frame := True, ep_fc := fc\<rparr>"
    have "rx_dispatch e f n = Inr ?e'"
      using assms(2) w(1) True fc
      by (simp add: rx_dispatch_def handle_single_normal_frame_drop_def is_zero_tl_frame_def
          serve_zero_tlmsg_request_def Let_def upd)
    moreover have "ep_wf ?e'" using wf1 inv(1) by (simp add: ep_wf_def)
    moreover have "rx_takes e f n ?e'" using fc w True by (simp add: rx_takes_def bl)
    moreover have "rx_keeps e ?e'" using inv(3) by (simp add: rx_keeps_def)
    ultimately show thesis by (intro that [of ?e']) simp_all
  next
    case False
    have "\<forall>j \<in> set (mask_bits w). tloe_get_tlmsg f (0 + j) = Inr (?b (0 + j))"
      using w(2) by (auto simp: list_all_iff)
    moreover have "length (cq_list (tl_msg_buffer ?e1)) + length (mask_bits w) \<le>
        cq_cap (tl_msg_buffer ?e1)"
      using assms(2,4) by (simp add: rx_room_def bl)
    moreover have "cq_inv (tl_msg_buffer ?e1)" using wf(5) by simp
    ultimately obtain q where q: "serve_mask ?e1 f w 0 = Inr (?e1\<lparr>tl_msg_buffer := q\<rparr>)" "cq_inv q"
      "cq_list q = cq_list (tl_msg_buffer ?e1) @ map (\<lambda>j. ?b (0 + j)) (mask_bits w)"
      "cq_cap q = cq_cap (tl_msg_buffer ?e1)"
      using serve_mask_ok [of ?e1 w f 0 ?b] by blast
    let ?e' = "?e1\<lparr>tl_msg_buffer := q, ep_fc := fc\<rparr>"
    have "rx_dispatch e f n = Inr ?e'"
      using assms(2) w(1) False fc q(1)
      by (simp add: rx_dispatch_def handle_single_normal_frame_drop_def is_zero_tl_frame_def
          serve_normal_request_def Let_def upd)
    moreover have "ep_wf ?e'" using wf1 inv(1) q(2) by (simp add: ep_wf_def)
    moreover have "rx_takes e f n ?e'" using fc w False q(3,4) by (simp add: rx_takes_def bl)
    moreover have "rx_keeps e ?e'" using inv(3) by (simp add: rx_keeps_def)
    ultimately show thesis by (intro that [of ?e']) simp_all
  qed
qed

lemma set_mask_inside:
  assumes "n = 8 + 8 * int k" "0 < k" "k \<le> length (flits f)"
  shows "tloe_set_mask f v n = Inr (f\<lparr>flits := (flits f)[k - 1 := v]\<rparr>)"
proof -
  obtain j where j: "k = Suc j" using assms(2) by (cases k) auto
  then have "mask_index n = int j" using assms(1) by (simp add: mask_index_def)
  then show ?thesis using assms(3) j by (simp add: tloe_set_mask_def)
qed

lemma rx_late_ok:
  assumes "ep_wf e" "tloe_rx_get_req_type e f \<noteq> REQ_NORMAL" "rx_room e f n"
    and "n = 8 + 8 * int k" "0 < k" "k \<le> length (flits f)"
  obtains e' where "rx_dispatch e f n = Inr e'" "ep_wf e'" "rx_kind e f n e'" "rx_keeps e e'"
    "retransmit_buffer e' = retransmit_buffer e" "wire e' = wire e"
    "ack_cnt e' = ack_cnt e" "ackonly_frame_sent e' = ackonly_frame_sent e"
proof -
  note wf = ep_wfD [OF assms(1)]
  have room: "\<not> is_queue_full (ack_buffer e)" using assms(2,3) by (simp add: rx_room_def)
  have en: "\<exists>q. enqueue (ack_buffer e) g = (q, True) \<and> cq_inv q \<and>
      cq_list q = cq_list (ack_buffer e) @ [g]" for g
    using enqueue_room [OF wf(4) room, of g] by (cases "enqueue (ack_buffer e) g") simp
  show thesis
  proof (cases "tloe_rx_get_req_type e f")
    case REQ_NORMAL
    then show thesis using assms(2) by simp
  next
    case REQ_DUPLICATE
    define g where "g = f\<lparr>header := (header f)\<lparr>seq_num_ack := seq_num (header f), ack := 1,
      chan := 0, credit := 0\<rparr>, flits := (flits f)[k - 1 := 0]\<rparr>"
    obtain q where q: "enqueue (ack_buffer e) g = (q, True)" "cq_inv q"
      "cq_list q = cq_list (ack_buffer e) @ [g]" using en by blast
    let ?e' = "e\<lparr>ack_buffer := q, dup_cnt := dup_cnt e + 1\<rparr>"
    have "tloe_set_mask (f\<lparr>header := (header f)\<lparr>seq_num_ack := seq_num (header f), ack := 1,
      chan := 0, credit := 0\<rparr>\<rparr>) 0 n = Inr g"
      using assms(4-6) by (subst set_mask_inside) (simp_all add: g_def)
    then have "rx_dispatch e f n = Inr ?e'"
      using REQ_DUPLICATE q(1)
      by (simp add: rx_dispatch_def serve_duplicate_request_def)
    moreover have "ep_wf ?e'" using assms(1) q(2) by (simp add: ep_wf_def)
    moreover have "rx_kind e f n ?e'"
      using REQ_DUPLICATE q(3) by (simp add: rx_kind_def rx_answers_def g_def)
    moreover have "rx_keeps e ?e'" by (simp add: rx_keeps_def)
    ultimately show thesis by (intro that [of ?e']) simp_all
  next
    case REQ_OOS
    let ?a = "ucast (tloe_seqnum_prev (next_rx_seq e)) :: 22 word"
    define g where "g = f\<lparr>flits := (flits f)[k - 1 := 0], header := (header f)\<lparr>
      seq_num_ack := ?a, ack := 0, chan := 0, credit := 0\<rparr>\<rparr>"
    obtain q where q: "enqueue (ack_buffer e) g = (q, True)" "cq_inv q"
      "cq_list q = cq_list (ack_buffer e) @ [g]" using en by blast
    let ?e' = "e\<lparr>ack_buffer := q, oos_cnt := oos_cnt e + 1\<rparr>"
    have "tloe_set_mask (f\<lparr>header := (header f)\<lparr>seq_num_ack := ?a, ack := 0\<rparr>\<rparr>) 0 n =
        Inr (f\<lparr>header := (header f)\<lparr>seq_num_ack := ?a, ack := 0\<rparr>, flits := (flits f)[k - 1 := 0]\<rparr>)"
      using assms(4-6) by (subst set_mask_inside) simp_all
    then have "rx_dispatch e f n = Inr ?e'"
      using REQ_OOS q(1)
      by (simp add: rx_dispatch_def serve_oos_request_def tloe_seqnum_set_frame_seq_num_ack_def
          g_def Let_def)
    moreover have "ep_wf ?e'" using assms(1) q(2) by (simp add: ep_wf_def)
    moreover have "rx_kind e f n ?e'"
      using REQ_OOS q(3) by (simp add: rx_kind_def rx_answers_def g_def)
    moreover have "rx_keeps e ?e'" by (simp add: rx_keeps_def)
    ultimately show thesis by (intro that [of ?e']) simp_all
  qed
qed

section \<open>RX\<close>

text \<open>What a call of \<open>RX\<close> that receives the frame \<open>f\<close> of \<open>n\<close> bytes does.\<close>

definition rx_result :: "endpoint \<Rightarrow> tloe_frame \<Rightarrow> int \<Rightarrow> endpoint \<Rightarrow> bool" where
  "rx_result e f n e' \<longleftrightarrow>
     window_keys e' = map rbe_key (unacked e f) \<and> wire e' = wire e @ sent e (nak_packets e f) \<and>
     \<not> ackonly_frame_sent e' \<and> ack_cnt e' = ack_cnt e + 1 \<and> rx_keeps e e' \<and>
     (if is_ackonly_frame f
      then next_rx_seq e' = next_rx_seq e \<and> tl_msg_buffer e' = tl_msg_buffer e \<and>
           ack_buffer e' = ack_buffer e \<and> ep_fc e' = ep_fc e
      else rx_kind e f n e')"

text \<open>A packet that \<open>RX\<close> can take in without running over its frame or its queues.\<close>

definition rx_packet :: "recv_event \<Rightarrow> tloe_frame \<Rightarrow> bool" where
  "rx_packet ev f \<longleftrightarrow> 16 \<le> fst ev \<and> fst ev \<le> 528 \<and> fst ev mod 8 = 0 \<and>
     packet_to_tloe_frame (snd ev) (fst ev) (zero_frame sizeof_tloe_frame) = Inr f"

lemma rx_packetD:
  assumes "rx_packet (n, buf) f"
  obtains k where "n = 8 + 8 * int k" "0 < k" "k \<le> 65" "length (flits f) = 65"
proof -
  have n: "16 \<le> n" "n \<le> 528" "n mod 8 = 0" using assms by (simp_all add: rx_packet_def)
  then have d: "n = 8 * (n div 8)" "2 \<le> n div 8" "n div 8 \<le> 66" by auto
  then have "n = 8 + 8 * int (nat (n div 8 - 1))" by simp
  moreover have "0 < nat (n div 8 - 1)" "nat (n div 8 - 1) \<le> 65" using d by simp_all
  moreover have "length (flits f) = 65"
    using packet_to_frame_header(2) [of buf n "zero_frame 528" f] assms
    by (simp add: rx_packet_def sizeof_tloe_frame_def)
  ultimately show thesis by (rule that)
qed

lemma serve_ack_ctx:
  assumes "e1 = e\<lparr>wire := w, retransmit_buffer := q, ack_cnt := c, ackonly_frame_sent := b\<rparr>"
  shows "tloe_rx_get_req_type e1 f = tloe_rx_get_req_type e f"
    "rx_room e1 f n = rx_room e f n" "rx_keeps e1 e' = rx_keeps e e'"
    "rx_kind e1 f n e' = rx_kind e f n e'"
proof -
  show t: "tloe_rx_get_req_type e1 f = tloe_rx_get_req_type e f"
    by (simp add: assms tloe_rx_get_req_type_def)
  show "rx_room e1 f n = rx_room e f n" unfolding rx_room_def t by (simp add: assms)
  show "rx_keeps e1 e' = rx_keeps e e'" by (simp add: assms rx_keeps_def)
  show "rx_kind e1 f n e' = rx_kind e f n e'"
    unfolding rx_kind_def t
    by (cases "tloe_rx_get_req_type e f") (simp_all add: assms rx_takes_def rx_answers_def)
qed

lemma RX_ok:
  assumes "ep_wf e" "fabric_up e" "rx_packet (n, buf) f"
    and "\<not> is_ackonly_frame f \<Longrightarrow> frame_readable f n \<and> rx_room e f n"
  obtains e' where "RX True (n, buf) e = Inr e'" "ep_wf e'" "rx_result e f n e'"
proof -
  obtain k where k: "n = 8 + 8 * int k" "0 < k" "k \<le> 65" "length (flits f) = 65"
    by (rule rx_packetD [OF assms(3)])
  obtain q where q: "serve_ack e f = Inr (e\<lparr>wire := wire e @ sent e (nak_packets e f),
       retransmit_buffer := q, ack_cnt := ack_cnt e + 1\<rparr>)"
    "ep_wf (e\<lparr>wire := wire e @ sent e (nak_packets e f), retransmit_buffer := q,
       ack_cnt := ack_cnt e + 1\<rparr>)"
    "map rbe_key (cq_list q) = map rbe_key (unacked e f)"
    using serve_ack_ok [OF assms(1), of f] by metis
  define e1 where "e1 = e\<lparr>wire := wire e @ sent e (nak_packets e f), retransmit_buffer := q,
       ack_cnt := ack_cnt e + 1, ackonly_frame_sent := False\<rparr>"
  note ctx = serve_ack_ctx [OF e1_def]
  have wf1: "ep_wf e1" using q(2) by (simp add: ep_wf_def e1_def)
  have run: "RX True (n, buf) e =
      (if is_ackonly_frame f then Inr (tloe_seqnum_update_acked_seq e1 f)
       else rx_dispatch e1 f n)"
    using assms(2,3) q(1) k(1)
    by (simp add: RX_def tloe_fabric_recv_def rx_packet_def Let_def e1_def
        handle_normal_frame_drop_def)
  have res: "rx_result e f n e'"
    if "retransmit_buffer e' = q" "wire e' = wire e1" "ack_cnt e' = ack_cnt e1"
      "\<not> ackonly_frame_sent e'" "rx_keeps e e'"
      "if is_ackonly_frame f
       then next_rx_seq e' = next_rx_seq e \<and> tl_msg_buffer e' = tl_msg_buffer e \<and>
           ack_buffer e' = ack_buffer e \<and> ep_fc e' = ep_fc e
       else rx_kind e f n e'" for e'
    using that q(3) by (simp add: rx_result_def window_keys_def e1_def)
  show thesis
  proof (cases "is_ackonly_frame f")
    case True
    let ?e' = "tloe_seqnum_update_acked_seq e1 f"
    have "ep_wf ?e'" using wf1 by (simp add: update_acked_seq_eq ep_wf_def)
    moreover have "rx_result e f n ?e'"
      by (rule res) (simp_all add: True update_acked_seq_eq e1_def rx_keeps_def)
    ultimately show thesis using run True by (intro that [of ?e']) simp_all
  next
    case False
    have rd: "frame_readable f n" "rx_room e1 f n" using assms(4) False by (simp_all add: ctx)
    have "\<exists>e'. rx_dispatch e1 f n = Inr e' \<and> ep_wf e' \<and> rx_kind e1 f n e' \<and> rx_keeps e1 e' \<and>
      retransmit_buffer e' = retransmit_buffer e1 \<and> wire e' = wire e1 \<and>
      ack_cnt e' = ack_cnt e1 \<and> ackonly_frame_sent e' = ackonly_frame_sent e1"
    proof (cases "tloe_rx_get_req_type e1 f = REQ_NORMAL")
      case True
      then show ?thesis
        using rx_normal_ok [OF wf1 True rd] by (simp add: rx_kind_def) metis
    next
      case False
      have "k \<le> length (flits f)" using k by simp
      then show ?thesis using rx_late_ok [OF wf1 False rd(2) k(1,2)] by metis
    qed
    then obtain e' where e': "rx_dispatch e1 f n = Inr e'" "ep_wf e'" "rx_kind e f n e'"
      "rx_keeps e e'" "retransmit_buffer e' = q" "wire e' = wire e1" "ack_cnt e' = ack_cnt e1"
      "\<not> ackonly_frame_sent e'"
      unfolding ctx by (auto simp: e1_def)
    then have "rx_result e f n e'" by (intro res) (simp_all add: False)
    then show thesis using run e' False by (intro that [of e']) simp_all
  qed
qed

section \<open>Errors\<close>

text \<open>A packet of more than 528 bytes does not fit the frame that \<open>RX\<close> allocates.\<close>

lemma RX_oversized:
  assumes "fabric_up e" "536 \<le> n"
  shows "RX True (n, buf) e = Inl Out_Of_Bounds"
proof -
  have "65 < nat (n div 8 - 1)" using assms(2) by linarith
  then have "packet_to_tloe_frame buf n (zero_frame 528) = Inl Out_Of_Bounds"
    by (simp add: packet_to_tloe_frame_def Let_def)
  then show ?thesis
    using assms by (simp add: RX_def tloe_fabric_recv_def sizeof_tloe_frame_def)
qed

lemma rx_dispatch_full:
  assumes "cq_inv (ack_buffer e)" "tloe_rx_get_req_type e f \<noteq> REQ_NORMAL"
    "is_queue_full (ack_buffer e)" "n = 8 + 8 * int k" "0 < k" "k \<le> length (flits f)"
  shows "rx_dispatch e f n = Inl Bug_On"
proof -
  have en: "enqueue (ack_buffer e) g = (ack_buffer e, False)" for g
    by (rule enqueue_full [OF assms(3)])
  have msk: "\<exists>h. tloe_set_mask (f\<lparr>header := x\<rparr>) 0 n = Inr h" for x
    using set_mask_inside [of n k "f\<lparr>header := x\<rparr>" 0] assms(4-6) by simp
  show ?thesis
  proof (cases "tloe_rx_get_req_type e f")
    case REQ_DUPLICATE
    obtain h where "tloe_set_mask (f\<lparr>header := (header f)\<lparr>seq_num_ack := seq_num (header f), ack := 1,
        chan := 0, credit := 0\<rparr>\<rparr>) 0 n = Inr h" using msk by blast
    then show ?thesis using REQ_DUPLICATE
      by (simp add: rx_dispatch_def serve_duplicate_request_def en)
  next
    case REQ_OOS
    obtain h where "tloe_set_mask (f\<lparr>header := (header f)\<lparr>seq_num_ack :=
        ucast (tloe_seqnum_prev (next_rx_seq e)), ack := 0\<rparr>\<rparr>) 0 n = Inr h" using msk by blast
    then show ?thesis using REQ_OOS
      by (simp add: rx_dispatch_def serve_oos_request_def tloe_seqnum_set_frame_seq_num_ack_def en
          Let_def)
  qed (use assms(2) in simp)
qed

lemma RX_ack_buffer_full:
  assumes "ep_wf e" "fabric_up e" "rx_packet (n, buf) f" "\<not> is_ackonly_frame f"
    and "frame_seq f \<noteq> next_rx_seq e" "is_queue_full (ack_buffer e)"
  shows "RX True (n, buf) e = Inl Bug_On"
proof -
  obtain k where k: "n = 8 + 8 * int k" "0 < k" "k \<le> 65" "length (flits f) = 65"
    by (rule rx_packetD [OF assms(3)])
  obtain q where q: "serve_ack e f = Inr (e\<lparr>wire := wire e @ sent e (nak_packets e f),
       retransmit_buffer := q, ack_cnt := ack_cnt e + 1\<rparr>)"
    using serve_ack_ok [OF assms(1), of f] by metis
  define e1 where "e1 = e\<lparr>wire := wire e @ sent e (nak_packets e f), retransmit_buffer := q,
       ack_cnt := ack_cnt e + 1, ackonly_frame_sent := False\<rparr>"
  have "tloe_rx_get_req_type e1 f \<noteq> REQ_NORMAL" using assms(5) by (simp add: rx_normal_seq e1_def)
  then have "rx_dispatch e1 f n = Inl Bug_On"
    using ep_wfD(4) [OF assms(1)] assms(6) k
    by (intro rx_dispatch_full [where k = k]) (simp_all add: e1_def)
  then show ?thesis
    using assms(2-4) q(1) k(1)
    by (simp add: RX_def tloe_fabric_recv_def rx_packet_def Let_def e1_def
        handle_normal_frame_drop_def)
qed

section \<open>Success means room\<close>

text \<open>When the loop over the mask ends without an error, there was room for all messages.\<close>

lemma serve_mask_room:
  assumes "cq_inv (tl_msg_buffer e)" "serve_mask e f msk i = Inr e'"
  shows "length (cq_list (tl_msg_buffer e)) + length (mask_bits msk) \<le> cq_cap (tl_msg_buffer e)"
  using assms
proof (induction "unat msk" arbitrary: e msk i rule: less_induct)
  case less
  note step = mask_bits_step [of msk]
  let ?m = "drop_bit 1 msk"
  show ?case
  proof (cases "msk = 0")
    case True
    then show ?thesis using cq_count_le_cap [OF less.prems(1)] by simp
  next
    case False
    then have dec: "unat ?m < unat msk" by (simp add: drop_bit_eq_div unat_div unat_gt_0)
    show ?thesis
    proof (cases "bit msk 0")
      case True
      obtain b where rd: "tloe_get_tlmsg f i = Inr b"
        using less.prems(2) True False
        by (subst (asm) serve_mask.simps) (auto simp: bindR_Inr_iff)
      have room: "\<not> is_queue_full (tl_msg_buffer e)"
        using less.prems(2) True False rd
        by (subst (asm) serve_mask.simps) (auto simp: bindR_Inr_iff enqueue_def split: if_splits)
      let ?q = "fst (enqueue (tl_msg_buffer e) b)"
      note q = enqueue_room [OF less.prems(1) room, of b]
      have "serve_mask (e\<lparr>tl_msg_buffer := ?q\<rparr>) f ?m (Suc i) = Inr e'"
        using serve_mask_bit [OF True rd room] less.prems(2) by simp
      then have "length (cq_list ?q) + length (mask_bits ?m) \<le> cq_cap ?q"
        using less.hyps [OF dec, of "e\<lparr>tl_msg_buffer := ?q\<rparr>"] q(3) by simp
      then show ?thesis using q(2) step True by (simp del: length_cq_list)
    next
      case no: False
      then have "serve_mask e f ?m (Suc i) = Inr e'"
        using serve_mask_skip [OF False no] less.prems(2) by simp
      then show ?thesis using less.hyps [OF dec less.prems(1)] step no by simp
    qed
  qed
qed

lemma rx_dispatch_room:
  assumes "ep_wf e" "rx_dispatch e f n = Inr e'"
    and "n = 8 + 8 * int k" "0 < k" "k \<le> length (flits f)"
  shows "rx_room e f n"
proof (cases "tloe_rx_get_req_type e f = REQ_NORMAL")
  case False
  then have "\<not> is_queue_full (ack_buffer e)"
    using rx_dispatch_full [OF ep_wfD(4) [OF assms(1)] False _ assms(3-5)] assms(2) by auto
  then show ?thesis using False by (simp add: rx_room_def)
next
  case True
  obtain w where w: "tloe_get_mask f n = Inr w"
    using assms(2) True
    by (auto simp: rx_dispatch_def handle_single_normal_frame_drop_def is_zero_tl_frame_def bindR_Inr_iff)
  let ?e1 = "tloe_seqnum_update_acked_seq (tloe_seqnum_update_next_rx_seq e f) f"
  have same: "tl_msg_buffer ?e1 = tl_msg_buffer e"
    by (simp add: update_acked_seq_eq tloe_seqnum_update_next_rx_seq_def)
  have "length (cq_list (tl_msg_buffer e)) + length (mask_bits w) \<le> cq_cap (tl_msg_buffer e)"
  proof (cases "w = 0")
    case True
    then show ?thesis using cq_count_le_cap [OF ep_wfD(5) [OF assms(1)]] by simp
  next
    case False
    then obtain e2 where "serve_mask ?e1 f w 0 = Inr e2"
      using assms(2) True w
      by (auto simp: rx_dispatch_def handle_single_normal_frame_drop_def is_zero_tl_frame_def
          serve_normal_request_def bindR_Inr_iff Let_def)
    then show ?thesis using serve_mask_room [of ?e1 f w 0 e2] ep_wfD(5) [OF assms(1)] same by simp
  qed
  then show ?thesis using True w by (simp add: rx_room_def frame_blocks_def)
qed

text \<open>So a call of \<open>RX\<close> that returns has done what \<open>rx_result\<close> says.\<close>

lemma RX_returned:
  assumes "ep_wf e" "fabric_up e" "rx_packet (n, buf) f" "RX True (n, buf) e = Inr e'"
    and "\<not> is_ackonly_frame f \<Longrightarrow> frame_readable f n"
  shows "ep_wf e' \<and> rx_result e f n e'"
proof -
  obtain k where k: "n = 8 + 8 * int k" "0 < k" "k \<le> 65" "length (flits f) = 65"
    by (rule rx_packetD [OF assms(3)])
  have "rx_room e f n" if "\<not> is_ackonly_frame f"
  proof -
    obtain q where q: "serve_ack e f = Inr (e\<lparr>wire := wire e @ sent e (nak_packets e f),
         retransmit_buffer := q, ack_cnt := ack_cnt e + 1\<rparr>)"
      "ep_wf (e\<lparr>wire := wire e @ sent e (nak_packets e f), retransmit_buffer := q,
         ack_cnt := ack_cnt e + 1\<rparr>)"
      using serve_ack_ok [OF assms(1), of f] by metis
    define e1 where "e1 = e\<lparr>wire := wire e @ sent e (nak_packets e f), retransmit_buffer := q,
         ack_cnt := ack_cnt e + 1, ackonly_frame_sent := False\<rparr>"
    have "rx_dispatch e1 f n = Inr e'"
      using assms(2-4) q(1) k(1) that
      by (simp add: RX_def tloe_fabric_recv_def rx_packet_def Let_def e1_def
          handle_normal_frame_drop_def)
    moreover have "ep_wf e1" using q(2) by (simp add: ep_wf_def e1_def)
    ultimately have "rx_room e1 f n" using k by (intro rx_dispatch_room) auto
    then show ?thesis by (simp add: serve_ack_ctx [OF e1_def])
  qed
  then obtain e2 where "RX True (n, buf) e = Inr e2" "ep_wf e2" "rx_result e f n e2"
    using RX_ok [OF assms(1-3)] assms(5) by metis
  then show ?thesis using assms(4) by simp
qed

section \<open>Packets of the peer\<close>

text \<open>A packet that was made from a frame of \<open>n\<close> bytes is received as that frame, padded with
  zero flits.\<close>

lemma rx_packet_of_frame:
  assumes "n = 8 + 8 * int k" "0 < k" "k \<le> 65" "k \<le> length (flits f)"
  shows "rx_packet (n, frame_packet f n @ junk)
    \<lparr>header = header f, flits = take k (flits f) @ replicate (65 - k) 0\<rparr>"
proof -
  have "tloe_frame_to_packet 1500 f n = Inr (frame_packet f n)"
    using assms by (intro frame_to_packet_ok) simp_all
  from packet_to_frame_of_packet [OF assms(1,4) _ _ this, of "zero_frame 528" junk]
  show ?thesis using assms by (simp add: rx_packet_def sizeof_tloe_frame_def) (simp add: zero_frame_def)
qed

section \<open>Properties\<close>

text \<open>C6: The receiver, on every path.  For a well-formed endpoint and a packet of 16 to 528 bytes
  whose frame \<open>f\<close> can be read and has room, \<open>RX\<close> returns without error and keeps the
  invariant.  The acknowledgement slides the window, and a negative one retransmits the rest; a
  stand-alone acknowledgement does nothing more.  A frame with the expected number is taken: its
  messages go to the end of the message queue in order, the expected number advances by one, and its
  credit is added; one that came before is acknowledged by its own number; one that came too early is
  answered with the last number in order.  The last two deliver no message and no credit.\<close>

theorem RX_outcome:
  assumes "ep_wf e" "fabric_up e" "rx_packet (n, buf) f"
    and "is_ackonly_frame f \<or> frame_readable f n \<and> rx_room e f n"
  shows "\<exists>e'. RX True (n, buf) e = Inr e' \<and> ep_wf e' \<and> rx_result e f n e'"
proof -
  have "\<not> is_ackonly_frame f \<Longrightarrow> frame_readable f n \<and> rx_room e f n" using assms(4) by blast
  then obtain e' where "RX True (n, buf) e = Inr e'" "ep_wf e'" "rx_result e f n e'"
    by (rule RX_ok [OF assms(1-3)])
  then show ?thesis by blast
qed

definition example_frame :: "nat \<Rightarrow> tloe_frame" where
  "example_frame i = \<lparr>header = (tloe_header_of_word 0)\<lparr>seq_num := of_nat i, seq_num_ack := 4194303,
     ack := 1, chan := 1, credit := 3\<rparr>, flits = replicate 65 0\<rparr>"

lemma example_frame_packet: "rx_packet (56, frame_packet (example_frame i) 56) (example_frame i)"
proof -
  have "take 6 (flits (example_frame i)) @ replicate (65 - 6) 0 = flits (example_frame i)"
    by (simp add: example_frame_def numeral_eq_Suc)
  then have "\<lparr>header = header (example_frame i),
      flits = take 6 (flits (example_frame i)) @ replicate (65 - 6) 0\<rparr> = example_frame i" by simp
  then show ?thesis
    using rx_packet_of_frame [of 56 6 "example_frame i" "[]"] by (simp add: example_frame_def)
qed

lemma example_frame_readable:
  "\<not> is_ackonly_frame (example_frame i)" "frame_readable (example_frame i) 56"
  "tloe_get_mask (example_frame i) 56 = Inr 0" "frame_blocks (example_frame i) 56 = []"
proof -
  show m: "tloe_get_mask (example_frame i) 56 = Inr 0"
    by (simp add: tloe_get_mask_def mask_index_def example_frame_def)
  show "frame_blocks (example_frame i) 56 = []" by (simp add: frame_blocks_def m)
  show "frame_readable (example_frame i) 56"
    by (simp add: frame_readable_def m) (simp add: example_frame_def)
  show "\<not> is_ackonly_frame (example_frame i)"
    by (simp add: is_ackonly_frame_def example_frame_def header_of_zero_word)
qed

lemma example_ack_room: "\<not> is_queue_full (ack_buffer example_endpoint)"
  using cq_inv_create [of 5, where ?'a = tloe_frame] by (simp add: is_queue_full_iff)

theorem RX_outcome_witness:
  "\<exists>e'. RX True (56, frame_packet (example_frame 0) 56) example_endpoint = Inr e' \<and>
     next_rx_seq e' = 1 \<and> unat (credits (ep_fc e') ! 1) = 136 \<and> should_send_ackonly_frame e'"
proof -
  have seq: "frame_seq (example_frame 0) = 0" by (simp add: frame_seq_def example_frame_def)
  then have ty: "tloe_rx_get_req_type example_endpoint (example_frame 0) = REQ_NORMAL"
    by (simp add: rx_normal_seq)
  then have "rx_room example_endpoint (example_frame 0) 56"
    by (simp add: rx_room_def example_frame_readable)
  then obtain e' where e': "RX True (56, frame_packet (example_frame 0) 56) example_endpoint = Inr e'"
    "rx_result example_endpoint (example_frame 0) 56 e'"
    using RX_outcome [OF example_wf _ example_frame_packet] example_frame_readable(2) by auto
  have t: "rx_takes example_endpoint (example_frame 0) 56 e'"
    using e'(2) ty example_frame_readable(1) by (simp add: rx_result_def rx_kind_def)
  have "next_rx_seq e' = 1" using t by (simp add: rx_takes_def tloe_seqnum_next_def)
  moreover have "should_send_ackonly_frame e'"
    using t by (simp add: rx_takes_def example_frame_readable)
  moreover have "unat (credits (ep_fc e') ! 1) = 136"
  proof -
    obtain r where "Inr (ep_fc e', r) = fc_credit_inc (ep_fc example_endpoint) (example_frame 0)"
      using t unfolding rx_takes_def by metis
    then have "credits (ep_fc e') = (replicate 6 128)[1 := 136]"
      by (auto simp: fc_credit_inc_def chan_ok_def example_frame_def Let_def shl1_def)
    then show ?thesis by simp
  qed
  ultimately show ?thesis using e'(1) by blast
qed

text \<open>C35: A packet of 536 bytes or more makes \<open>RX\<close> write behind the end of the frame it allocated:
  the size that the network delivers is not checked.\<close>

theorem RX_large_packet_overflows:
  assumes "fabric_up e" "536 \<le> n"
  shows "RX True (n, buf) e = Inl Out_Of_Bounds"
  by (rule RX_oversized [OF assms])

theorem RX_large_packet_overflows_witness:
  "RX True (1500, replicate 1500 0) example_endpoint = Inl Out_Of_Bounds"
  using RX_large_packet_overflows [of example_endpoint 1500] by simp

text \<open>C34: A peer that keeps sending frames out of order stops the program: once the ack buffer is
  full, the next duplicate or early frame hits \<open>BUG_ON\<close>.\<close>

theorem RX_full_ack_buffer_exits:
  assumes "ep_wf e" "fabric_up e" "rx_packet (n, buf) f" "\<not> is_ackonly_frame f"
    and "frame_seq f \<noteq> next_rx_seq e" "is_queue_full (ack_buffer e)"
  shows "RX True (n, buf) e = Inl Bug_On"
  by (rule RX_ack_buffer_full [OF assms])

theorem RX_full_ack_buffer_exits_witness:
  "RX True (56, frame_packet (example_frame 3) 56) (example_endpoint\<lparr>ack_buffer := create_queue 1\<rparr>) =
     Inl Bug_On"
proof -
  let ?e = "example_endpoint\<lparr>ack_buffer := create_queue 1\<rparr>"
  have q: "cq_inv (create_queue 1 :: tloe_frame cqueue)" by (rule cq_inv_create) simp
  have wf: "ep_wf ?e" using example_wf q by (simp add: ep_wf_def)
  have up: "fabric_up ?e" using example_queues(9) by (simp add: fabric_up_def)
  have full: "is_queue_full (ack_buffer ?e)" using q by (simp add: is_queue_full_iff)
  have "frame_seq (example_frame 3) = 3" by (simp add: frame_seq_def example_frame_def)
  then have "frame_seq (example_frame 3) \<noteq> next_rx_seq ?e" by simp
  from RX_full_ack_buffer_exits [OF wf up example_frame_packet example_frame_readable(1) this full]
  show ?thesis .
qed

end
