(* ===== verification/Tilelink_Handler.thy ===== *)
theory Tilelink_Handler
  imports Receiver
begin

text \<open>
  The TileLink layer of an endpoint, \<open>tilelink_handler.c\<close>: the memory that the endpoint exports,
  the handlers of the opcodes, the table that selects them and \<open>tl_handler\<close>, which serves one
  received message.
\<close>

section \<open>Memory\<close>

text \<open>\<open>mem_storage\<close>: no value while the pointer is NULL, else the contents by offset.\<close>

type_synonym storage = "(nat \<Rightarrow> byte) option"

abbreviation (input) "MEM_SIZE \<equiv> (4294967296 :: nat)"

text \<open>\<open>alloc\<close>: whether \<open>malloc\<close> returns a block.\<close>

definition tl_handler_init :: "bool \<Rightarrow> storage \<Rightarrow> storage \<times> int" where
  "tl_handler_init alloc mem =
     (case mem of
        Some m \<Rightarrow> (Some m, 0)
      | None \<Rightarrow> if alloc then (Some (\<lambda>_. 0), 0) else (None, 0))"

definition tl_handler_close :: "storage \<Rightarrow> storage" where
  "tl_handler_close mem = None"

definition mem_write :: "(nat \<Rightarrow> byte) \<Rightarrow> nat \<Rightarrow> byte list \<Rightarrow> (nat \<Rightarrow> byte)" where
  "mem_write m off bs = (\<lambda>i. if off \<le> i \<and> i < off + length bs then bs ! (i - off) else m i)"

definition mem_read :: "(nat \<Rightarrow> byte) \<Rightarrow> nat \<Rightarrow> nat \<Rightarrow> byte list" where
  "mem_read m off n = map m [off..<off + n]"

text \<open>The word \<open>data[0]\<close> of a message; its block may end before it.\<close>

definition tl_data0 :: "tl_msg \<Rightarrow> u64 result" where
  "tl_data0 m = (if 8 \<le> length (tl_data m) then Inr (of_le_bytes (take 8 (tl_data m)))
                 else Inl Out_Of_Bounds)"

section \<open>Handlers\<close>

definition tl_ack :: "26 word \<Rightarrow> tl_msg" where
  "tl_ack src = \<lparr>tl_hdr = tl_header_zero\<lparr>tl_source := src, tl_size := 0, tl_opcode := 0,
                                          tl_chan := 4\<rparr>, tl_data = []\<rparr>"

definition tl_ack_data :: "26 word \<Rightarrow> 4 word \<Rightarrow> byte list \<Rightarrow> tl_msg" where
  "tl_ack_data src sz bs = \<lparr>tl_hdr = tl_header_zero\<lparr>tl_source := src, tl_size := sz,
                                                   tl_opcode := 1, tl_chan := 4\<rparr>, tl_data = bs\<rparr>"

text \<open>The response goes to the response buffer; when that is full it is dropped and counted.\<close>

definition respond :: "endpoint \<Rightarrow> tl_msg \<Rightarrow> endpoint" where
  "respond e m =
     (case enqueue (response_buffer e) m of
        (q, ok) \<Rightarrow> if ok then e\<lparr>response_buffer := q\<rparr>
                   else e\<lparr>drop_response_cnt := drop_response_cnt e + 1\<rparr>)"

definition handle_A_PUTFULLDATA_opcode ::
    "endpoint \<Rightarrow> storage \<Rightarrow> tl_msg \<Rightarrow> (endpoint \<times> storage) result" where
  "handle_A_PUTFULLDATA_opcode e mem tlm =
     (let data_size = 2 ^ unat (tl_size (tl_hdr tlm)) in
      bindR (tl_data0 tlm) (\<lambda>addr.
      let mem_offset = unat addr mod MEM_SIZE in
      bug_on (MEM_SIZE < mem_offset + data_size)
        (case mem of
           None \<Rightarrow> Inl Null_Deref
         | Some m \<Rightarrow>
             if length (tl_data tlm) < 8 + data_size then Inl Out_Of_Bounds
             else Inr (respond e (tl_ack (tl_source (tl_hdr tlm))),
                       Some (mem_write m mem_offset (take data_size (drop 8 (tl_data tlm))))))))"

definition handle_A_GET_opcode ::
    "endpoint \<Rightarrow> storage \<Rightarrow> tl_msg \<Rightarrow> (endpoint \<times> storage) result" where
  "handle_A_GET_opcode e mem tlm =
     (let data_size = 2 ^ unat (tl_size (tl_hdr tlm)) in
      bindR (tl_data0 tlm) (\<lambda>addr.
      let mem_offset = unat addr mod MEM_SIZE in
      bug_on (MEM_SIZE < mem_offset + data_size)
        (case mem of
           None \<Rightarrow> Inl Null_Deref
         | Some m \<Rightarrow>
             Inr (respond e (tl_ack_data (tl_source (tl_hdr tlm)) (tl_size (tl_hdr tlm))
                               (mem_read m mem_offset data_size)), Some m))))"

definition handle_D_ACCESSACK_opcode ::
    "endpoint \<Rightarrow> storage \<Rightarrow> tl_msg \<Rightarrow> (endpoint \<times> storage) result" where
  "handle_D_ACCESSACK_opcode e mem tlm = Inr (e\<lparr>accessack_cnt := accessack_cnt e + 1\<rparr>, mem)"

definition handle_D_ACCESSACKDATA_opcode ::
    "endpoint \<Rightarrow> storage \<Rightarrow> tl_msg \<Rightarrow> (endpoint \<times> storage) result" where
  "handle_D_ACCESSACKDATA_opcode e mem tlm =
     bindR (tl_data0 tlm) (\<lambda>res.
       Inr (e\<lparr>accessackdata_cnt := accessackdata_cnt e + 1, printed := printed e @ [res]\<rparr>, mem))"

definition handle_debug_opcode ::
    "endpoint \<Rightarrow> storage \<Rightarrow> tl_msg \<Rightarrow> (endpoint \<times> storage) result" where
  "handle_debug_opcode e mem tlm = Inr (e, mem)"

section \<open>The table\<close>

datatype tl_handler_fn =
    H_debug | H_A_PUTFULLDATA | H_A_GET | H_D_ACCESSACK | H_D_ACCESSACKDATA

definition tl_handler_table :: "tl_handler_fn list list" where
  "tl_handler_table =
     [[H_debug, H_debug, H_debug, H_debug, H_debug, H_debug, H_debug, H_debug],
      [H_A_PUTFULLDATA, H_debug, H_debug, H_debug, H_A_GET, H_debug, H_debug, H_debug],
      [H_debug, H_debug, H_debug, H_debug, H_debug, H_debug, H_debug, H_debug],
      [H_debug, H_debug, H_debug, H_debug, H_debug, H_debug, H_debug, H_debug],
      [H_D_ACCESSACK, H_D_ACCESSACKDATA, H_debug, H_debug, H_debug, H_debug, H_debug, H_debug],
      [H_debug, H_debug, H_debug, H_debug, H_debug, H_debug, H_debug, H_debug]]"

fun call_handler :: "tl_handler_fn \<Rightarrow> endpoint \<Rightarrow> storage \<Rightarrow> tl_msg
    \<Rightarrow> (endpoint \<times> storage) result" where
  "call_handler H_debug e mem tlm = handle_debug_opcode e mem tlm"
| "call_handler H_A_PUTFULLDATA e mem tlm = handle_A_PUTFULLDATA_opcode e mem tlm"
| "call_handler H_A_GET e mem tlm = handle_A_GET_opcode e mem tlm"
| "call_handler H_D_ACCESSACK e mem tlm = handle_D_ACCESSACK_opcode e mem tlm"
| "call_handler H_D_ACCESSACKDATA e mem tlm = handle_D_ACCESSACKDATA_opcode e mem tlm"

text \<open>\<open>tl_handler\<close>: when a message was served (the result 1 of the code), the channel and the
  number of flits that it hands back.\<close>

definition tl_handler ::
    "endpoint \<Rightarrow> storage \<Rightarrow> (endpoint \<times> storage \<times> (nat \<times> int) option) result" where
  "tl_handler e mem =
     (if is_queue_empty (tl_msg_buffer e) \<or> is_queue_full (response_buffer e)
      then Inr (e, mem, None)
      else case dequeue (tl_msg_buffer e) of
             (q, None) \<Rightarrow> Inl Null_Deref
           | (q, Some Truncated) \<Rightarrow> Inl Out_Of_Bounds
           | (q, Some (Block tlmsg)) \<Rightarrow>
               let ch = unat (tl_chan (tl_hdr tlmsg));
                   opcode = unat (tl_opcode (tl_hdr tlmsg));
                   credit = tlmsg_get_flits_cnt (tl_hdr tlmsg)
               in bindR (arr_get tl_handler_table (int ch)) (\<lambda>row.
                  bindR (arr_get row (int opcode)) (\<lambda>h.
                  bindR (call_handler h (e\<lparr>tl_msg_buffer := q\<rparr>) mem tlmsg) (\<lambda>(e, mem).
                    Inr (e, mem, Some (ch, credit))))))"

section \<open>What a message does\<close>

lemma length_mem_read [simp]: "length (mem_read m off n) = n"
  by (simp add: mem_read_def)

lemma mem_read_write: "mem_read (mem_write m off bs) off (length bs) = bs"
  by (rule nth_equalityI) (simp_all add: mem_read_def mem_write_def)

lemma mem_read_write_other:
  assumes "off' + n \<le> off \<or> off + length bs \<le> off'"
  shows "mem_read (mem_write m off bs) off' n = mem_read m off' n"
  using assms by (auto simp: mem_read_def mem_write_def)

definition is_put :: "tl_msg \<Rightarrow> bool" where
  "is_put x \<longleftrightarrow> unat (tl_chan (tl_hdr x)) = 1 \<and> unat (tl_opcode (tl_hdr x)) = 0"

definition is_get :: "tl_msg \<Rightarrow> bool" where
  "is_get x \<longleftrightarrow> unat (tl_chan (tl_hdr x)) = 1 \<and> unat (tl_opcode (tl_hdr x)) = 4"

definition is_ackdata :: "tl_msg \<Rightarrow> bool" where
  "is_ackdata x \<longleftrightarrow> unat (tl_chan (tl_hdr x)) = 4 \<and> unat (tl_opcode (tl_hdr x)) = 1"

definition tl_length :: "tl_msg \<Rightarrow> nat" where
  "tl_length x = 2 ^ unat (tl_size (tl_hdr x))"

definition tl_offset :: "tl_msg \<Rightarrow> nat" where
  "tl_offset x = unat (of_le_bytes (take 8 (tl_data x))) mod MEM_SIZE"

text \<open>The block holds what the handler reads and the access stays inside the memory.\<close>

definition tl_ok :: "tl_msg \<Rightarrow> bool" where
  "tl_ok x \<longleftrightarrow> unat (tl_chan (tl_hdr x)) < CHANNEL_NUM \<and>
     (is_put x \<longrightarrow> 8 + tl_length x \<le> length (tl_data x)) \<and>
     (is_put x \<or> is_get x \<longrightarrow> tl_offset x + tl_length x \<le> MEM_SIZE) \<and>
     (is_get x \<or> is_ackdata x \<longrightarrow> 8 \<le> length (tl_data x))"

text \<open>The abstract memory: the new contents and the responses.\<close>

definition tl_effect :: "tl_msg \<Rightarrow> (nat \<Rightarrow> byte) \<Rightarrow> (nat \<Rightarrow> byte) \<times> tl_msg list" where
  "tl_effect x m =
     (if is_put x then
        (mem_write m (tl_offset x) (take (tl_length x) (drop 8 (tl_data x))),
         [tl_ack (tl_source (tl_hdr x))])
      else if is_get x then
        (m, [tl_ack_data (tl_source (tl_hdr x)) (tl_size (tl_hdr x))
               (mem_read m (tl_offset x) (tl_length x))])
      else (m, []))"

text \<open>The table: four entries have a handler of their own, all others only print.\<close>

lemma u3_nat: "unat (x :: 3 word) < 8"
  using unsigned_less [of x, where ?'a = nat] by simp

lemma table_entry:
  assumes "c < 6" "p < 8"
  shows "arr_get tl_handler_table (int c) = Inr (tl_handler_table ! c)"
    "arr_get (tl_handler_table ! c) (int p) =
      Inr (if c = 1 \<and> p = 0 then H_A_PUTFULLDATA else if c = 1 \<and> p = 4 then H_A_GET
           else if c = 4 \<and> p = 0 then H_D_ACCESSACK else if c = 4 \<and> p = 1 then H_D_ACCESSACKDATA
           else H_debug)"
proof -
  from assms have c: "c = 0 \<or> c = 1 \<or> c = 2 \<or> c = 3 \<or> c = 4 \<or> c = 5"
    and p: "p = 0 \<or> p = 1 \<or> p = 2 \<or> p = 3 \<or> p = 4 \<or> p = 5 \<or> p = 6 \<or> p = 7"
    by linarith+
  have len: "length tl_handler_table = 6" by (simp add: tl_handler_table_def)
  show "arr_get tl_handler_table (int c) = Inr (tl_handler_table ! c)"
    using assms(1) len by simp
  from c show "arr_get (tl_handler_table ! c) (int p) =
      Inr (if c = 1 \<and> p = 0 then H_A_PUTFULLDATA else if c = 1 \<and> p = 4 then H_A_GET
           else if c = 4 \<and> p = 0 then H_D_ACCESSACK else if c = 4 \<and> p = 1 then H_D_ACCESSACKDATA
           else H_debug)"
    by (elim disjE; use p in \<open>elim disjE; simp add: tl_handler_table_def\<close>)
qed

lemma tl_data0_ok: "8 \<le> length (tl_data x) \<Longrightarrow> tl_data0 x = Inr (of_le_bytes (take 8 (tl_data x)))"
  by (simp add: tl_data0_def)

text \<open>A handler changes the endpoint in its response buffer, its counters and its output.\<close>

definition tl_keeps :: "endpoint \<Rightarrow> endpoint \<Rightarrow> bool" where
  "tl_keeps e e' \<longleftrightarrow>
     retransmit_buffer e' = retransmit_buffer e \<and> message_buffer e' = message_buffer e \<and>
     ack_buffer e' = ack_buffer e \<and> ep_fc e' = ep_fc e \<and> ep_fabric e' = ep_fabric e \<and>
     next_tx_seq e' = next_tx_seq e \<and> next_rx_seq e' = next_rx_seq e \<and>
     acked_seq e' = acked_seq e \<and> iteration_ts e' = iteration_ts e \<and> wire e' = wire e \<and>
     connection e' = connection e \<and> master e' = master e \<and> is_done e' = is_done e \<and>
     should_send_ackonly_frame e' = should_send_ackonly_frame e \<and>
     ackonly_frame_sent e' = ackonly_frame_sent e \<and> drop_response_cnt e' = drop_response_cnt e"

lemma respond_room:
  assumes "cq_inv (response_buffer e)" "\<not> is_queue_full (response_buffer e)"
  obtains q where "respond e m = e\<lparr>response_buffer := q\<rparr>" "cq_inv q"
    "cq_list q = cq_list (response_buffer e) @ [m]" "cq_cap q = cq_cap (response_buffer e)"
  using enqueue_room [OF assms, of m] that [of "fst (enqueue (response_buffer e) m)"]
    cq_cap_ops(1) [of "response_buffer e" m]
  by (cases "enqueue (response_buffer e) m") (simp add: respond_def)

lemma call_handler_ok:
  assumes "cq_inv (response_buffer e)" "\<not> is_queue_full (response_buffer e)" "tl_ok x"
    and "arr_get (tl_handler_table ! unat (tl_chan (tl_hdr x))) (int (unat (tl_opcode (tl_hdr x)))) =
      Inr h"
  obtains e' where "call_handler h e (Some m) x = Inr (e', Some (fst (tl_effect x m)))"
    "tl_keeps e e'" "tl_msg_buffer e' = tl_msg_buffer e" "cq_inv (response_buffer e')"
    "cq_cap (response_buffer e') = cq_cap (response_buffer e)"
    "cq_list (response_buffer e') = cq_list (response_buffer e) @ snd (tl_effect x m)"
    "printed e' = printed e @
      (if is_ackdata x then [of_le_bytes (take 8 (tl_data x))] else [])"
proof -
  have h: "h = (if is_put x then H_A_PUTFULLDATA else if is_get x then H_A_GET
      else if is_ackdata x then H_D_ACCESSACKDATA
      else if unat (tl_chan (tl_hdr x)) = 4 \<and> unat (tl_opcode (tl_hdr x)) = 0 then H_D_ACCESSACK
      else H_debug)"
    using assms(3,4) table_entry(2) [OF _ u3_nat, of "unat (tl_chan (tl_hdr x))"
        "tl_opcode (tl_hdr x)"]
    unfolding tl_ok_def is_put_def is_get_def is_ackdata_def
    by (simp del: of_nat_unat split: if_splits)
  consider "is_put x" "\<not> is_get x" "\<not> is_ackdata x" "h = H_A_PUTFULLDATA"
    | "is_get x" "\<not> is_put x" "\<not> is_ackdata x" "h = H_A_GET"
    | "is_ackdata x" "\<not> is_put x" "\<not> is_get x" "h = H_D_ACCESSACKDATA"
    | "\<not> is_put x" "\<not> is_get x" "\<not> is_ackdata x" "h = H_D_ACCESSACK \<or> h = H_debug"
  proof -
    have "\<not> (is_put x \<and> is_get x)" "\<not> (is_put x \<and> is_ackdata x)" "\<not> (is_get x \<and> is_ackdata x)"
      by (auto simp: is_put_def is_get_def is_ackdata_def)
    then show ?thesis using h that by (auto split: if_splits)
  qed
  then show thesis
  proof cases
    case 1
    obtain q where q: "respond e (tl_ack (tl_source (tl_hdr x))) = e\<lparr>response_buffer := q\<rparr>"
      "cq_inv q" "cq_list q = cq_list (response_buffer e) @ [tl_ack (tl_source (tl_hdr x))]"
      "cq_cap q = cq_cap (response_buffer e)"
      by (rule respond_room [OF assms(1,2)])
    show thesis
      by (rule that [of "e\<lparr>response_buffer := q\<rparr>"])
        (use 1 q assms(3) in \<open>simp_all add: handle_A_PUTFULLDATA_opcode_def tl_data0_ok Let_def
          tl_ok_def tl_effect_def tl_keeps_def flip: tl_length_def tl_offset_def\<close>)
  next
    case 2
    let ?r = "tl_ack_data (tl_source (tl_hdr x)) (tl_size (tl_hdr x))
               (mem_read m (tl_offset x) (tl_length x))"
    obtain q where q: "respond e ?r = e\<lparr>response_buffer := q\<rparr>"
      "cq_inv q" "cq_list q = cq_list (response_buffer e) @ [?r]"
      "cq_cap q = cq_cap (response_buffer e)"
      by (rule respond_room [OF assms(1,2)])
    show thesis
      by (rule that [of "e\<lparr>response_buffer := q\<rparr>"])
        (use 2 q assms(3) in \<open>simp_all add: handle_A_GET_opcode_def tl_data0_ok Let_def
          tl_ok_def tl_effect_def tl_keeps_def flip: tl_length_def tl_offset_def\<close>)
  next
    case 3
    show thesis
      by (rule that [of "e\<lparr>accessackdata_cnt := accessackdata_cnt e + 1,
            printed := printed e @ [of_le_bytes (take 8 (tl_data x))]\<rparr>"])
        (use 3 assms in \<open>simp_all add: handle_D_ACCESSACKDATA_opcode_def tl_data0_ok tl_ok_def
          tl_effect_def tl_keeps_def\<close>)
  next
    case 4
    then show thesis
    proof (elim disjE)
      assume "h = H_D_ACCESSACK"
      then show thesis
        by (intro that [of "e\<lparr>accessack_cnt := accessack_cnt e + 1\<rparr>"])
          (use 4 assms in \<open>simp_all add: handle_D_ACCESSACK_opcode_def tl_effect_def tl_keeps_def\<close>)
    next
      assume "h = H_debug"
      then show thesis
        by (intro that [of e])
          (use 4 assms in \<open>simp_all add: handle_debug_opcode_def tl_effect_def tl_keeps_def\<close>)
    qed
  qed
qed

lemma tl_handler_idle:
  assumes "is_queue_empty (tl_msg_buffer e) \<or> is_queue_full (response_buffer e)"
  shows "tl_handler e mem = Inr (e, mem, None)"
  using assms by (simp add: tl_handler_def)

lemma tl_handler_ok:
  assumes "ep_wf e" "cq_list (tl_msg_buffer e) = Block x # bs" "tl_ok x"
    and "\<not> is_queue_full (response_buffer e)"
  obtains e' where
    "tl_handler e (Some m) = Inr (e', Some (fst (tl_effect x m)),
       Some (unat (tl_chan (tl_hdr x)), tlmsg_get_flits_cnt (tl_hdr x)))"
    "ep_wf e'" "tl_keeps e e'" "cq_list (tl_msg_buffer e') = bs"
    "cq_cap (tl_msg_buffer e') = cq_cap (tl_msg_buffer e)"
    "cq_cap (response_buffer e') = cq_cap (response_buffer e)"
    "cq_list (response_buffer e') = cq_list (response_buffer e) @ snd (tl_effect x m)"
    "printed e' = printed e @
      (if is_ackdata x then [of_le_bytes (take 8 (tl_data x))] else [])"
proof -
  note wf = ep_wfD [OF assms(1)]
  obtain q where q: "dequeue (tl_msg_buffer e) = (q, Some (Block x))" "cq_inv q" "cq_list q = bs"
    "cq_cap q = cq_cap (tl_msg_buffer e)"
    using dequeue_cons [OF wf(5) assms(2)] cq_cap_ops(2) [of "tl_msg_buffer e"] by (cases "dequeue (tl_msg_buffer e)") auto
  let ?e = "e\<lparr>tl_msg_buffer := q\<rparr>"
  let ?c = "unat (tl_chan (tl_hdr x))" and ?p = "unat (tl_opcode (tl_hdr x))"
  have c: "?c < 6" using assms(3) by (simp add: tl_ok_def)
  obtain h where h: "arr_get (tl_handler_table ! ?c) (int ?p) = Inr h"
    using table_entry(2) [OF c u3_nat] by blast
  have "cq_inv (response_buffer ?e)" "\<not> is_queue_full (response_buffer ?e)"
    using wf(6) assms(4) by simp_all
  then obtain e' where e': "call_handler h ?e (Some m) x = Inr (e', Some (fst (tl_effect x m)))"
    "tl_keeps ?e e'" "tl_msg_buffer e' = tl_msg_buffer ?e" "cq_inv (response_buffer e')"
    "cq_cap (response_buffer e') = cq_cap (response_buffer ?e)"
    "cq_list (response_buffer e') = cq_list (response_buffer ?e) @ snd (tl_effect x m)"
    "printed e' = printed ?e @ (if is_ackdata x then [of_le_bytes (take 8 (tl_data x))] else [])"
    using call_handler_ok [OF _ _ assms(3) h] by metis
  have "\<not> is_queue_empty (tl_msg_buffer e)" using assms(2) wf(5) by (simp add: is_queue_empty_iff)
  then have "tl_handler e (Some m) = Inr (e', Some (fst (tl_effect x m)),
      Some (?c, tlmsg_get_flits_cnt (tl_hdr x)))"
    using assms(4) q(1) table_entry(1) [OF c u3_nat [of "tl_opcode (tl_hdr x)"]] h e'(1)
    by (simp add: tl_handler_def Let_def del: of_nat_unat)
  moreover have "ep_wf e'"
    using assms(1) e'(2-4) q(2) by (auto simp: ep_wf_def tl_keeps_def)
  moreover have "tl_keeps e e'" using e'(2) by (simp add: tl_keeps_def)
  ultimately show thesis using e' q(3,4) by (intro that [of e']) simp_all
qed

section \<open>Messages from the wire\<close>

text \<open>A message that was taken out of a frame has exactly the bytes that its header announces, so
  that serving it reads nothing behind its block, with one exception: an AccessAckData of fewer
  than eight bytes.\<close>

lemma received_length:
  assumes "tloe_get_tlmsg f i = Inr (Block x)"
  shows "8 + length (tl_data x) = header_bytes (tl_hdr x) + data_bytes (tl_hdr x)"
proof -
  let ?h = "tl_header_of_word (flits f ! i)" and ?src = "drop (8 * i) (flit_bytes (flits f))"
  let ?t = "header_bytes ?h + data_bytes ?h"
  have i: "i < length (flits f)" and le: "?t \<le> length ?src" and b: "block_of_bytes (take ?t ?src) = Block x"
    using assms
    by (auto simp: tloe_get_tlmsg_def arr_get_def Let_def tlmsg_get_total_size_eq nat_add_distrib
        split: if_splits)
  have t8: "8 \<le> ?t" and x: "x = tlmsg_of_bytes (take ?t ?src)"
    using b le by (auto simp: block_of_bytes_def split: if_splits)
  have "tl_hdr x = ?h"
    using t8 by (simp add: x tlmsg_of_bytes_def nth_flit_bytes [OF i] min_def)
  moreover have "8 + length (tl_data x) = ?t"
    using t8 le by (simp add: x tlmsg_of_bytes_def)
  ultimately show ?thesis by simp
qed

lemma uint_3_nat: "uint (x :: 3 word) = int (unat x)"
  by simp

lemma received_channel:
  assumes "tloe_get_tlmsg f i = Inr (Block x)"
  shows "unat (tl_chan (tl_hdr x)) < CHANNEL_NUM"
proof (rule ccontr)
  assume "\<not> unat (tl_chan (tl_hdr x)) < CHANNEL_NUM"
  then have "header_bytes (tl_hdr x) + data_bytes (tl_hdr x) = 0"
    unfolding header_bytes_def data_bytes_def carries_data_def uint_3_nat by (simp del: of_nat_unat)
  then show False using received_length [OF assms] by simp
qed

lemma received_ok:
  assumes "tloe_get_tlmsg f i = Inr (Block x)"
    and "is_put x \<or> is_get x \<Longrightarrow> tl_offset x + tl_length x \<le> MEM_SIZE"
    and "is_ackdata x \<Longrightarrow> 3 \<le> unat (tl_size (tl_hdr x))"
  shows "tl_ok x"
proof -
  note len = received_length [OF assms(1)]
  have sz: "header_bytes (tl_hdr x) = 16 \<and> data_bytes (tl_hdr x) = tl_length x" if "is_put x"
    using that unfolding is_put_def header_bytes_def data_bytes_def carries_data_def uint_3_nat
    by (simp add: tl_length_def del: of_nat_unat)
  have gt: "header_bytes (tl_hdr x) = 16" if "is_get x"
    using that unfolding is_get_def header_bytes_def uint_3_nat by (simp del: of_nat_unat)
  have ak: "header_bytes (tl_hdr x) = 8 \<and> 8 \<le> data_bytes (tl_hdr x)" if "is_ackdata x"
  proof -
    have "(2::nat) ^ 3 \<le> 2 ^ unat (tl_size (tl_hdr x))"
      using assms(3) [OF that] by (intro power_increasing) simp_all
    then show ?thesis
      using that unfolding is_ackdata_def header_bytes_def data_bytes_def carries_data_def uint_3_nat
      by (simp del: of_nat_unat)
  qed
  have "unat (tl_chan (tl_hdr x)) < 6" by (rule received_channel [OF assms(1)])
  moreover have "8 + tl_length x \<le> length (tl_data x)" if "is_put x" using sz [OF that] len by simp
  moreover have "8 \<le> length (tl_data x)" if "is_get x \<or> is_ackdata x"
    using gt ak len that by auto
  ultimately show ?thesis using assms(2) by (simp add: tl_ok_def)
qed

text \<open>The responses of a small enough request can be sent.\<close>

lemma tl_ack_ok: "msg_ok (tl_ack src)"
  by (simp add: msg_ok_def tl_ack_def tlmsg_get_total_size_eq header_bytes_def data_bytes_def
      carries_data_def)

lemma tl_ack_data_ok:
  assumes "length bs = 2 ^ unat sz" "unat sz \<le> 9"
  shows "msg_ok (tl_ack_data src sz bs)"
proof -
  have "(2::int) ^ unat sz \<le> 2 ^ 9" using assms(2) by (intro power_increasing) simp_all
  then show ?thesis using assms(1)
    by (simp add: msg_ok_def tl_ack_data_def tlmsg_get_total_size_eq header_bytes_def
        data_bytes_def carries_data_def)
qed

lemma tl_effect_ok:
  assumes "is_get x \<Longrightarrow> unat (tl_size (tl_hdr x)) \<le> 9"
  shows "list_all msg_ok (snd (tl_effect x m))"
  using assms by (simp add: tl_effect_def tl_ack_ok tl_ack_data_ok tl_length_def)

text \<open>A write followed by a read of the same range, both served by \<open>tl_handler\<close>: the read
  returns the data of the write.\<close>

lemma put_then_get:
  assumes "ep_wf e" "cq_list (tl_msg_buffer e) = [Block x, Block y]"
    and "length (cq_list (response_buffer e)) + 2 \<le> cq_cap (response_buffer e)"
    and "tl_ok x" "is_put x" "tl_ok y" "is_get y" "tl_offset y = tl_offset x"
      "tl_size (tl_hdr y) = tl_size (tl_hdr x)"
  obtains e1 e2 m1 r1 r2 where "tl_handler e (Some m) = Inr (e1, m1, r1)"
    "tl_handler e1 m1 = Inr (e2, m1, r2)"
    "cq_list (response_buffer e2) = cq_list (response_buffer e) @
       [tl_ack (tl_source (tl_hdr x)),
        tl_ack_data (tl_source (tl_hdr y)) (tl_size (tl_hdr x))
          (take (tl_length x) (drop 8 (tl_data x)))]"
proof -
  note wf = ep_wfD [OF assms(1)]
  let ?d = "take (tl_length x) (drop 8 (tl_data x))"
  let ?m = "mem_write m (tl_offset x) ?d"
  have len: "length ?d = tl_length x" using assms(4,5) by (auto simp: tl_ok_def)
  have "\<not> is_get x" using assms(5) by (auto simp: is_put_def is_get_def)
  have fx: "tl_effect x m = (?m, [tl_ack (tl_source (tl_hdr x))])"
    using assms(5) by (simp add: tl_effect_def)
  have "\<not> is_put y" using assms(7) by (auto simp: is_put_def is_get_def)
  then have fy: "tl_effect y ?m = (?m, [tl_ack_data (tl_source (tl_hdr y)) (tl_size (tl_hdr x)) ?d])"
    using assms(7,8,9) mem_read_write [of m "tl_offset x" ?d] len
    by (simp add: tl_effect_def tl_length_def)
  have room: "\<not> is_queue_full (response_buffer e)"
    using assms(3) wf(6) by (simp add: is_queue_full_iff)
  obtain e1 where e1: "tl_handler e (Some m) = Inr (e1, Some (fst (tl_effect x m)),
       Some (unat (tl_chan (tl_hdr x)), tlmsg_get_flits_cnt (tl_hdr x)))"
    "ep_wf e1" "cq_list (tl_msg_buffer e1) = [Block y]"
    "cq_list (response_buffer e1) = cq_list (response_buffer e) @ snd (tl_effect x m)"
    "cq_cap (response_buffer e1) = cq_cap (response_buffer e)"
    using tl_handler_ok [OF assms(1,2,4) room] by metis
  have room1: "\<not> is_queue_full (response_buffer e1)"
    using assms(3) ep_wfD(6) [OF e1(2)] e1(4,5) fx
    by (simp add: is_queue_full_iff flip: length_cq_list)
  obtain e2 where e2: "tl_handler e1 (Some ?m) = Inr (e2, Some (fst (tl_effect y ?m)),
       Some (unat (tl_chan (tl_hdr y)), tlmsg_get_flits_cnt (tl_hdr y)))"
    "cq_list (response_buffer e2) = cq_list (response_buffer e1) @ snd (tl_effect y ?m)"
    using tl_handler_ok [OF e1(2,3) assms(6) room1] by metis
  show thesis
    by (rule that [where ?e1.0 = e1 and ?m1.0 = "Some ?m" and ?e2.0 = e2])
      (use e1 e2 fx fy in simp_all)
qed

section \<open>The memory as an interface\<close>

text \<open>What the handlers rely on: a store of bytes in which a read returns what was last written
  to its range, and writes elsewhere do not disturb it.\<close>

locale byte_store =
  fixes rd :: "'m \<Rightarrow> nat \<Rightarrow> nat \<Rightarrow> 'b list"
    and wr :: "'m \<Rightarrow> nat \<Rightarrow> 'b list \<Rightarrow> 'm"
  assumes rd_wr: "rd (wr m off bs) off (length bs) = bs"
    and rd_wr_other: "off' + n \<le> off \<or> off + length bs \<le> off' \<Longrightarrow>
      rd (wr m off bs) off' n = rd m off' n"

text \<open>A sequence of writes, oldest first.\<close>

fun write_all :: "('m \<Rightarrow> nat \<Rightarrow> 'b list \<Rightarrow> 'm) \<Rightarrow> (nat \<times> 'b list) list \<Rightarrow> 'm \<Rightarrow> 'm" where
  "write_all wr [] m = m"
| "write_all wr ((off, bs) # ws) m = write_all wr ws (wr m off bs)"

definition disjoint_from :: "nat \<Rightarrow> nat \<Rightarrow> nat \<times> 'b list \<Rightarrow> bool" where
  "disjoint_from off n w \<longleftrightarrow> off + n \<le> fst w \<or> fst w + length (snd w) \<le> off"

context byte_store
begin

lemma others_keep:
  "list_all (disjoint_from off n) ws \<Longrightarrow> rd (write_all wr ws m) off n = rd m off n"
proof (induction ws arbitrary: m)
  case (Cons w ws)
  then show ?case
    using rd_wr_other [of off n "fst w" "snd w" m] by (cases w) (simp add: disjoint_from_def)
qed simp

lemma last_write_wins:
  assumes "list_all (disjoint_from off (length bs)) ws"
  shows "rd (write_all wr ((off, bs) # ws) m) off (length bs) = bs"
  using others_keep [OF assms] by (simp add: rd_wr)

end

interpretation mem: byte_store mem_read mem_write
  by unfold_locales (rule mem_read_write, rule mem_read_write_other)

section \<open>Sequences of messages\<close>

text \<open>The messages at the front of the queue are served one after the other; the state they leave
  is that of the abstract memory.\<close>

fun tl_effects :: "tl_msg list \<Rightarrow> (nat \<Rightarrow> byte) \<Rightarrow> (nat \<Rightarrow> byte) \<times> tl_msg list" where
  "tl_effects [] m = (m, [])"
| "tl_effects (x # xs) m =
     (case tl_effect x m of (m1, rs) \<Rightarrow> case tl_effects xs m1 of (m2, rs') \<Rightarrow> (m2, rs @ rs'))"

fun serve_n :: "nat \<Rightarrow> endpoint \<Rightarrow> storage \<Rightarrow> (endpoint \<times> storage) result" where
  "serve_n 0 e mem = Inr (e, mem)"
| "serve_n (Suc n) e mem = bindR (tl_handler e mem) (\<lambda>(e, mem, _). serve_n n e mem)"

lemma serve_n_ok:
  assumes "ep_wf e" "cq_list (tl_msg_buffer e) = map Block xs @ bs" "list_all tl_ok xs"
    and "length (cq_list (response_buffer e)) + length xs \<le> cq_cap (response_buffer e)"
  shows "\<exists>e'. serve_n (length xs) e (Some m) = Inr (e', Some (fst (tl_effects xs m))) \<and> ep_wf e' \<and>
    cq_list (tl_msg_buffer e') = bs \<and> drop_response_cnt e' = drop_response_cnt e \<and>
    cq_list (response_buffer e') = cq_list (response_buffer e) @ snd (tl_effects xs m)"
  using assms
proof (induction xs arbitrary: e m)
  case Nil
  then show ?case by simp
next
  case (Cons x xs)
  have q: "cq_list (tl_msg_buffer e) = Block x # (map Block xs @ bs)" and x: "tl_ok x"
    using Cons.prems(2,3) by simp_all
  have room: "\<not> is_queue_full (response_buffer e)"
    using Cons.prems(4) ep_wfD(6) [OF Cons.prems(1)] by (simp add: is_queue_full_iff)
  obtain m1 rs where fx: "tl_effect x m = (m1, rs)" by fastforce
  have rs: "length rs \<le> 1" using fx by (auto simp: tl_effect_def split: if_splits)
  obtain e1 where e1: "tl_handler e (Some m) = Inr (e1, Some m1,
       Some (unat (tl_chan (tl_hdr x)), tlmsg_get_flits_cnt (tl_hdr x)))"
    "ep_wf e1" "tl_keeps e e1" "cq_list (tl_msg_buffer e1) = map Block xs @ bs"
    "cq_cap (response_buffer e1) = cq_cap (response_buffer e)"
    "cq_list (response_buffer e1) = cq_list (response_buffer e) @ rs"
    using tl_handler_ok [OF Cons.prems(1) q x room, of m] unfolding fx fst_conv snd_conv by metis
  have "length (cq_list (response_buffer e1)) + length xs \<le> cq_cap (response_buffer e1)"
    using Cons.prems(4) e1(5,6) rs by (simp del: length_cq_list)
  then obtain e' where e': "serve_n (length xs) e1 (Some m1) = Inr (e', Some (fst (tl_effects xs m1)))"
    "ep_wf e'" "cq_list (tl_msg_buffer e') = bs" "drop_response_cnt e' = drop_response_cnt e1"
    "cq_list (response_buffer e') = cq_list (response_buffer e1) @ snd (tl_effects xs m1)"
    using Cons.IH [OF e1(2,4), of m1] Cons.prems(3) by auto
  obtain m2 rs' where "tl_effects xs m1 = (m2, rs')" by fastforce
  then show ?case using e' e1(1,3,6) by (simp add: fx tl_keeps_def)
qed

section \<open>Properties\<close>

text \<open>C10: Refinement of the memory.  Serving any sequence of well-formed messages by \<open>tl_handler\<close>, with
  room for the answers, changes the memory and answers exactly like the abstract byte store of
  \<open>tl_effect\<close>: a PutFullData writes its data and is acknowledged, a Get returns the bytes of its
  range with the source of the request, everything else changes nothing; answers come in the
  order of the requests, and none is dropped.\<close>

theorem handler_refines_memory:
  assumes "ep_wf e" "cq_list (tl_msg_buffer e) = map Block xs @ bs" "list_all tl_ok xs"
    and "length (cq_list (response_buffer e)) + length xs \<le> cq_cap (response_buffer e)"
  shows "\<exists>e'. serve_n (length xs) e (Some m) = Inr (e', Some (fst (tl_effects xs m))) \<and> ep_wf e' \<and>
    cq_list (tl_msg_buffer e') = bs \<and> drop_response_cnt e' = drop_response_cnt e \<and>
    cq_list (response_buffer e') = cq_list (response_buffer e) @ snd (tl_effects xs m)"
  by (rule serve_n_ok [OF assms])

definition example_write :: tl_msg where
  "example_write = \<lparr>tl_hdr = tl_header_zero\<lparr>tl_chan := 1, tl_size := 3\<rparr>,
     tl_data = [0, 16, 0, 0, 0, 0, 0, 0, 1, 2, 3, 4, 5, 6, 7, 8]\<rparr>"

definition example_read :: tl_msg where
  "example_read = \<lparr>tl_hdr = tl_header_zero\<lparr>tl_chan := 1, tl_size := 3, tl_opcode := 4\<rparr>,
     tl_data = [0, 16, 0, 0, 0, 0, 0, 0]\<rparr>"

lemma example_offset: "of_le_bytes [0, 16, 0, 0, 0, 0, 0, 0] = 4096"
  by simp

lemma example_access:
  "is_put example_write" "\<not> is_get example_write" "\<not> is_ackdata example_write"
  "tl_length example_write = 8" "tl_offset example_write = 4096"
  "is_get example_read" "\<not> is_put example_read" "\<not> is_ackdata example_read"
  "tl_length example_read = 8" "tl_offset example_read = 4096" "tl_ok example_write" "tl_ok example_read"
  by (simp_all add: example_write_def example_read_def is_put_def is_get_def is_ackdata_def tl_length_def
      tl_offset_def example_offset tl_header_zero_def tl_header_of_word_def tl_ok_def)

definition example_server :: "tl_msg list \<Rightarrow> endpoint" where
  "example_server xs = example_endpoint\<lparr>tl_msg_buffer :=
     fst (run_ops enqueue dequeue (create_queue 5) (map (Enq \<circ> Block) xs)) \<rparr>"

lemma example_server_ok:
  assumes "length xs \<le> 4"
  shows "ep_wf (example_server xs)" "cq_list (tl_msg_buffer (example_server xs)) = map Block xs"
proof -
  have en: "cq_inv q \<Longrightarrow> length (cq_list q) + length ys \<le> cq_cap q \<Longrightarrow>
      cq_inv (fst (run_ops enqueue dequeue q (map (Enq \<circ> Block) ys))) \<and>
      cq_list (fst (run_ops enqueue dequeue q (map (Enq \<circ> Block) ys))) = cq_list q @ map Block ys"
    for q and ys :: "tl_msg list"
  proof (induction ys arbitrary: q)
    case (Cons y ys)
    have nf: "\<not> is_queue_full q" using Cons.prems by (simp add: is_queue_full_iff)
    obtain q1 where q1: "enqueue q (Block y) = (q1, True)" using nf by (simp add: enqueue_def)
    have "cq_inv q1" "cq_list q1 = cq_list q @ [Block y]" "cq_cap q1 = cq_cap q"
      using enqueue_room [OF Cons.prems(1) nf, of "Block y"] cq_cap_ops(1) [of q "Block y"] q1 by simp_all
    then show ?case using Cons.IH [of q1] Cons.prems(2) q1
      by (auto split: prod.splits simp del: length_cq_list)
  qed simp
  have q: "cq_inv (create_queue 5 :: tl_block cqueue)" by (rule cq_inv_create) simp
  show "ep_wf (example_server xs)" "cq_list (tl_msg_buffer (example_server xs)) = map Block xs"
    using en [OF q, of xs] assms example_wf by (simp_all add: example_server_def ep_wf_def)
qed

theorem handler_refines_memory_witness:
  "\<exists>e' m'. serve_n 2 (example_server [example_write, example_read]) (Some (\<lambda>_. 0)) = Inr (e', Some m') \<and>
     cq_list (response_buffer e') = [tl_ack 0, tl_ack_data 0 3 [1, 2, 3, 4, 5, 6, 7, 8]]"
proof -
  let ?xs = "[example_write, example_read]"
  let ?m = "mem_write (\<lambda>_. 0) 4096 [1, 2, 3, 4, 5, 6, 7, 8]"
  have d: "take 8 (drop 8 (tl_data example_write)) = [1, 2, 3, 4, 5, 6, 7, 8]"
    "tl_source (tl_hdr example_write) = 0" "tl_source (tl_hdr example_read) = 0"
    "tl_size (tl_hdr example_read) = 3"
    by (simp_all add: example_write_def example_read_def tl_header_zero_def tl_header_of_word_def)
  have rd: "mem_read ?m 4096 8 = [1, 2, 3, 4, 5, 6, 7, 8]"
    using mem_read_write [where m = "\<lambda>_. 0" and off = 4096 and bs = "[1, 2, 3, 4, 5, 6, 7, 8]"]
    by (simp add: eval_nat_numeral)
  have fx: "snd (tl_effects ?xs (\<lambda>_. 0)) = [tl_ack 0, tl_ack_data 0 3 [1, 2, 3, 4, 5, 6, 7, 8]]"
    using d rd by (simp add: tl_effect_def example_access)
  have "length ?xs \<le> 4" by simp
  note s = example_server_ok [OF this]
  have "response_buffer (example_server ?xs) = create_queue 5" by (simp add: example_server_def)
  then show ?thesis
    using handler_refines_memory [OF s(1), of ?xs "[]" "\<lambda>_. 0"] s(2) fx
    by (auto simp: example_access numeral_2_eq_2)
qed

text \<open>Writes to disjoint ranges do not disturb each other: after any number of later writes
  elsewhere, a range holds what was last written to it.\<close>

lemma memory_last_write_wins:
  assumes "list_all (disjoint_from off (length bs)) ws"
  shows "mem_read (write_all mem_write ((off, bs) # ws) m) off (length bs) = bs"
  by (rule mem.last_write_wins [OF assms])

lemma memory_last_write_wins_example:
  "mem_read (write_all mem_write [(16, [1, 2]), (18, [3]), (14, [4, 5])] (\<lambda>_. 0)) 16 2 = [1, 2]"
  using memory_last_write_wins [of 16 "[1, 2]" "[(18, [3]), (14, [4, 5])]" "\<lambda>_. 0"]
  by (simp add: disjoint_from_def numeral_2_eq_2)

text \<open>A block without a header comes from a message whose header announces less than one.\<close>

lemma received_truncated:
  assumes "tloe_get_tlmsg f i = Inr Truncated"
  shows "tlmsg_get_total_size (tl_header_of_word (flits f ! i)) < 8"
proof -
  let ?h = "tl_header_of_word (flits f ! i)"
  let ?src = "drop (8 * i) (flit_bytes (flits f))" and ?t = "header_bytes ?h + data_bytes ?h"
  have "block_of_bytes (take ?t ?src) = Truncated" "?t \<le> length ?src"
    using assms by (auto simp: tloe_get_tlmsg_def arr_get_def Let_def tlmsg_get_total_size_eq nat_add_distrib
        split: if_splits)
  then show ?thesis by (auto simp: block_of_bytes_def tlmsg_get_total_size_eq split: if_splits)
qed

text \<open>The handler of the first block of the buffer.\<close>

lemma tl_handler_head:
  assumes "ep_wf e" "cq_list (tl_msg_buffer e) = b # bs" "\<not> is_queue_full (response_buffer e)"
  shows "b = Truncated \<Longrightarrow> tl_handler e mem = Inl Out_Of_Bounds"
    "b = Block x \<Longrightarrow> unat (tl_chan (tl_hdr x)) < CHANNEL_NUM \<Longrightarrow>
       \<exists>q. tl_handler e mem = bindR (call_handler
           (if is_put x then H_A_PUTFULLDATA else if is_get x then H_A_GET
            else if unat (tl_chan (tl_hdr x)) = 4 \<and> unat (tl_opcode (tl_hdr x)) = 0 then H_D_ACCESSACK
            else if is_ackdata x then H_D_ACCESSACKDATA else H_debug) (e\<lparr>tl_msg_buffer := q\<rparr>) mem x)
         (\<lambda>(e, mem). Inr (e, mem, Some (unat (tl_chan (tl_hdr x)), tlmsg_get_flits_cnt (tl_hdr x))))"
proof -
  note wf = ep_wfD [OF assms(1)]
  obtain q where q: "dequeue (tl_msg_buffer e) = (q, Some b)"
    using dequeue_cons [OF wf(5) assms(2)] by (cases "dequeue (tl_msg_buffer e)") auto
  have ne: "\<not> is_queue_empty (tl_msg_buffer e)" using assms(2) wf(5) by (simp add: is_queue_empty_iff)
  show "b = Truncated \<Longrightarrow> tl_handler e mem = Inl Out_Of_Bounds"
    using ne assms(3) q by (simp add: tl_handler_def)
  show "\<exists>q. tl_handler e mem = bindR (call_handler
           (if is_put x then H_A_PUTFULLDATA else if is_get x then H_A_GET
            else if unat (tl_chan (tl_hdr x)) = 4 \<and> unat (tl_opcode (tl_hdr x)) = 0 then H_D_ACCESSACK
            else if is_ackdata x then H_D_ACCESSACKDATA else H_debug) (e\<lparr>tl_msg_buffer := q\<rparr>) mem x)
         (\<lambda>(e, mem). Inr (e, mem, Some (unat (tl_chan (tl_hdr x)), tlmsg_get_flits_cnt (tl_hdr x))))"
    if b: "b = Block x" and c: "unat (tl_chan (tl_hdr x)) < CHANNEL_NUM"
    using ne assms(3) q b table_entry [OF c u3_nat [of "tl_opcode (tl_hdr x)"]]
    by (intro exI [of _ q]) (simp add: tl_handler_def Let_def is_put_def is_get_def is_ackdata_def del: of_nat_unat)
qed

text \<open>C29: The handler and the messages that come out of frames, of any content.  When the first block of
  the buffer was taken from a frame by \<open>tloe_get_tlmsg\<close> and there is room for a response, \<open>tl_handler\<close>
  serves it with the effect of the abstract memory and reads nothing behind the block, with exactly three
  exceptions: an access that leaves the memory stops the program; a block for which the size functions
  announce less than a header (an unknown channel or opcode) and an AccessAckData of fewer than eight
  bytes are read past their end.\<close>

theorem received_message_safe:
  assumes "ep_wf e" "cq_list (tl_msg_buffer e) = b # bs" "\<not> is_queue_full (response_buffer e)"
    and "tloe_get_tlmsg f i = Inr b"
  shows "case b of
      Truncated \<Rightarrow> tlmsg_get_total_size (tl_header_of_word (flits f ! i)) < 8 \<and>
        tl_handler e (Some m) = Inl Out_Of_Bounds
    | Block x \<Rightarrow>
        if (is_put x \<or> is_get x) \<and> MEM_SIZE < tl_offset x + tl_length x
        then tl_handler e (Some m) = Inl Bug_On
        else if is_ackdata x \<and> unat (tl_size (tl_hdr x)) < 3 then tl_handler e (Some m) = Inl Out_Of_Bounds
        else \<exists>e'. tl_handler e (Some m) = Inr (e', Some (fst (tl_effect x m)),
               Some (unat (tl_chan (tl_hdr x)), tlmsg_get_flits_cnt (tl_hdr x))) \<and>
             cq_list (tl_msg_buffer e') = bs \<and>
             cq_list (response_buffer e') = cq_list (response_buffer e) @ snd (tl_effect x m) \<and>
             printed e' = printed e @ (if is_ackdata x then [of_le_bytes (take 8 (tl_data x))] else [])"
proof (cases b)
  case Truncated
  then show ?thesis using tl_handler_head(1) [OF assms(1-3)] received_truncated assms(4) by simp
next
  case (Block x)
  note g = assms(4) [unfolded Block] and len = received_length [OF assms(4) [unfolded Block]]
  have c: "unat (tl_chan (tl_hdr x)) < CHANNEL_NUM" by (rule received_channel [OF g])
  from tl_handler_head(2) [OF assms(1-3) Block c] obtain q where q: "tl_handler e (Some m) = bindR (call_handler
       (if is_put x then H_A_PUTFULLDATA else if is_get x then H_A_GET
        else if unat (tl_chan (tl_hdr x)) = 4 \<and> unat (tl_opcode (tl_hdr x)) = 0 then H_D_ACCESSACK
        else if is_ackdata x then H_D_ACCESSACKDATA else H_debug) (e\<lparr>tl_msg_buffer := q\<rparr>) (Some m) x)
     (\<lambda>(e, mem). Inr (e, mem, Some (unat (tl_chan (tl_hdr x)), tlmsg_get_flits_cnt (tl_hdr x))))" by blast
  consider (range) "is_put x \<or> is_get x" "MEM_SIZE < tl_offset x + tl_length x"
    | (short) "is_ackdata x" "unat (tl_size (tl_hdr x)) < 3"
    | (ok) "tl_ok x" "\<not> ((is_put x \<or> is_get x) \<and> MEM_SIZE < tl_offset x + tl_length x)"
        "\<not> (is_ackdata x \<and> unat (tl_size (tl_hdr x)) < 3)"
    using received_ok [OF g] by fastforce
  then show ?thesis
  proof cases
    case range
    have "8 \<le> length (tl_data x)"
      using len range(1) unfolding is_put_def is_get_def header_bytes_def uint_3_nat
      by (auto simp del: of_nat_unat)
    then have "tl_handler e (Some m) = Inl Bug_On"
      using range tl_data0_ok [of x] unfolding q
      by (auto simp: handle_A_PUTFULLDATA_opcode_def handle_A_GET_opcode_def Let_def bug_on_def
          tl_offset_def tl_length_def)
    then show ?thesis using range Block by simp
  next
    case short
    then have n: "\<not> is_put x" "\<not> is_get x" "unat (tl_opcode (tl_hdr x)) \<noteq> 0"
      by (simp_all add: is_ackdata_def is_put_def is_get_def)
    have "(2::nat) ^ unat (tl_size (tl_hdr x)) \<le> 2 ^ 2" using short(2) by (intro power_increasing) simp_all
    moreover have "header_bytes (tl_hdr x) = 8" "data_bytes (tl_hdr x) = 2 ^ unat (tl_size (tl_hdr x))"
      using short(1) unfolding is_ackdata_def header_bytes_def data_bytes_def carries_data_def uint_3_nat
      by (simp_all del: of_nat_unat)
    ultimately have "length (tl_data x) < 8" using len by simp
    then have "tl_handler e (Some m) = Inl Out_Of_Bounds"
      using short(1) n unfolding q by (simp add: handle_D_ACCESSACKDATA_opcode_def tl_data0_def)
    then show ?thesis using short n Block by simp
  next
    case ok
    obtain e' where "tl_handler e (Some m) = Inr (e', Some (fst (tl_effect x m)),
        Some (unat (tl_chan (tl_hdr x)), tlmsg_get_flits_cnt (tl_hdr x)))"
      "cq_list (tl_msg_buffer e') = bs"
      "cq_list (response_buffer e') = cq_list (response_buffer e) @ snd (tl_effect x m)"
      "printed e' = printed e @ (if is_ackdata x then [of_le_bytes (take 8 (tl_data x))] else [])"
      by (rule tl_handler_ok [OF assms(1,2) [unfolded Block] ok(1) assms(3)])
    then show ?thesis unfolding Block tl_block.case if_not_P [OF ok(2)] if_not_P [OF ok(3)] by blast
  qed
qed

text \<open>A read message taken out of a frame, waiting in the buffer, is served.\<close>

theorem received_message_safe_witness:
  "let f = \<lparr>header = tloe_header_of_word 0, flits = [tl_header_word (tl_hdr example_read), 4096, 0]\<rparr>
   in \<exists>e' r. tloe_get_tlmsg f 0 = Inr (Block example_read) \<and>
     tl_handler (example_server [example_read]) (Some (\<lambda>_. 7)) = Inr (e', Some (\<lambda>_. 7), r) \<and>
     length (cq_list (response_buffer e')) = 1"
proof -
  let ?f = "\<lparr>header = tloe_header_of_word 0,
           flits = [tl_header_word (tl_hdr example_read), 4096, 0]\<rparr>"
  have sz: "header_bytes (tl_hdr example_read) = 16" "data_bytes (tl_hdr example_read) = 0"
    by (simp_all add: example_read_def header_bytes_def data_bytes_def carries_data_def)
  have len: "length (tl_data example_read) = 8" by (simp add: example_read_def)
  have rt: "tlmsg_of_bytes (tlmsg_bytes example_read) = example_read" by simp
  have bs: "flit_bytes (flits ?f) = tlmsg_bytes example_read @ le_bytes 0"
    using example_offset by (simp add: tlmsg_bytes_def example_read_def) (simp add: le_bytes_def upt_rec)
  have "tloe_get_tlmsg ?f 0 = Inr (Block (tlmsg_of_bytes (tlmsg_bytes example_read)))"
    by (rule get_tlmsg_bytes [where rest = "le_bytes 0" and h = "tl_hdr example_read"])
      (use bs sz len in \<open>simp_all add: tlmsg_bytes_def tlmsg_get_total_size_eq\<close>)
  then have g: "tloe_get_tlmsg ?f 0 = Inr (Block example_read)" unfolding rt .
  have room: "\<not> is_queue_full (response_buffer (example_server [example_read]))"
    "cq_list (response_buffer (example_server [example_read])) = []"
    by (simp add: example_server_def is_queue_full_def create_queue_def, simp add: example_server_def)
  have "ep_wf (example_server [example_read])"
    "cq_list (tl_msg_buffer (example_server [example_read])) = [Block example_read]"
    using example_server_ok [of "[example_read]"] by simp_all
  from received_message_safe [OF this room(1) g, of "\<lambda>_. 7"] show ?thesis
    using g room(2) example_access(6-12)
    by (auto simp: Let_def tl_effect_def simp del: length_cq_list split: if_splits)
qed

end
