(* ===== verification/Connection.thy ===== *)
theory Connection
  imports Transmitter
begin

text \<open>
  Opening and closing a connection, \<open>tloe_connection.c\<close>.  The four loops wait for frames of the
  peer and send their own frames again when a timer runs out; they are driven here by the list of
  what each iteration receives and of the clock readings it takes, and answer \<open>Blocked\<close> when
  the list ends before the loop does.
\<close>

section \<open>The code\<close>

abbreviation (input) "CONN_PACKET_SIZE \<equiv> (56 :: int)"

definition send_frame ::
    "endpoint \<Rightarrow> 4 word \<Rightarrow> u32 \<Rightarrow> u32 \<Rightarrow> nat \<Rightarrow> nat \<Rightarrow> endpoint result" where
  "send_frame e ty sn sna ch cr =
     (let f0 = zero_frame sizeof_tloe_frame;
          f1 = f0\<lparr>header := (header f0)\<lparr>frame_type := ty, seq_num := ucast sn,
                                        seq_num_ack := ucast sna, ack := TLOE_ACK\<rparr>\<rparr>
      in bindR (tloe_set_mask f1 0 CONN_PACKET_SIZE) (\<lambda>f2.
         let f3 = f2\<lparr>header := (header f2)\<lparr>chan := of_nat ch, credit := of_nat cr\<rparr>\<rparr> in
         bindR (tloe_frame_to_packet MAX_BUFFER_SIZE f3 CONN_PACKET_SIZE) (\<lambda>send_buffer.
           Inr (tloe_fabric_send e send_buffer))))"

text \<open>The header of a received packet goes to a frame on the stack, of which nothing but the
  header is read.\<close>

definition recv_frame :: "endpoint \<Rightarrow> recv_event \<Rightarrow> tloe_frame option result" where
  "recv_frame ep ev =
     (case tloe_fabric_recv ep ev of
        (n, buf) \<Rightarrow>
          if 0 \<le> n
          then bindR (packet_to_tloe_frame buf n (zero_frame sizeof_tloe_frame)) (\<lambda>f. Inr (Some f))
          else Inr None)"

definition recv_conn_master :: "recv_event \<Rightarrow> endpoint \<Rightarrow> endpoint result" where
  "recv_conn_master ev ep =
     bindR (recv_frame ep ev) (\<lambda>r.
       case r of
         None \<Rightarrow> Inr ep
       | Some f \<Rightarrow>
           if tloe_seqnum_cmp (frame_seq f) (next_rx_seq ep) = 0 then
             bindR (set_credit (ep_fc ep) (unat (chan (header f))) (unat (credit (header f)))) (\<lambda>fc.
               Inr (tloe_seqnum_update_acked_seq
                     (tloe_seqnum_update_next_rx_seq (ep\<lparr>ep_fc := fc\<rparr>) f) f))
           else Inr ep)"

definition recv_conn_slave :: "recv_event \<Rightarrow> endpoint \<Rightarrow> bool \<Rightarrow> (endpoint \<times> bool) result" where
  "recv_conn_slave ev ep conn_flag =
     bindR (recv_frame ep ev) (\<lambda>r.
       case r of
         None \<Rightarrow> Inr (ep, conn_flag)
       | Some f \<Rightarrow>
           let flag = (if frame_type (header f) = TYPE_OPEN_CONNECTION then True else conn_flag) in
           if flag then
             bindR (set_credit (ep_fc ep) (unat (chan (header f))) (unat (credit (header f)))) (\<lambda>fc.
               Inr (tloe_seqnum_update_acked_seq
                     (tloe_seqnum_update_next_rx_seq (ep\<lparr>ep_fc := fc\<rparr>) f) f, flag))
           else Inr (ep, flag))"

text \<open>The bodies of the two serving loops, run for the channels A to E.\<close>

definition serve_conn_master_step :: "nat \<Rightarrow> endpoint \<Rightarrow> endpoint result" where
  "serve_conn_master_step i ep =
     bindR (send_frame ep (if i = 1 then TYPE_OPEN_CONNECTION else TYPE_NORMAL) (of_nat (i - 1))
              (tloe_seqnum_prev (next_rx_seq ep)) i CREDIT_DEFAULT) (\<lambda>ep.
       Inr (ep\<lparr>next_tx_seq := of_nat i\<rparr>))"

definition serve_conn_slave_step :: "nat \<Rightarrow> endpoint \<Rightarrow> endpoint result" where
  "serve_conn_slave_step i ep =
     bindR (send_frame ep TYPE_NORMAL (of_nat (i - 1))
              (tloe_seqnum_prev (next_rx_seq ep)) i CREDIT_DEFAULT) (\<lambda>ep.
       Inr (ep\<lparr>next_tx_seq := of_nat i\<rparr>))"

fun for_each :: "(nat \<Rightarrow> endpoint \<Rightarrow> endpoint result) \<Rightarrow> nat list \<Rightarrow> endpoint \<Rightarrow> endpoint result" where
  "for_each step [] ep = Inr ep"
| "for_each step (i # is) ep = bindR (step i ep) (for_each step is)"

definition serve_conn_master :: "endpoint \<Rightarrow> endpoint result" where
  "serve_conn_master ep = for_each serve_conn_master_step [1..<CHANNEL_NUM] ep"

definition serve_conn_slave :: "endpoint \<Rightarrow> endpoint result" where
  "serve_conn_slave ep = for_each serve_conn_slave_step [1..<CHANNEL_NUM] ep"

text \<open>What one iteration of a loop takes from outside: the clock when it serves, the packet it
  receives, the clock when it checks the timer.\<close>

record conn_event =
  serve_time :: timespec
  recv_ev :: recv_event
  check_time :: timespec

text \<open>\<open>timer\<close> is the local variable of that name, \<open>start\<close> the start of the timer.\<close>

fun open_master_loop :: "bool \<Rightarrow> conn_event list \<Rightarrow> timespec \<Rightarrow> bool \<Rightarrow> endpoint
    \<Rightarrow> endpoint result" where
  "open_master_loop wde [] start timer ep = Inl Blocked"
| "open_master_loop wde (ev # evs) start timer ep =
     bindR (if timer then serve_conn_master ep else Inr ep) (\<lambda>ep.
       let start = (if timer then serve_time ev else start) in
       bindR (recv_conn_master (recv_ev ev) ep) (\<lambda>ep.
         if check_all_channels wde (ep_fc ep) then Inr ep
         else open_master_loop wde evs start (check_timer start (check_time ev)) ep))"

definition open_conn_master :: "bool \<Rightarrow> conn_event list \<Rightarrow> timespec \<Rightarrow> endpoint \<Rightarrow> endpoint result" where
  "open_conn_master wde evs start ep =
     bindR (open_master_loop wde evs start True ep) (\<lambda>ep.
     bindR (send_frame ep TYPE_NORMAL (next_tx_seq ep) (tloe_seqnum_prev (next_rx_seq ep)) 0 0) (\<lambda>ep.
       Inr (tloe_seqnum_next_tx_seq_inc ep)))"

fun open_slave_loop :: "bool \<Rightarrow> conn_event list \<Rightarrow> timespec \<Rightarrow> bool \<Rightarrow> bool \<Rightarrow> endpoint
    \<Rightarrow> endpoint result" where
  "open_slave_loop wde [] start timer conn_flag ep = Inl Blocked"
| "open_slave_loop wde (ev # evs) start timer conn_flag ep =
     bindR (if conn_flag \<and> timer then serve_conn_slave ep else Inr ep) (\<lambda>ep.
       let start = (if conn_flag \<and> timer then serve_time ev else start) in
       bindR (recv_conn_slave (recv_ev ev) ep conn_flag) (\<lambda>(ep, conn_flag).
         if check_all_channels wde (ep_fc ep) then Inr ep
         else open_slave_loop wde evs start (check_timer start (check_time ev)) conn_flag ep))"

text \<open>\<open>start\<close> is what the uninitialised local variable \<open>start\<close> holds: the slave checks its timer
  before it ever starts it.\<close>

definition open_conn_slave :: "bool \<Rightarrow> conn_event list \<Rightarrow> timespec \<Rightarrow> endpoint \<Rightarrow> endpoint result" where
  "open_conn_slave wde evs start ep =
     bindR (open_slave_loop wde evs start True False ep) (\<lambda>ep.
       send_frame ep TYPE_ACKONLY (next_tx_seq ep) (tloe_seqnum_prev (next_rx_seq ep)) 0 0)"

definition serve_close_conn :: "endpoint \<Rightarrow> endpoint result" where
  "serve_close_conn ep =
     send_frame ep TYPE_CLOSE_CONNECTION (next_tx_seq ep) (tloe_seqnum_prev (next_rx_seq ep)) 0 0"

definition recv_close_conn_master :: "recv_event \<Rightarrow> endpoint \<Rightarrow> (endpoint \<times> bool) result" where
  "recv_close_conn_master ev ep =
     bindR (recv_frame ep ev) (\<lambda>r.
       case r of
         None \<Rightarrow> Inr (ep, False)
       | Some f \<Rightarrow>
           if frame_type (header f) = TYPE_CLOSE_CONNECTION
           then Inr (ep\<lparr>next_rx_seq := tloe_seqnum_next (frame_seq f),
                        acked_seq := frame_seq_ack f\<rparr>, True)
           else Inr (ep, False))"

definition recv_close_conn_slave ::
    "recv_event \<Rightarrow> endpoint \<Rightarrow> bool \<Rightarrow> (endpoint \<times> bool) result" where
  "recv_close_conn_slave ev ep conn_flag =
     bindR (recv_frame ep ev) (\<lambda>r.
       case r of
         None \<Rightarrow> Inr (ep, conn_flag)
       | Some f \<Rightarrow>
           if frame_type (header f) = TYPE_CLOSE_CONNECTION
           then Inr (ep\<lparr>next_rx_seq := tloe_seqnum_next (frame_seq f),
                        acked_seq := frame_seq_ack f\<rparr>, True)
           else Inr (ep, conn_flag))"

fun close_master_loop :: "conn_event list \<Rightarrow> timespec \<Rightarrow> bool \<Rightarrow> endpoint \<Rightarrow> endpoint result" where
  "close_master_loop [] start timer ep = Inl Blocked"
| "close_master_loop (ev # evs) start timer ep =
     bindR (if timer then serve_close_conn ep else Inr ep) (\<lambda>ep.
       let start = (if timer then serve_time ev else start) in
       bindR (recv_close_conn_master (recv_ev ev) ep) (\<lambda>(ep, is_done).
         if is_done then Inr ep
         else close_master_loop evs start (check_timer start (check_time ev)) ep))"

definition close_conn_master :: "conn_event list \<Rightarrow> timespec \<Rightarrow> endpoint \<Rightarrow> endpoint result" where
  "close_conn_master evs start ep = close_master_loop evs start True ep"

fun close_slave_loop :: "conn_event list \<Rightarrow> bool \<Rightarrow> endpoint \<Rightarrow> endpoint result" where
  "close_slave_loop [] conn_flag ep = Inl Blocked"
| "close_slave_loop (ev # evs) conn_flag ep =
     bindR (if conn_flag then serve_close_conn ep else Inr ep) (\<lambda>ep.
       let is_done = conn_flag in
       bindR (recv_close_conn_slave (recv_ev ev) ep conn_flag) (\<lambda>(ep, conn_flag).
         if is_done then Inr ep else close_slave_loop evs conn_flag ep))"

definition close_conn_slave :: "conn_event list \<Rightarrow> endpoint \<Rightarrow> endpoint result" where
  "close_conn_slave evs ep = close_slave_loop evs False ep"

definition is_conn :: "endpoint \<Rightarrow> bool" where
  "is_conn e = connection e"

section \<open>The frames of the handshake\<close>

definition conn_header :: "4 word \<Rightarrow> u32 \<Rightarrow> u32 \<Rightarrow> nat \<Rightarrow> nat \<Rightarrow> tloe_header" where
  "conn_header ty sn sna ch cr = (tloe_header_of_word 0)\<lparr>frame_type := ty, seq_num := ucast sn,
     seq_num_ack := ucast sna, ack := TLOE_ACK, chan := of_nat ch, credit := of_nat cr\<rparr>"

definition conn_packet :: "tloe_header \<Rightarrow> byte list" where
  "conn_packet h = frame_packet ((zero_frame sizeof_tloe_frame)\<lparr>header := h\<rparr>) CONN_PACKET_SIZE"

lemma send_frame_eq:
  "send_frame e ty sn sna ch cr =
     Inr (tloe_fabric_send e (conn_packet (conn_header ty sn sna ch cr)))"
proof -
  have z: "flits (zero_frame 528) = replicate 65 0" "header (zero_frame 528) = tloe_header_of_word 0"
    by (simp_all add: zero_frame_def)
  have upd: "(replicate 65 (0 :: u64))[5 := 0] = replicate 65 0"
    by (simp add: list_eq_iff_nth_eq nth_list_update)
  have fz: "(zero_frame 528)\<lparr>header := h, flits := replicate 65 0\<rparr> = (zero_frame 528)\<lparr>header := h\<rparr>" for h
    by (simp add: zero_frame_def)
  have "tloe_frame_to_packet 1500 ((zero_frame 528)\<lparr>header := h\<rparr>) 56 = Inr (conn_packet h)" for h
    unfolding conn_packet_def sizeof_tloe_frame_def
    using frame_to_packet_ok [where sz = 56 and cap = 1500 and f = "(zero_frame 528)\<lparr>header := h\<rparr>"]
    by (simp add: z)
  then show ?thesis
    by (simp add: send_frame_def sizeof_tloe_frame_def Let_def tloe_set_mask_def mask_index_def z upd fz
        conn_header_def)
qed

text \<open>A packet of the peer, at the start of the receive buffer.\<close>

definition delivers :: "recv_event \<Rightarrow> tloe_header \<Rightarrow> bool" where
  "delivers ev h \<longleftrightarrow> fst ev = CONN_PACKET_SIZE \<and> take 56 (snd ev) = conn_packet h"

lemma recv_frame_delivers:
  assumes "fabric_up ep" "delivers ev h"
  obtains f where "recv_frame ep ev = Inr (Some f)" "header f = h"
proof -
  let ?g = "(zero_frame 528)\<lparr>header := h\<rparr>"
  have z: "length (flits (zero_frame 528)) = 65" by simp
  obtain n buf where ev: "ev = (n, buf)" by (cases ev)
  have n: "n = 56" and buf: "buf = conn_packet h @ drop 56 buf"
    using assms(2) by (auto simp: delivers_def ev) (metis append_take_drop_id)
  have "tloe_frame_to_packet 1500 ?g 56 = Inr (conn_packet h)"
    unfolding conn_packet_def sizeof_tloe_frame_def
    using frame_to_packet_ok [where sz = 56 and cap = 1500 and f = ?g] by simp
  then have "packet_to_tloe_frame (conn_packet h @ drop 56 buf) 56 (zero_frame 528) =
      Inr \<lparr>header = header ?g, flits = take 6 (flits ?g) @ drop 6 (flits (zero_frame 528))\<rparr>"
    by (intro packet_to_frame_of_packet [where sz = 56 and k = 6 and cap = 1500]) simp_all
  then have "recv_frame ep ev =
      Inr (Some \<lparr>header = h, flits = take 6 (flits ?g) @ drop 6 (flits (zero_frame 528))\<rparr>)"
    using assms(1) n buf by (simp add: recv_frame_def tloe_fabric_recv_def ev sizeof_tloe_frame_def)
  then show thesis by (rule that) simp
qed

lemma delivers_packet: "delivers (56, conn_packet h @ junk) h"
proof -
  have "length (conn_packet h) = 56"
    unfolding conn_packet_def sizeof_tloe_frame_def by (subst length_frame_packet) simp_all
  then show ?thesis by (simp add: delivers_def)
qed

section \<open>Offering credit\<close>

text \<open>The five frames that offer credit: sequence numbers 0 to 4, channels A to E, \<open>2 ^ 10\<close>
  flits each; the first one of the master opens the connection.\<close>

definition offer_header :: "bool \<Rightarrow> u32 \<Rightarrow> nat \<Rightarrow> tloe_header" where
  "offer_header opn sna i = conn_header (if opn \<and> i = 1 then TYPE_OPEN_CONNECTION else TYPE_NORMAL)
     (of_nat (i - 1)) sna i CREDIT_DEFAULT"

definition offer :: "bool \<Rightarrow> endpoint \<Rightarrow> byte list list" where
  "offer opn ep = map (\<lambda>i. conn_packet (offer_header opn (tloe_seqnum_prev (next_rx_seq ep)) i))
     [1..<CHANNEL_NUM]"

lemma channels: "[Suc 0..<6] = [1, 2, 3, 4, 5]"
  by (simp add: upt_rec)

lemma serve_conn_eq:
  "serve_conn_master ep = Inr (ep\<lparr>wire := wire ep @ sent ep (offer True ep), next_tx_seq := 5\<rparr>)"
  "serve_conn_slave ep = Inr (ep\<lparr>wire := wire ep @ sent ep (offer False ep), next_tx_seq := 5\<rparr>)"
  by (simp_all add: serve_conn_master_def serve_conn_slave_def serve_conn_master_step_def
      serve_conn_slave_step_def channels send_frame_eq tloe_fabric_send_wire offer_def offer_header_def
      sent_def fabric_up_def)

section \<open>Opening\<close>

text \<open>The iterations of a loop receive the packets \<open>ps\<close>, in order, one or none in each; what follows a
  packet in the receive buffer does not matter.\<close>

fun polls :: "conn_event list \<Rightarrow> byte list list \<Rightarrow> bool" where
  "polls [] ps = (ps = [])"
| "polls (ev # evs) ps =
     (if fst (recv_ev ev) < 0 then polls evs ps
      else (case ps of [] \<Rightarrow> False | p # ps \<Rightarrow>
        fst (recv_ev ev) = CONN_PACKET_SIZE \<and> take 56 (snd (recv_ev ev)) = p \<and> polls evs ps))"

text \<open>When an endpoint sends its offer: for each time, how many frames of the peer it has received by
  then.  \<open>k\<close> counts them; \<open>due\<close> says that the timer, last started at \<open>t\<close>, had run out at the end of
  the iteration before.  The master offers at once, the slave only when it has a frame of the master;
  neither offers any more when it has received five.\<close>

fun offerings :: "bool \<Rightarrow> timespec \<Rightarrow> bool \<Rightarrow> nat \<Rightarrow> conn_event list \<Rightarrow> nat list" where
  "offerings opn t due k [] = []"
| "offerings opn t due k (ev # evs) =
     (let now = due \<and> (opn \<or> 0 < k);
          t = (if now then serve_time ev else t);
          n = (if fst (recv_ev ev) < 0 then k else Suc k);
          due = 5000000 \<le> (tv_sec (check_time ev) - tv_sec t) * 1000000 +
                           (tv_nsec (check_time ev) - tv_nsec t) sdiv 1000
      in (if now then [k] else []) @ (if n = 5 then [] else offerings opn t due n evs))"

lemma offerings_step:
  "offerings opn t due k (ev # evs) = (if due \<and> (opn \<or> 0 < k) then [k] else []) @
     (let t = (if due \<and> (opn \<or> 0 < k) then serve_time ev else t);
          n = (if fst (recv_ev ev) < 0 then k else Suc k)
      in if n = 5 then [] else offerings opn t (check_timer t (check_time ev)) n evs)"
  by (simp add: check_timer_def Let_def)

text \<open>All that is offered in these rounds.\<close>

definition rounds :: "bool \<Rightarrow> endpoint \<Rightarrow> nat list \<Rightarrow> byte list list" where
  "rounds opn ep ks = concat (map (\<lambda>k. offer opn (ep\<lparr>next_rx_seq := of_nat k\<rparr>)) ks)"

lemma rounds_simps [simp]:
  "rounds opn ep [] = []" "rounds opn ep (ks @ ls) = rounds opn ep ks @ rounds opn ep ls"
  "rounds opn ep [k] = offer opn (ep\<lparr>next_rx_seq := of_nat k\<rparr>)"
  "rounds opn (ep\<lparr>wire := w, next_tx_seq := x\<rparr>) ks = rounds opn ep ks"
  "rounds opn (ep\<lparr>ep_fc := fc, next_rx_seq := r, acked_seq := a\<rparr>) ks = rounds opn ep ks"
  by (simp_all add: rounds_def offer_def)

text \<open>Channels before \<open>i\<close> have the credit of the peer, the others the initial amount.\<close>

definition filled :: "nat \<Rightarrow> flowcontrol \<Rightarrow> bool" where
  "filled i fc \<longleftrightarrow> fc_inv fc \<and>
     (\<forall>c < CHANNEL_NUM. 1 \<le> c \<longrightarrow> credits fc ! c = (if c < i then 1024 else 128))"

lemma filled_set:
  assumes "filled i fc" "1 \<le> i" "i < CHANNEL_NUM"
  obtains fc' where "set_credit fc i 10 = Inr fc'" "filled (Suc i) fc'"
proof (rule that)
  show "set_credit fc i 10 = Inr (fc\<lparr>credits := (credits fc)[i := 1024],
      tx_flow_credits := (tx_flow_credits fc)[i := 0]\<rparr>)"
    using assms by (simp add: set_credit_def chan_ok_def shl1_def)
  show "filled (Suc i) (fc\<lparr>credits := (credits fc)[i := 1024],
      tx_flow_credits := (tx_flow_credits fc)[i := 0]\<rparr>)"
    using assms by (auto simp: filled_def fc_inv_def nth_list_update less_Suc_eq)
qed

lemma filled_all:
  assumes "filled i fc" "1 \<le> i" "i \<le> CHANNEL_NUM"
  shows "check_all_channels wde fc \<longleftrightarrow> i = CHANNEL_NUM"
proof (cases "i = 6")
  case True
  then have "credits fc ! c = 1024" if "c \<in> {1, 2, 3, 4, 5}" for c
    using assms(1) that by (auto simp: filled_def)
  then show ?thesis by (simp add: check_all_channels_def shl1_def Let_def True)
next
  case False
  then have "credits fc ! 5 = 128" using assms by (simp add: filled_def)
  then show ?thesis using False by (simp add: check_all_channels_def shl1_def Let_def)
qed

text \<open>The part of the endpoint that the handshake depends on.\<close>

definition conn_pending :: "nat \<Rightarrow> endpoint \<Rightarrow> bool" where
  "conn_pending i ep \<longleftrightarrow> fabric_up ep \<and> filled i (ep_fc ep)"

lemma small_seq:
  assumes "n < 4194304"
  shows "ucast (ucast (of_nat n :: u32) :: 22 word) = (of_nat n :: u32)"
    "tloe_seqnum_next (of_nat n) = of_nat (Suc n mod 4194304)"
proof -
  have n: "(of_nat n :: u32) = seq_of n" using assms by (simp add: seq_of_def)
  show "ucast (ucast (of_nat n :: u32) :: 22 word) = (of_nat n :: u32)" by (simp add: n)
  show "tloe_seqnum_next (of_nat n) = of_nat (Suc n mod 4194304)"
    unfolding n by (simp add: seq_of_def [of "Suc n"])
qed

text \<open>One frame of the peer.  The sequence number of the master must be the expected one.\<close>

lemma recv_conn_fields:
  assumes "conn_pending i ep" "1 \<le> i" "i < CHANNEL_NUM" "recv_frame ep ev = Inr (Some f)"
    and "header f = conn_header ty (of_nat (i - 1)) sna i 10"
  obtains fc a where "filled (Suc i) fc"
    "set_credit (ep_fc ep) (unat (chan (header f))) (unat (credit (header f))) = Inr fc"
    "frame_seq f = of_nat (i - 1)"
    "tloe_seqnum_update_acked_seq (tloe_seqnum_update_next_rx_seq (ep\<lparr>ep_fc := fc\<rparr>) f) f =
       ep\<lparr>ep_fc := fc, next_rx_seq := of_nat i, acked_seq := a\<rparr>"
    "seq_ok (acked_seq ep) \<longrightarrow> seq_ok a"
proof -
  have ch: "unat (of_nat i :: 3 word) = i" using assms(3) by (simp add: unat_of_nat take_bit_nat_eq_self)
  obtain fc where fc: "set_credit (ep_fc ep) i 10 = Inr fc" "filled (Suc i) fc"
    using filled_set assms(1,2,3) unfolding conn_pending_def by metis
  have sq: "frame_seq f = of_nat (i - 1)"
    using assms(3,5) by (simp add: frame_seq_def conn_header_def small_seq)
  then have nx: "tloe_seqnum_next (frame_seq f) = of_nat i"
    using assms(2,3) small_seq(2) [of "i - 1"] by simp
  show thesis
    by (rule that [OF fc(2), where a = "if tloe_seqnum_cmp (frame_seq_ack f) (acked_seq ep) > 0
                    then frame_seq_ack f else acked_seq ep"])
      (use fc(1) assms(5) ch sq nx in \<open>simp_all add: conn_header_def update_acked_seq_eq
        tloe_seqnum_update_next_rx_seq_def\<close>)
qed

lemma recv_conn_master_ok:
  assumes "conn_pending i ep" "1 \<le> i" "i < CHANNEL_NUM" "next_rx_seq ep = of_nat (i - 1)"
    and "delivers ev (conn_header ty (of_nat (i - 1)) sna i 10)"
  obtains fc a where "filled (Suc i) fc" "recv_conn_master ev ep =
    Inr (ep\<lparr>ep_fc := fc, next_rx_seq := of_nat i, acked_seq := a\<rparr>)"
    "seq_ok (acked_seq ep) \<longrightarrow> seq_ok a"
proof -
  have up: "fabric_up ep" using assms(1) by (simp add: conn_pending_def)
  obtain f where f: "recv_frame ep ev = Inr (Some f)"
    "header f = conn_header ty (of_nat (i - 1)) sna i 10"
    by (rule recv_frame_delivers [OF up assms(5)])
  show thesis
    by (rule recv_conn_fields [OF assms(1-3) f])
      (rule that; use f(1) assms(4) in \<open>simp add: recv_conn_master_def\<close>)
qed

lemma recv_conn_slave_ok:
  assumes "conn_pending i ep" "1 \<le> i" "i < CHANNEL_NUM" "flag \<or> ty = TYPE_OPEN_CONNECTION"
    and "delivers ev (conn_header ty (of_nat (i - 1)) sna i 10)"
  obtains fc a where "filled (Suc i) fc" "recv_conn_slave ev ep flag =
    Inr (ep\<lparr>ep_fc := fc, next_rx_seq := of_nat i, acked_seq := a\<rparr>, True)"
    "seq_ok (acked_seq ep) \<longrightarrow> seq_ok a"
proof -
  have up: "fabric_up ep" using assms(1) by (simp add: conn_pending_def)
  obtain f where f: "recv_frame ep ev = Inr (Some f)"
    "header f = conn_header ty (of_nat (i - 1)) sna i 10"
    by (rule recv_frame_delivers [OF up assms(5)])
  have ty: "flag \<or> frame_type (header f) = 2" using assms(4) f(2) by (simp add: conn_header_def)
  show thesis
    by (rule recv_conn_fields [OF assms(1-3) f])
      (rule that; use f(1) ty in \<open>auto simp add: recv_conn_slave_def Let_def\<close>)
qed

lemma recv_frame_none: "fst ev < 0 \<Longrightarrow> recv_frame ep ev = Inr None"
  by (cases ev) (simp add: recv_frame_def tloe_fabric_recv_def)

lemma delivers_polled:
  assumes "polls (ev # evs) (map (\<lambda>i. conn_packet (offer_header opn sna i)) [i..<CHANNEL_NUM])"
    and "\<not> fst (recv_ev ev) < 0"
  shows "i < CHANNEL_NUM" "delivers (recv_ev ev) (offer_header opn sna i)"
    "polls evs (map (\<lambda>i. conn_packet (offer_header opn sna i)) [Suc i..<CHANNEL_NUM])"
proof -
  show i: "i < CHANNEL_NUM" using assms by (cases "i < 6") simp_all
  then have "[i..<CHANNEL_NUM] = i # [Suc i..<CHANNEL_NUM]" by (rule upt_conv_Cons)
  then show "delivers (recv_ev ev) (offer_header opn sna i)"
    "polls evs (map (\<lambda>i. conn_packet (offer_header opn sna i)) [Suc i..<CHANNEL_NUM])"
    using assms by (simp_all add: delivers_def)
qed

text \<open>The loops, from channel \<open>i\<close> on.\<close>

lemma open_master_loop_step:
  assumes "(if timer then serve_conn_master ep else Inr ep) = Inr ep1"
    and "recv_conn_master (recv_ev ev) ep1 = Inr ep2"
  shows "open_master_loop wde (ev # evs) start timer ep =
    (if check_all_channels wde (ep_fc ep2) then Inr ep2
     else open_master_loop wde evs (if timer then serve_time ev else start)
       (check_timer (if timer then serve_time ev else start) (check_time ev)) ep2)"
  unfolding open_master_loop.simps assms(1) by (simp only: bindR.simps Let_def assms(2))

lemma open_master_loop_ok:
  assumes "polls evs (map (\<lambda>i. conn_packet (offer_header opn sna i)) [i..<CHANNEL_NUM])" "1 \<le> i"
    "i < CHANNEL_NUM" "conn_pending i ep" "next_rx_seq ep = of_nat (i - 1)" "timer \<or> next_tx_seq ep = 5"
  shows "\<exists>fc a. open_master_loop wde evs start timer ep =
      Inr (ep\<lparr>wire := wire ep @ rounds True ep (offerings True start timer (i - 1) evs),
              next_tx_seq := 5, ep_fc := fc, next_rx_seq := 5, acked_seq := a\<rparr>) \<and>
    filled CHANNEL_NUM fc \<and> (seq_ok (acked_seq ep) \<longrightarrow> seq_ok a)"
  using assms
proof (induction evs arbitrary: i start timer ep)
  case Nil
  then show ?case by simp
next
  case (Cons ev evs)
  define w where "w = (if timer then offer True ep else [])"
  define ep1 where "ep1 = ep\<lparr>wire := wire ep @ w, next_tx_seq := 5\<rparr>"
  define start' where "start' = (if timer then serve_time ev else start)"
  have up: "fabric_up ep" using Cons.prems(4) by (simp add: conn_pending_def)
  have serve: "(if timer then serve_conn_master ep else Inr ep) = Inr ep1"
    using Cons.prems(6) up by (auto simp: ep1_def w_def serve_conn_eq sent_def)
  have w: "w = rounds True ep (if timer then [i - 1] else [])"
    using Cons.prems(5) by (simp add: w_def rounds_def offer_def)
  have pend: "conn_pending i ep1" "next_rx_seq ep1 = of_nat (i - 1)" "next_tx_seq ep1 = 5"
    using Cons.prems(4,5) by (simp_all add: ep1_def conn_pending_def fabric_up_def)
  show ?case
  proof (cases "fst (recv_ev ev) < 0")
    case True
    have "\<not> check_all_channels wde (ep_fc ep1)"
      using filled_all [of i "ep_fc ep1" wde] pend(1) Cons.prems(2,3) by (simp add: conn_pending_def)
    moreover have "recv_conn_master (recv_ev ev) ep1 = Inr ep1"
      by (simp add: recv_conn_master_def recv_frame_none [OF True])
    ultimately have run: "open_master_loop wde (ev # evs) start timer ep =
        open_master_loop wde evs start' (check_timer start' (check_time ev)) ep1"
      using open_master_loop_step [OF serve] by (simp only: if_False start'_def)
    have p: "polls evs (map (\<lambda>i. conn_packet (offer_header opn sna i)) [i..<CHANNEL_NUM])"
      using Cons.prems(1) True by simp
    have o: "offerings True start timer (i - 1) (ev # evs) = (if timer then [i - 1] else []) @
        offerings True start' (check_timer start' (check_time ev)) (i - 1) evs"
      unfolding offerings_step using True Cons.prems(3) by (auto simp: start'_def Let_def)
    obtain fc a where ih: "open_master_loop wde evs start' (check_timer start' (check_time ev)) ep1 =
        Inr (ep1\<lparr>wire := wire ep1 @ rounds True ep1 (offerings True start'
               (check_timer start' (check_time ev)) (i - 1) evs),
             next_tx_seq := 5, ep_fc := fc, next_rx_seq := 5, acked_seq := a\<rparr>)"
      "filled CHANNEL_NUM fc" "seq_ok (acked_seq ep1) \<longrightarrow> seq_ok a"
      using Cons.IH [OF p Cons.prems(2,3) pend(1,2), of "check_timer start' (check_time ev)" start'] pend(3)
      by auto
    show ?thesis
      unfolding run ih(1) o
      by (intro exI [of _ fc] exI [of _ a]) (use ih(2,3) w in \<open>simp add: ep1_def\<close>)
  next
    case False
    note d = delivers_polled [OF Cons.prems(1) False]
    obtain fc a where r: "filled (Suc i) fc" "recv_conn_master (recv_ev ev) ep1 =
        Inr (ep1\<lparr>ep_fc := fc, next_rx_seq := of_nat i, acked_seq := a\<rparr>)"
      "seq_ok (acked_seq ep1) \<longrightarrow> seq_ok a"
      by (rule recv_conn_master_ok [OF pend(1) Cons.prems(2,3) pend(2) d(2) [unfolded offer_header_def]])
    define ep2 where "ep2 = ep1\<lparr>ep_fc := fc, next_rx_seq := of_nat i, acked_seq := a\<rparr>"
    have done_iff: "check_all_channels wde (ep_fc ep2) \<longleftrightarrow> i = 5"
      using filled_all [OF r(1), of wde] Cons.prems(2,3) by (simp add: ep2_def)
    have run: "open_master_loop wde (ev # evs) start timer ep =
        (if i = 5 then Inr ep2
         else open_master_loop wde evs start' (check_timer start' (check_time ev)) ep2)"
      using open_master_loop_step [OF serve r(2) [folded ep2_def], of wde evs start]
      by (simp only: done_iff start'_def)
    have pend2: "fabric_up ep2" using up by (simp add: ep2_def ep1_def fabric_up_def)
    have n: "Suc (i - 1) = i" using Cons.prems(2) by simp
    show ?thesis
    proof (cases "i = 5")
      case True
      have "ep2 = ep\<lparr>wire := wire ep @ rounds True ep (offerings True start timer (i - 1) (ev # evs)),
          next_tx_seq := 5, ep_fc := fc, next_rx_seq := 5, acked_seq := a\<rparr>"
        using True False w by (simp add: offerings_step ep2_def ep1_def Let_def del: offerings.simps)
      then show ?thesis using run True r(1,3) by (intro exI [of _ fc] exI [of _ a]) (simp add: ep1_def)
    next
      case i: False
      then have "Suc i < 6" using Cons.prems(3) by simp
      moreover have "conn_pending (Suc i) ep2" using r(1) pend2 by (simp add: conn_pending_def ep2_def)
      moreover have "next_rx_seq ep2 = of_nat (Suc i - 1)" "next_tx_seq ep2 = 5"
        by (simp_all add: ep2_def ep1_def)
      ultimately obtain fc' a' where ih: "open_master_loop wde evs start'
          (check_timer start' (check_time ev)) ep2 =
        Inr (ep2\<lparr>wire := wire ep2 @ rounds True ep2 (offerings True start'
                   (check_timer start' (check_time ev)) i evs),
                next_tx_seq := 5, ep_fc := fc', next_rx_seq := 5, acked_seq := a'\<rparr>)"
        "filled CHANNEL_NUM fc'" "seq_ok (acked_seq ep2) \<longrightarrow> seq_ok a'"
        using Cons.IH [OF d(3), of ep2 "check_timer start' (check_time ev)" start'] by auto
      have o: "offerings True start timer (i - 1) (ev # evs) = (if timer then [i - 1] else []) @
          offerings True start' (check_timer start' (check_time ev)) i evs"
        using i False n by (simp add: offerings_step start'_def Let_def del: offerings.simps)
      show ?thesis
        unfolding run if_not_P [OF i] ih(1) o
        by (intro exI [of _ fc'] exI [of _ a']) (use ih(2,3) r(3) w in \<open>simp add: ep2_def ep1_def\<close>)
    qed
  qed
qed

lemma open_slave_loop_step:
  assumes "(if flag \<and> timer then serve_conn_slave ep else Inr ep) = Inr ep1"
    and "recv_conn_slave (recv_ev ev) ep1 flag = Inr (ep2, flag2)"
  shows "open_slave_loop wde (ev # evs) start timer flag ep =
    (if check_all_channels wde (ep_fc ep2) then Inr ep2
     else open_slave_loop wde evs (if flag \<and> timer then serve_time ev else start)
       (check_timer (if flag \<and> timer then serve_time ev else start) (check_time ev)) flag2 ep2)"
  unfolding open_slave_loop.simps assms(1) by (simp only: bindR.simps Let_def assms(2) prod.case)

lemma open_slave_loop_ok:
  assumes "polls evs (map (\<lambda>i. conn_packet (offer_header True sna i)) [i..<CHANNEL_NUM])" "1 \<le> i"
    "i < CHANNEL_NUM" "conn_pending i ep" "1 < i \<longrightarrow> next_rx_seq ep = of_nat (i - 1)"
  shows "\<exists>fc a. open_slave_loop wde evs start timer (1 < i) ep =
      Inr (ep\<lparr>wire := wire ep @ rounds False ep (offerings False start timer (i - 1) evs),
              next_tx_seq := (if offerings False start timer (i - 1) evs = [] then next_tx_seq ep else 5),
              ep_fc := fc, next_rx_seq := 5, acked_seq := a\<rparr>) \<and>
    filled CHANNEL_NUM fc \<and> (seq_ok (acked_seq ep) \<longrightarrow> seq_ok a)"
  using assms
proof (induction evs arbitrary: i start timer ep)
  case Nil
  then show ?case by simp
next
  case (Cons ev evs)
  define now where "now \<longleftrightarrow> 1 < i \<and> timer"
  define w where "w = (if now then offer False ep else [])"
  define ep1 where "ep1 = ep\<lparr>wire := wire ep @ w, next_tx_seq := if now then 5 else next_tx_seq ep\<rparr>"
  define start' where "start' = (if now then serve_time ev else start)"
  have up: "fabric_up ep" using Cons.prems(4) by (simp add: conn_pending_def)
  have serve: "(if 1 < i \<and> timer then serve_conn_slave ep else Inr ep) = Inr ep1"
    using up unfolding now_def [symmetric] by (simp add: ep1_def w_def serve_conn_eq sent_def)
  have w: "w = rounds False ep (if now then [i - 1] else [])"
    using Cons.prems(5) by (simp add: w_def rounds_def offer_def now_def)
  have pend: "conn_pending i ep1" "1 < i \<longrightarrow> next_rx_seq ep1 = of_nat (i - 1)"
    using Cons.prems(4,5) by (simp_all add: ep1_def conn_pending_def fabric_up_def)
  have now: "timer \<and> (False \<or> 0 < i - 1) \<longleftrightarrow> now" using Cons.prems(2) by (auto simp: now_def)
  show ?case
  proof (cases "fst (recv_ev ev) < 0")
    case True
    have "\<not> check_all_channels wde (ep_fc ep1)"
      using filled_all [of i "ep_fc ep1" wde] pend(1) Cons.prems(2,3) by (simp add: conn_pending_def)
    moreover have "recv_conn_slave (recv_ev ev) ep1 (1 < i) = Inr (ep1, 1 < i)"
      by (simp add: recv_conn_slave_def recv_frame_none [OF True])
    ultimately have run: "open_slave_loop wde (ev # evs) start timer (1 < i) ep =
        open_slave_loop wde evs start' (check_timer start' (check_time ev)) (1 < i) ep1"
      using open_slave_loop_step [OF serve] by (simp only: if_False start'_def now_def)
    have p: "polls evs (map (\<lambda>i. conn_packet (offer_header True sna i)) [i..<CHANNEL_NUM])"
      using Cons.prems(1) True by simp
    have o: "offerings False start timer (i - 1) (ev # evs) = (if now then [i - 1] else []) @
        offerings False start' (check_timer start' (check_time ev)) (i - 1) evs"
      unfolding offerings_step now using True Cons.prems(3) by (auto simp: start'_def Let_def)
    obtain fc a where ih: "open_slave_loop wde evs start' (check_timer start' (check_time ev)) (1 < i) ep1 =
        Inr (ep1\<lparr>wire := wire ep1 @ rounds False ep1 (offerings False start'
               (check_timer start' (check_time ev)) (i - 1) evs),
             next_tx_seq := (if offerings False start' (check_timer start' (check_time ev)) (i - 1) evs = []
               then next_tx_seq ep1 else 5),
             ep_fc := fc, next_rx_seq := 5, acked_seq := a\<rparr>)"
      "filled CHANNEL_NUM fc" "seq_ok (acked_seq ep1) \<longrightarrow> seq_ok a"
      using Cons.IH [OF p Cons.prems(2,3) pend, of start' "check_timer start' (check_time ev)"] by auto
    show ?thesis
      unfolding run ih(1) o
      by (intro exI [of _ fc] exI [of _ a]) (use ih(2,3) w in \<open>simp add: ep1_def\<close>)
  next
    case False
    note d = delivers_polled [OF Cons.prems(1) False]
    have ty: "1 < i \<or> (if True \<and> i = 1 then TYPE_OPEN_CONNECTION else TYPE_NORMAL) = TYPE_OPEN_CONNECTION"
      using Cons.prems(2) by auto
    obtain fc a where r: "filled (Suc i) fc" "recv_conn_slave (recv_ev ev) ep1 (1 < i) =
        Inr (ep1\<lparr>ep_fc := fc, next_rx_seq := of_nat i, acked_seq := a\<rparr>, True)"
      "seq_ok (acked_seq ep1) \<longrightarrow> seq_ok a"
      by (rule recv_conn_slave_ok [OF pend(1) Cons.prems(2,3) ty d(2) [unfolded offer_header_def]])
    define ep2 where "ep2 = ep1\<lparr>ep_fc := fc, next_rx_seq := of_nat i, acked_seq := a\<rparr>"
    have done_iff: "check_all_channels wde (ep_fc ep2) \<longleftrightarrow> i = 5"
      using filled_all [OF r(1), of wde] Cons.prems(2,3) by (simp add: ep2_def)
    have run: "open_slave_loop wde (ev # evs) start timer (1 < i) ep =
        (if i = 5 then Inr ep2
         else open_slave_loop wde evs start' (check_timer start' (check_time ev)) True ep2)"
      using open_slave_loop_step [OF serve r(2) [folded ep2_def], of wde evs start]
      by (simp only: done_iff start'_def now_def)
    have up2: "fabric_up ep2" using up by (simp add: ep2_def ep1_def fabric_up_def)
    have n: "Suc (i - 1) = i" using Cons.prems(2) by simp
    show ?thesis
    proof (cases "i = 5")
      case True
      have "offerings False start timer (i - 1) (ev # evs) = (if now then [i - 1] else [])"
        unfolding offerings_step now using True False by (simp add: Let_def)
      then have "ep2 = ep\<lparr>wire := wire ep @ rounds False ep (offerings False start timer (i - 1) (ev # evs)),
          next_tx_seq := (if offerings False start timer (i - 1) (ev # evs) = [] then next_tx_seq ep else 5),
          ep_fc := fc, next_rx_seq := 5, acked_seq := a\<rparr>"
        using True w by (simp add: ep2_def ep1_def)
      then show ?thesis using run True r(1,3) by (intro exI [of _ fc] exI [of _ a]) (simp add: ep1_def)
    next
      case i: False
      have o: "offerings False start timer (i - 1) (ev # evs) = (if now then [i - 1] else []) @
          offerings False start' (check_timer start' (check_time ev)) i evs"
        unfolding offerings_step now using i False n by (simp add: start'_def Let_def)
      have "Suc i < 6" using i Cons.prems(3) by simp
      moreover have "conn_pending (Suc i) ep2" using r(1) up2 by (simp add: conn_pending_def ep2_def)
      moreover have "next_rx_seq ep2 = of_nat (Suc i - 1)" "1 < Suc i"
        using Cons.prems(2) by (simp_all add: ep2_def)
      ultimately obtain fc' a' where ih: "open_slave_loop wde evs start'
          (check_timer start' (check_time ev)) True ep2 =
        Inr (ep2\<lparr>wire := wire ep2 @ rounds False ep2 (offerings False start'
                   (check_timer start' (check_time ev)) i evs),
             next_tx_seq := (if offerings False start' (check_timer start' (check_time ev)) i evs = []
               then next_tx_seq ep2 else 5),
             ep_fc := fc', next_rx_seq := 5, acked_seq := a'\<rparr>)"
        "filled CHANNEL_NUM fc'" "seq_ok (acked_seq ep2) \<longrightarrow> seq_ok a'"
        using Cons.IH [OF d(3), of ep2 start' "check_timer start' (check_time ev)"] by auto
      show ?thesis
        unfolding run if_not_P [OF i] ih(1) o
        by (intro exI [of _ fc'] exI [of _ a']) (use ih(2,3) r(3) w in \<open>simp add: ep2_def ep1_def\<close>)
    qed
  qed
qed

text \<open>The last frame of the master, and the ACKONLY frame of the slave.\<close>

abbreviation "last_header \<equiv> conn_header TYPE_NORMAL 5 4 0 0"

abbreviation "closing_header x \<equiv> conn_header TYPE_ACKONLY x 4 0 0"

lemma seq_4_5_6: "tloe_seqnum_next 5 = 6" "tloe_seqnum_prev 5 = 4"
  using prev_next [of 4] by (simp_all add: tloe_seqnum_next_def seq_ok_def)

lemma open_conn_master_ok:
  assumes "polls evs (offer opn x)" "conn_pending 1 ep" "next_rx_seq ep = 0"
  obtains fc a where "open_conn_master wde evs start ep =
      Inr (ep\<lparr>wire := wire ep @ rounds True ep (offerings True start True 0 evs) @ [conn_packet last_header],
              next_tx_seq := 6, ep_fc := fc, next_rx_seq := 5, acked_seq := a\<rparr>)"
    "filled CHANNEL_NUM fc" "seq_ok (acked_seq ep) \<Longrightarrow> seq_ok a"
proof -
  obtain fc a where l: "open_master_loop wde evs start True ep =
      Inr (ep\<lparr>wire := wire ep @ rounds True ep (offerings True start True 0 evs),
              next_tx_seq := 5, ep_fc := fc, next_rx_seq := 5, acked_seq := a\<rparr>)"
    "filled CHANNEL_NUM fc" "seq_ok (acked_seq ep) \<longrightarrow> seq_ok a"
    using open_master_loop_ok [OF assms(1) [unfolded offer_def] _ _ assms(2), of True wde start] assms(3)
    by auto
  have "fabric_up ep" using assms(2) by (simp add: conn_pending_def)
  with l seq_4_5_6 show thesis
    by (intro that) (simp_all add: open_conn_master_def send_frame_eq tloe_seqnum_next_tx_seq_inc_def
        tloe_fabric_send_wire sent_def fabric_up_def)
qed

text \<open>The slave ends with the credit of the peer.  Whether it has offered its own depends on what
  the uninitialised \<open>start\<close> holds: when the timer never seems to have run out, the slave leaves with a
  single ACKONLY frame.\<close>

lemma open_conn_slave_ok:
  assumes "polls evs (offer True x)" "conn_pending 1 ep"
  obtains fc a where "open_conn_slave wde evs start ep =
      Inr (ep\<lparr>wire := wire ep @ rounds False ep (offerings False start True 0 evs) @
                [conn_packet (closing_header
                   (if offerings False start True 0 evs = [] then next_tx_seq ep else 5))],
              next_tx_seq := (if offerings False start True 0 evs = [] then next_tx_seq ep else 5),
              ep_fc := fc, next_rx_seq := 5, acked_seq := a\<rparr>)"
    "filled CHANNEL_NUM fc" "seq_ok (acked_seq ep) \<Longrightarrow> seq_ok a"
proof -
  obtain fc a where l: "open_slave_loop wde evs start True False ep =
      Inr (ep\<lparr>wire := wire ep @ rounds False ep (offerings False start True 0 evs),
              next_tx_seq := (if offerings False start True 0 evs = [] then next_tx_seq ep else 5),
              ep_fc := fc, next_rx_seq := 5, acked_seq := a\<rparr>)"
    "filled CHANNEL_NUM fc" "seq_ok (acked_seq ep) \<longrightarrow> seq_ok a"
    using open_slave_loop_ok [OF assms(1) [unfolded offer_def] _ _ assms(2), of wde start True] by auto
  have "fabric_up ep" using assms(2) by (simp add: conn_pending_def)
  with l seq_4_5_6 show thesis
    by (intro that) (simp_all add: open_conn_slave_def send_frame_eq
        tloe_fabric_send_wire sent_def fabric_up_def)
qed

lemma offerings_never:
  "\<forall>ev \<in> set evs. \<not> check_timer start (check_time ev) \<Longrightarrow> offerings False start False k evs = []"
  by (induction evs arbitrary: k) (simp_all add: offerings_step Let_def del: offerings.simps(2))

lemma offerings_slave:
  "\<forall>ev \<in> set evs. \<not> check_timer start (check_time ev) \<Longrightarrow> offerings False start True 0 evs = []"
  by (cases evs) (simp_all add: offerings_step offerings_never Let_def del: offerings.simps(2))

section \<open>Closing\<close>

definition close_packet :: "endpoint \<Rightarrow> byte list" where
  "close_packet ep = conn_packet (conn_header TYPE_CLOSE_CONNECTION (next_tx_seq ep)
     (tloe_seqnum_prev (next_rx_seq ep)) 0 0)"

text \<open>The master repeats its CLOSE frame until the peer's arrives; what is received in between has
  no effect.\<close>

definition quiet :: "endpoint \<Rightarrow> conn_event \<Rightarrow> bool" where
  "quiet ep ev \<longleftrightarrow> fst (tloe_fabric_recv ep (recv_ev ev)) < 0"

lemma quiet_recv: "quiet ep ev \<Longrightarrow> recv_frame ep (recv_ev ev) = Inr None"
  by (cases "tloe_fabric_recv ep (recv_ev ev)") (simp add: quiet_def recv_frame_def)

lemma quiet_wire [simp]:
  "quiet (ep\<lparr>wire := w\<rparr>) ev = quiet ep ev" "close_packet (ep\<lparr>wire := w\<rparr>) = close_packet ep"
  "sent (ep\<lparr>wire := w\<rparr>) ps = sent ep ps"
  by (simp_all add: quiet_def tloe_fabric_recv_def fabric_up_def close_packet_def sent_def)

text \<open>An iteration that brings no CLOSE frame: nothing, or some other frame of the handshake's size.\<close>

definition idle :: "endpoint \<Rightarrow> conn_event \<Rightarrow> bool" where
  "idle ep ev \<longleftrightarrow> quiet ep ev \<or>
     (\<exists>h. delivers (recv_ev ev) h \<and> frame_type h \<noteq> TYPE_CLOSE_CONNECTION)"

lemma idle_recv:
  assumes "fabric_up ep" "idle ep ev"
  shows "recv_close_conn_master (recv_ev ev) ep = Inr (ep, False)"
    "recv_close_conn_slave (recv_ev ev) ep flag = Inr (ep, flag)"
proof -
  consider "recv_frame ep (recv_ev ev) = Inr None"
    | f where "recv_frame ep (recv_ev ev) = Inr (Some f)" "frame_type (header f) \<noteq> 3"
    using assms(2) quiet_recv recv_frame_delivers [OF assms(1), of "recv_ev ev"]
    unfolding idle_def by metis
  then show "recv_close_conn_master (recv_ev ev) ep = Inr (ep, False)"
    "recv_close_conn_slave (recv_ev ev) ep flag = Inr (ep, flag)"
    by (cases; simp add: recv_close_conn_master_def recv_close_conn_slave_def)+
qed

lemma idle_wire [simp]: "idle (ep\<lparr>wire := w\<rparr>) ev = idle ep ev"
  by (simp add: idle_def)

text \<open>How often a frame is sent again in the given iterations of a loop, when it was last sent at time
  \<open>t\<close>: an iteration whose reading of the clock is five seconds or more after that makes the next one
  send it, which starts the time anew.\<close>

fun resends :: "timespec \<Rightarrow> conn_event list \<Rightarrow> nat" where
  "resends t [] = 0"
| "resends t [ev] = 0"
| "resends t (ev # ev' # evs) =
     (if 5000000 \<le> (tv_sec (check_time ev) - tv_sec t) * 1000000 +
          (tv_nsec (check_time ev) - tv_nsec t) sdiv 1000
      then Suc (resends (serve_time ev') (ev' # evs)) else resends t (ev' # evs))"

lemma resends_step:
  "evs \<noteq> [] \<Longrightarrow> resends t (ev # evs) = (if check_timer t (check_time ev)
     then Suc (resends (serve_time (hd evs)) evs) else resends t evs)"
  by (cases evs) (simp_all add: check_timer_def)

lemma close_master_loop_ok:
  assumes "list_all (idle ep) evs" "fabric_up ep" "delivers (recv_ev ev) h"
    "frame_type h = TYPE_CLOSE_CONNECTION"
  shows "close_master_loop (evs @ ev # rest) start timer ep =
      Inr (ep\<lparr>wire := wire ep @ replicate
                (if timer then Suc (resends (serve_time (hd (evs @ [ev]))) (evs @ [ev]))
                 else resends start (evs @ [ev])) (close_packet ep),
              next_rx_seq := tloe_seqnum_next (ucast (seq_num h)),
              acked_seq := ucast (seq_num_ack h)\<rparr>)"
  using assms
proof (induction evs arbitrary: start timer ep)
  case Nil
  let ?ep1 = "if timer then ep\<lparr>wire := wire ep @ [close_packet ep]\<rparr> else ep"
  have serve: "(if timer then serve_close_conn ep else Inr ep) = Inr ?ep1"
    using Nil.prems(2)
    by (simp add: serve_close_conn_def send_frame_eq tloe_fabric_send_def close_packet_def)
  have up: "fabric_up ?ep1" using Nil.prems(2) by (simp add: fabric_up_def)
  obtain f where f: "recv_frame ?ep1 (recv_ev ev) = Inr (Some f)" "header f = h"
    by (rule recv_frame_delivers [OF up Nil.prems(3)])
  have "close_master_loop ([] @ ev # rest) start timer ep =
      Inr (?ep1\<lparr>next_rx_seq := tloe_seqnum_next (ucast (seq_num h)),
               acked_seq := ucast (seq_num_ack h)\<rparr>)"
    using serve f Nil.prems(4)
    by (simp add: recv_close_conn_master_def frame_seq_def frame_seq_ack_def Let_def)
  then show ?case by simp
next
  case (Cons x evs)
  define w where "w = wire ep @ (if timer then [close_packet ep] else [])"
  define start' where "start' = (if timer then serve_time x else start)"
  have serve: "(if timer then serve_close_conn ep else Inr ep) = Inr (ep\<lparr>wire := w\<rparr>)"
    using Cons.prems(2)
    by (simp add: serve_close_conn_def send_frame_eq tloe_fabric_send_def close_packet_def w_def)
  have up: "fabric_up (ep\<lparr>wire := w\<rparr>)" using Cons.prems(2) by (simp add: fabric_up_def)
  have "recv_close_conn_master (recv_ev x) (ep\<lparr>wire := w\<rparr>) = Inr (ep\<lparr>wire := w\<rparr>, False)"
    using Cons.prems(1) by (intro idle_recv [OF up]) simp
  then have run: "close_master_loop ((x # evs) @ ev # rest) start timer ep =
      close_master_loop (evs @ ev # rest) start' (check_timer start' (check_time x)) (ep\<lparr>wire := w\<rparr>)"
    using serve by (simp add: Let_def start'_def)
  have q: "list_all (idle (ep\<lparr>wire := w\<rparr>)) evs" using Cons.prems(1) by (simp add: list_all_iff)
  have k: "resends start' ((x # evs) @ [ev]) = (if check_timer start' (check_time x)
      then Suc (resends (serve_time (hd (evs @ [ev]))) (evs @ [ev])) else resends start' (evs @ [ev]))"
    using resends_step [of "evs @ [ev]"] by simp
  show ?case
    unfolding run Cons.IH [OF q up Cons.prems(3,4)]
    by (cases timer; cases "check_timer start' (check_time x)")
      (use k in \<open>simp_all add: w_def start'_def\<close>)
qed

lemma close_conn_master_ok:
  assumes "list_all (idle ep) evs" "fabric_up ep" "delivers (recv_ev ev) h"
    "frame_type h = TYPE_CLOSE_CONNECTION"
  shows "close_conn_master (evs @ ev # rest) start ep =
      Inr (ep\<lparr>wire := wire ep @ replicate (Suc (resends (serve_time (hd (evs @ [ev]))) (evs @ [ev])))
                (close_packet ep),
              next_rx_seq := tloe_seqnum_next (ucast (seq_num h)),
              acked_seq := ucast (seq_num_ack h)\<rparr>)"
  by (simp only: close_conn_master_def close_master_loop_ok [OF assms] if_True)

text \<open>The slave waits for the CLOSE frame and answers with one of its own; it then waits for the
  receive function once more before it leaves.\<close>

lemma close_conn_slave_ok:
  assumes "list_all (idle ep) evs" "fabric_up ep" "delivers (recv_ev ev) h"
    "frame_type h = TYPE_CLOSE_CONNECTION" "idle ep ev'"
    and "ep1 = ep\<lparr>next_rx_seq := tloe_seqnum_next (ucast (seq_num h)),
                 acked_seq := ucast (seq_num_ack h)\<rparr>"
  shows "close_conn_slave (evs @ ev # ev' # rest) ep =
      Inr (ep1\<lparr>wire := wire ep1 @ [close_packet ep1]\<rparr>)"
proof -
  obtain f where f: "recv_frame ep (recv_ev ev) = Inr (Some f)" "header f = h"
    by (rule recv_frame_delivers [OF assms(2,3)])
  have up: "fabric_up ep1" using assms(2) by (simp add: assms(6) fabric_up_def)
  let ?ep2 = "ep1\<lparr>wire := wire ep1 @ [close_packet ep1]\<rparr>"
  have serve: "serve_close_conn ep1 = Inr ?ep2"
    using up by (simp add: serve_close_conn_def send_frame_eq tloe_fabric_send_def close_packet_def)
  have "idle ?ep2 ev'"
    using assms(5) by (simp add: idle_def quiet_def tloe_fabric_recv_def fabric_up_def assms(6))
  moreover have "fabric_up ?ep2" using up by (simp add: fabric_up_def)
  ultimately have "recv_close_conn_slave (recv_ev ev') ?ep2 True = Inr (?ep2, True)"
    using idle_recv(2) by blast
  then have "close_slave_loop (ev # ev' # rest) False ep = Inr ?ep2"
    using f assms(4) serve
    by (simp add: recv_close_conn_slave_def frame_seq_def frame_seq_ack_def Let_def
        assms(6) [symmetric])
  moreover have "close_slave_loop (evs @ ys) False ep = close_slave_loop ys False ep" for ys
    using assms(1) by (induction evs) (simp_all add: idle_recv(2) [OF assms(2)] Let_def)
  ultimately show ?thesis by (simp add: close_conn_slave_def)
qed

section \<open>Both ends\<close>

text \<open>The packets \<open>ps\<close> arrive in order, one in each iteration; what follows them in the receive
  buffer does not matter.\<close>

fun receives :: "conn_event list \<Rightarrow> byte list list \<Rightarrow> bool" where
  "receives [] ps = (ps = [])"
| "receives (ev # evs) ps = (case ps of [] \<Rightarrow> False | p # ps \<Rightarrow>
     fst (recv_ev ev) = CONN_PACKET_SIZE \<and> take 56 (snd (recv_ev ev)) = p \<and> receives evs ps)"

lemma receives_polls: "receives evs ps \<Longrightarrow> polls evs ps"
  by (induction evs ps rule: receives.induct) (auto split: list.splits)

definition example_event :: "byte list \<Rightarrow> conn_event" where
  "example_event p = \<lparr>serve_time = \<lparr>tv_sec = 0, tv_nsec = 0\<rparr>, recv_ev = (56, p @ [1, 2, 3]),
     check_time = \<lparr>tv_sec = 0, tv_nsec = 0\<rparr>\<rparr>"

lemma example_delivers: "delivers (recv_ev (example_event (conn_packet h))) h"
  using delivers_packet [of h "[1, 2, 3]"] by (simp add: example_event_def)

lemma example_receives: "receives (map (example_event \<circ> conn_packet) hs) (map conn_packet hs)"
proof (induction hs)
  case (Cons h hs)
  then show ?case using example_delivers [of h] by (simp add: delivers_def)
qed simp

lemma offer_packets: "\<exists>hs. offer opn ep = map conn_packet hs \<and> length hs = 5"
  unfolding offer_def by (rule exI [of _ "map (offer_header opn (tloe_seqnum_prev (next_rx_seq ep))) [1..<6]"])
    simp

text \<open>A value of \<open>start\<close> that looks old to the slave.\<close>

definition late :: timespec where
  "late = \<lparr>tv_sec = -10, tv_nsec = 0\<rparr>"

lemma example_offerings:
  assumes "length ps = 5"
  shows "offerings False late True 0 (map example_event ps) = [1]"
proof -
  obtain p q qs where ps: "ps = p # q # qs"
    using assms by (cases ps; cases "tl ps") auto
  let ?t = "\<lparr>tv_sec = 0, tv_nsec = 0\<rparr>"
  have "check_timer late ?t" "\<not> check_timer ?t ?t" by (simp_all add: check_timer_def late_def)
  moreover from this(2) have "offerings False ?t False (Suc (Suc 0)) (map example_event qs) = []"
    by (intro offerings_never) (simp add: example_event_def)
  ultimately show ?thesis
    by (simp add: ps offerings_step example_event_def Let_def del: offerings.simps(2))
qed

lemma example_pending: "conn_pending 1 example_endpoint"
proof -
  have "replicate 6 (128 :: u32) ! c = 128" if "c < 6" for c using that by (rule nth_replicate)
  then show ?thesis using example_fc_inv by (simp add: conn_pending_def filled_def)
qed

section \<open>Properties\<close>

text \<open>C12: The opening handshake.  A master and a slave run against each other over a network that loses
  nothing.  The slave, which receives the master's offer in whatever iterations, leaves its loop; what
  it has sent is its own offer, once for every time its timer has run out with a frame of the master
  received, and an ACKONLY frame.  When it has offered at all, a master that receives the first five
  packets of this slave, in whatever iterations, leaves its loop as well; it has sent its offer at once
  and again whenever its timer had run out, and a last frame.  Both have \<open>2 ^ 10\<close> flits of credit on
  every channel A to E; the master's last frame is the one the slave expects, and the slave's next
  number the one the master expects.\<close>

theorem open_connection_handshake:
  assumes "conn_pending 1 m" "conn_pending 1 s" "next_rx_seq m = 0" "polls evs_s (offer True m)"
    and "ks = offerings False start_s True 0 evs_s"
  shows "\<exists>s'. open_conn_slave wde evs_s start_s s = Inr s' \<and>
    wire s' = wire s @ concat (map (\<lambda>k. offer False (s\<lparr>next_rx_seq := of_nat k\<rparr>)) ks) @
      [conn_packet (conn_header TYPE_ACKONLY (if ks = [] then next_tx_seq s else 5) 4 0 0)] \<and>
    (\<forall>c \<in> {1, 2, 3, 4, 5}. credits (ep_fc s') ! c = 1024) \<and>
    next_rx_seq s' = 5 \<and> next_tx_seq s' = (if ks = [] then next_tx_seq s else 5) \<and>
    (ks \<noteq> [] \<and> polls evs_m (take 5 (drop (length (wire s)) (wire s'))) \<longrightarrow>
     (\<exists>m' js. open_conn_master wde evs_m start_m m = Inr m' \<and>
       offerings True start_m True 0 evs_m = 0 # js \<and>
       wire m' = wire m @ offer True m @ concat (map (\<lambda>k. offer True (m\<lparr>next_rx_seq := of_nat k\<rparr>)) js) @
         [conn_packet (conn_header TYPE_NORMAL 5 4 0 0)] \<and>
       (\<forall>c \<in> {1, 2, 3, 4, 5}. credits (ep_fc m') ! c = 1024) \<and>
       next_rx_seq m' = 5 \<and> next_tx_seq m' = 6))"
proof -
  obtain fc a where s': "open_conn_slave wde evs_s start_s s =
      Inr (s\<lparr>wire := wire s @ rounds False s ks @
                [conn_packet (closing_header (if ks = [] then next_tx_seq s else 5))],
              next_tx_seq := (if ks = [] then next_tx_seq s else 5),
              ep_fc := fc, next_rx_seq := 5, acked_seq := a\<rparr>)" "filled CHANNEL_NUM fc"
    unfolding assms(5) by (rule open_conn_slave_ok [OF assms(4,2), of wde start_s])
  have master: "\<exists>m' js. open_conn_master wde evs_m start_m m = Inr m' \<and>
       offerings True start_m True 0 evs_m = 0 # js \<and>
       wire m' = wire m @ offer True m @ concat (map (\<lambda>k. offer True (m\<lparr>next_rx_seq := of_nat k\<rparr>)) js) @
         [conn_packet last_header] \<and>
       (\<forall>c \<in> {1, 2, 3, 4, 5}. credits (ep_fc m') ! c = 1024) \<and> next_rx_seq m' = 5 \<and> next_tx_seq m' = 6"
    if "ks \<noteq> []" "polls evs_m (take 5 (rounds False s ks @ qs))" for qs
  proof -
    obtain k ks' where k: "ks = k # ks'" using \<open>ks \<noteq> []\<close> by (cases ks) auto
    have "length (offer False (s\<lparr>next_rx_seq := of_nat k\<rparr>)) = 5" by (simp add: offer_def)
    then have r: "polls evs_m (offer False (s\<lparr>next_rx_seq := of_nat k\<rparr>))"
      using that(2) by (simp add: k rounds_def)
    then have "evs_m \<noteq> []" by (auto simp: offer_def)
    then obtain ev evs where "evs_m = ev # evs" by (cases evs_m) auto
    then obtain js where js: "offerings True start_m True 0 evs_m = 0 # js" by (simp add: Let_def)
    obtain fc' a' where "open_conn_master wde evs_m start_m m =
        Inr (m\<lparr>wire := wire m @ rounds True m (0 # js) @ [conn_packet last_header],
              next_tx_seq := 6, ep_fc := fc', next_rx_seq := 5, acked_seq := a'\<rparr>)" "filled CHANNEL_NUM fc'"
      unfolding js [symmetric] by (rule open_conn_master_ok [OF r assms(1,3), of wde start_m])
    then show ?thesis using js assms(3) by (auto simp: rounds_def filled_def offer_def)
  qed
  show ?thesis
    by (rule exI, rule conjI [OF s'(1)])
      (use s'(2) master in \<open>auto simp: filled_def rounds_def [symmetric]\<close>)
qed

text \<open>The slave's timer looks run out when it starts, so that it offers once, after the first frame.\<close>

theorem open_connection_handshake_witness:
  "\<exists>evs_m evs_s m' s'. length evs_m = 5 \<and>
     open_conn_master False evs_m \<lparr>tv_sec = 0, tv_nsec = 0\<rparr> example_endpoint = Inr m' \<and>
     open_conn_slave False evs_s late example_endpoint = Inr s' \<and>
     polls evs_s (take 5 (wire m')) \<and> polls evs_m (take 5 (wire s')) \<and> length (wire s') = 6 \<and>
     credits (ep_fc m') ! 1 = 1024 \<and> credits (ep_fc s') ! 5 = 1024"
proof -
  let ?e = "example_endpoint" and ?t = "\<lparr>tv_sec = 0, tv_nsec = 0\<rparr>"
  obtain hs hm where h: "offer False (?e\<lparr>next_rx_seq := 1\<rparr>) = map conn_packet hs" "length hs = 5"
    "offer True ?e = map conn_packet hm" "length hm = 5"
    using offer_packets by metis
  let ?evs_m = "map (example_event \<circ> conn_packet) hs" and ?evs_s = "map (example_event \<circ> conn_packet) hm"
  have p: "polls ?evs_m (map conn_packet hs)" "polls ?evs_s (offer True ?e)"
    using receives_polls [OF example_receives] h(3) by auto
  have z: "next_rx_seq ?e = 0" by simp
  have ks: "[1] = offerings False late True 0 ?evs_s"
    using example_offerings [of "map conn_packet hm"] h(4) by simp
  obtain s' where s': "open_conn_slave False ?evs_s late ?e = Inr s'"
    "wire s' = map conn_packet hs @ [conn_packet (closing_header 5)]"
    "credits (ep_fc s') ! 5 = 1024"
    "polls ?evs_m (take 5 (wire s')) \<Longrightarrow> \<exists>m' qs. open_conn_master False ?evs_m ?t ?e = Inr m' \<and>
       wire m' = offer True ?e @ qs \<and> credits (ep_fc m') ! 1 = 1024"
    using open_connection_handshake [OF example_pending example_pending z p(2) ks,
        where wde = False and evs_m = ?evs_m and start_m = ?t] h(1)
    by auto
  have m: "polls ?evs_m (take 5 (wire s'))" using p(1) h(2) by (simp add: s'(2))
  with s'(4) obtain m' qs where m': "open_conn_master False ?evs_m ?t ?e = Inr m'"
    "wire m' = offer True ?e @ qs" "credits (ep_fc m') ! 1 = 1024" by blast
  have "polls ?evs_s (take 5 (wire m'))" using p(2) h(3,4) by (simp add: m'(2))
  moreover have "length ?evs_m = 5" "length (wire s') = 6" using h(2) by (simp_all add: s'(2))
  ultimately show ?thesis using s'(1,3) m m'(1,3) by blast
qed

text \<open>C37: The slave's timer starts uninitialised: it opens its own side only when the garbage in
  \<open>start\<close> looks old.  When no reading of the clock is five seconds after it, the slave receives the
  master's five frames, leaves the loop as connected and has sent nothing but one ACKONLY frame:
  the master never gets its credit.\<close>

theorem open_slave_may_not_answer:
  assumes "conn_pending 1 s" "receives evs (offer True m)"
    and "\<forall>ev \<in> set evs. \<not> check_timer start (check_time ev)"
  shows "\<exists>s' h. open_conn_slave wde evs start s = Inr s' \<and> wire s' = wire s @ [conn_packet h] \<and>
    frame_type h = TYPE_ACKONLY"
proof -
  have o: "offerings False start True 0 evs = []" using assms(3) by (rule offerings_slave)
  obtain fc a where "open_conn_slave wde evs start s = Inr (s\<lparr>wire := wire s @ rounds False s [] @
      [conn_packet (closing_header (next_tx_seq s))], next_tx_seq := next_tx_seq s,
      ep_fc := fc, next_rx_seq := 5, acked_seq := a\<rparr>)"
    by (rule open_conn_slave_ok [OF receives_polls [OF assms(2)] assms(1), of wde start, unfolded o if_True simp_thms])
  then show ?thesis by (auto simp: conn_header_def)
qed

theorem open_slave_may_not_answer_witness:
  "\<exists>evs s' h. open_conn_slave False evs \<lparr>tv_sec = 0, tv_nsec = 0\<rparr> example_endpoint = Inr s' \<and>
     wire s' = [conn_packet h] \<and> frame_type h = TYPE_ACKONLY"
proof -
  obtain hm where hm: "offer True example_endpoint = map conn_packet hm" using offer_packets by metis
  let ?evs = "map (example_event \<circ> conn_packet) hm"
  have r: "receives ?evs (offer True example_endpoint)" using example_receives hm by simp
  have t: "\<forall>ev \<in> set ?evs. \<not> check_timer \<lparr>tv_sec = 0, tv_nsec = 0\<rparr> (check_time ev)"
    by (auto simp: check_timer_def example_event_def signed_divide_int_def)
  show ?thesis using open_slave_may_not_answer [OF example_pending r t, of False] by auto
qed

text \<open>C28: Closing.  The master sends its CLOSE frame at once and again in every iteration that follows a
  reading of the clock five seconds or more after the last one it sent, until the CLOSE frame of the
  peer arrives, however many iterations receive nothing or other frames; the slave answers the first
  CLOSE frame with exactly one of its own.  Both take over the sequence numbers of the peer.\<close>

theorem close_connection_handshake:
  assumes "fabric_up m" "list_all (idle m) evs_m" "delivers (recv_ev ev_m) h_m"
      "frame_type h_m = TYPE_CLOSE_CONNECTION"
    and "fabric_up s" "list_all (idle s) evs_s" "delivers (recv_ev ev_s) h_s"
      "frame_type h_s = TYPE_CLOSE_CONNECTION" "idle s ev_s'"
  shows "close_conn_master (evs_m @ ev_m # rest) start m =
      Inr (m\<lparr>wire := wire m @ replicate
               (Suc (resends (serve_time (hd (evs_m @ [ev_m]))) (evs_m @ [ev_m]))) (close_packet m),
             next_rx_seq := tloe_seqnum_next (ucast (seq_num h_m)),
             acked_seq := ucast (seq_num_ack h_m)\<rparr>) \<and>
    close_conn_slave (evs_s @ ev_s # ev_s' # rest) s =
      Inr (s\<lparr>next_rx_seq := tloe_seqnum_next (ucast (seq_num h_s)),
             acked_seq := ucast (seq_num_ack h_s),
             wire := wire s @ [conn_packet (conn_header TYPE_CLOSE_CONNECTION (next_tx_seq s)
               (tloe_seqnum_prev (tloe_seqnum_next (ucast (seq_num h_s)))) 0 0)]\<rparr>)"
  using close_conn_master_ok [OF assms(2,1,3,4)] close_conn_slave_ok [OF assms(6,5,7,8,9) refl, of rest]
  by (simp add: close_packet_def)

text \<open>The peer's CLOSE frame comes in the fourth iteration.  The clock is read 5 s after the first
  frame, so that a second one is sent at 6 s, and 4 s after that one.\<close>

theorem close_connection_handshake_witness:
  "\<exists>evs m' evs' s' p. close_conn_master evs \<lparr>tv_sec = 0, tv_nsec = 0\<rparr> example_endpoint = Inr m' \<and>
     length evs = 4 \<and> wire m' = [close_packet example_endpoint, close_packet example_endpoint] \<and>
     close_conn_slave evs' example_endpoint = Inr s' \<and> wire s' = [p]"
proof -
  let ?h = "conn_header TYPE_CLOSE_CONNECTION 7 3 0 0"
  let ?ev = "example_event (conn_packet ?h)"
  let ?no = "\<lambda>i j. \<lparr>serve_time = \<lparr>tv_sec = i, tv_nsec = 0\<rparr>, recv_ev = (-1, []),
     check_time = \<lparr>tv_sec = j, tv_nsec = 0\<rparr>\<rparr>"
  have no: "idle example_endpoint (?no i j)" for i j
    by (simp add: idle_def quiet_def tloe_fabric_recv_def)
  have ty: "frame_type ?h = 3" by (simp add: conn_header_def)
  have evs: "list_all (idle example_endpoint) [?no 0 1, ?no 2 5, ?no 6 10]" and up: "fabric_up example_endpoint"
    using no by simp_all
  note ok = close_connection_handshake [OF up evs example_delivers ty up evs example_delivers ty no,
      of "[]" "\<lparr>tv_sec = 0, tv_nsec = 0\<rparr>"]
  have "resends (serve_time (hd ([?no 0 1, ?no 2 5, ?no 6 10] @ [?ev])))
      ([?no 0 1, ?no 2 5, ?no 6 10] @ [?ev]) = 1"
    by (simp add: signed_divide_int_def)
  then show ?thesis
    using ok [of 0 0] by (intro exI conjI) auto
qed

end
