(* ===== verification/Endpoint_Main.thy ===== *)
theory Endpoint_Main
  imports Tilelink_Handler Connection
begin

text \<open>
  The endpoint program, \<open>tloe_endpoint.c\<close>: the choice of the next message, the body of the
  endpoint thread, the messages and commands of the user, the command line and the start-up.
\<close>

section \<open>The endpoint thread\<close>

text \<open>\<open>select_buffer\<close> with the static \<open>buffer_select_counter\<close> as a state.\<close>

definition select_buffer :: "int \<Rightarrow> endpoint \<Rightarrow> int \<times> endpoint \<times> tl_msg option" where
  "select_buffer counter e =
     (let counter = counter - 1;
          from_message = (\<lambda>e. case dequeue (message_buffer e) of
                            (q, m) \<Rightarrow> (4, e\<lparr>message_buffer := q\<rparr>, m))
      in if counter > 0 then
           case dequeue (response_buffer e) of
             (q, Some m) \<Rightarrow> (counter, e\<lparr>response_buffer := q\<rparr>, Some m)
           | (q, None) \<Rightarrow> from_message (e\<lparr>response_buffer := q\<rparr>)
         else from_message e)"

text \<open>What one iteration takes from outside: the clock, the allocations, the received packet.\<close>

record iter_env =
  it_now :: timespec
  it_tx :: tx_env
  it_rx_alloc :: bool
  it_recv :: recv_event

text \<open>The state of the thread: the endpoint, the memory, \<open>buffer_select_counter\<close> and the local
  variable \<open>request_tlmsg\<close>.\<close>

record thread =
  th_ep :: endpoint
  th_mem :: storage
  th_counter :: int
  th_request :: "tl_msg option"

definition tloe_iteration :: "iter_env \<Rightarrow> thread \<Rightarrow> thread result" where
  "tloe_iteration env st =
     (let (counter, e, request) =
            (if th_request st = None then select_buffer (th_counter st) (th_ep st)
             else (th_counter st, th_ep st, th_request st));
          e = e\<lparr>iteration_ts := it_now env\<rparr>
      in bindR (TX (it_tx env) e request) (\<lambda>(e, request).
         bindR (RX (it_rx_alloc env) (it_recv env) e) (\<lambda>e.
         bindR (tl_handler e (th_mem st)) (\<lambda>(e, mem, served).
         bindR (case served of
                  None \<Rightarrow> Inr e
                | Some (ch, n) \<Rightarrow>
                    bindR (add_channel_flow_credits (ep_fc e) ch n) (\<lambda>fc. Inr (e\<lparr>ep_fc := fc\<rparr>))) (\<lambda>e.
           Inr \<lparr>th_ep = e, th_mem = mem, th_counter = counter, th_request = request\<rparr>)))))"

text \<open>The loop of the thread, observed after as many iterations as there are inputs.  Without a
  connection it spins until the main thread sets the flag.\<close>

fun tloe_endpoint :: "iter_env list \<Rightarrow> thread \<Rightarrow> thread result" where
  "tloe_endpoint [] st = Inr st"
| "tloe_endpoint (env # envs) st =
     (if is_done (th_ep st) then Inr st
      else if \<not> connection (th_ep st) then Inl Blocked
      else bindR (tloe_iteration env st) (tloe_endpoint envs))"

section \<open>Messages of the user\<close>

definition tl_request :: "3 word \<Rightarrow> 4 word \<Rightarrow> u64 list \<Rightarrow> tl_msg" where
  "tl_request opcode sz ws =
     \<lparr>tl_hdr = tl_header_zero\<lparr>tl_size := sz, tl_opcode := opcode, tl_chan := 1\<rparr>,
      tl_data = flit_bytes ws\<rparr>"

text \<open>The loop \<open>while (is_queue_full(...)) usleep(1000)\<close> waits for the endpoint thread.\<close>

definition enqueue_message :: "endpoint \<Rightarrow> tl_msg \<Rightarrow> (endpoint \<times> bool) result" where
  "enqueue_message e m =
     (if is_queue_full (message_buffer e) then Inl Blocked
      else case enqueue (message_buffer e) m of
             (q, ok) \<Rightarrow> Inr (e\<lparr>message_buffer := q\<rparr>, ok))"

text \<open>\<open>create_and_enqueue_message\<close> allocates a block for the header alone.\<close>

definition create_and_enqueue_message :: "endpoint \<Rightarrow> bool \<Rightarrow> (endpoint \<times> bool) result" where
  "create_and_enqueue_message e alloc =
     (if \<not> alloc then Inr (e, False)
      else enqueue_message e (tl_request 4 0 []))"

definition read_memory :: "endpoint \<Rightarrow> u64 \<Rightarrow> (endpoint \<times> bool) result" where
  "read_memory e addr = enqueue_message e (tl_request 4 3 [addr])"

definition write_memory :: "endpoint \<Rightarrow> u64 \<Rightarrow> u64 \<Rightarrow> (endpoint \<times> bool) result" where
  "write_memory e addr v = enqueue_message e (tl_request 0 3 [addr, v])"

section \<open>Commands\<close>

text \<open>What a command needs from outside: for \<open>c\<close> and \<open>d\<close> the inputs of the connection loops and
  the contents of their local variable \<open>start\<close>, for \<open>d\<close> and \<open>a\<close> whether allocations succeed.\<close>

record cmd_env =
  cmd_wde :: bool
  cmd_events :: "conn_event list"
  cmd_start :: timespec
  cmd_mem_alloc :: bool
  cmd_msg_alloc :: bool

fun send_gets :: "bool \<Rightarrow> nat \<Rightarrow> endpoint \<Rightarrow> endpoint result" where
  "send_gets alloc 0 e = Inr e"
| "send_gets alloc (Suc n) e =
     bindR (create_and_enqueue_message e alloc) (\<lambda>(e, ok).
       if \<not> ok then Inr e else send_gets alloc n e)"

fun read_times :: "nat \<Rightarrow> u64 \<Rightarrow> endpoint \<Rightarrow> endpoint result" where
  "read_times 0 addr e = Inr e"
| "read_times (Suc n) addr e = bindR (read_memory e addr) (\<lambda>(e, _). read_times n addr e)"

fun write_times :: "nat \<Rightarrow> u64 \<Rightarrow> u64 \<Rightarrow> endpoint \<Rightarrow> endpoint result" where
  "write_times 0 addr v e = Inr e"
| "write_times (Suc n) addr v e = bindR (write_memory e addr v) (\<lambda>(e, _). write_times n addr v e)"

text \<open>The test loop of the command \<open>t\<close>; \<open>addr\<close> and \<open>value\<close> are computed in \<open>int\<close>.\<close>

definition test_addr :: "nat \<Rightarrow> u64" where
  "test_addr i = scast (4096 + 4096 * of_nat i :: u32)"

definition test_value :: "nat \<Rightarrow> u64" where
  "test_value i = scast (4096 + of_nat i :: u32)"

fun test_from :: "nat \<Rightarrow> nat \<Rightarrow> endpoint \<Rightarrow> endpoint result" where
  "test_from i 0 e = Inr e"
| "test_from i (Suc n) e =
     bindR (write_memory e (test_addr i) (test_value i)) (\<lambda>(e, _).
     bindR (read_memory e (test_addr i)) (\<lambda>(e, _). test_from (Suc i) n e))"

text \<open>\<open>handle_user_input\<close>; the second argument of \<open>w\<close> goes through an \<open>int\<close>.\<close>

definition handle_user_input ::
    "cmd_env \<Rightarrow> endpoint \<Rightarrow> storage \<Rightarrow> char \<Rightarrow> u64 \<Rightarrow> int \<Rightarrow> int \<Rightarrow> int \<Rightarrow> int
     \<Rightarrow> (endpoint \<times> storage \<times> int) result" where
  "handle_user_input env e mem input args1 args2 args3 fabric master_slave =
     (if input = CHR ''s'' then Inr (e, mem, 0)
      else if input = CHR ''a'' then
        if \<not> is_conn e then Inr (e, mem, 0)
        else bindR (send_gets (cmd_msg_alloc env) (unat args1) e) (\<lambda>e. Inr (e, mem, 0))
      else if input = CHR ''c'' then
        bindR (if master e = TYPE_MASTER then
                 bindR (open_conn_master (cmd_wde env) (cmd_events env) (cmd_start env) e) (\<lambda>e. Inr (e, True))
               else if master e = TYPE_SLAVE then
                 bindR (open_conn_slave (cmd_wde env) (cmd_events env) (cmd_start env) e) (\<lambda>e. Inr (e, True))
               else Inr (e, False)) (\<lambda>(e, conn).
          Inr (if conn then e\<lparr>connection := True\<rparr> else e, mem, 0))
      else if input = CHR ''d'' then
        let e = e\<lparr>connection := False\<rparr> in
        bindR (if master e = TYPE_MASTER then
                 bindR (close_conn_master (cmd_events env) (cmd_start env) e) (\<lambda>e. Inr (e, True))
               else if master e = TYPE_SLAVE then
                 bindR (close_conn_slave (cmd_events env) e) (\<lambda>e. Inr (e, True))
               else Inr (e, False)) (\<lambda>(e, conn).
          if conn then
            bindR (tloe_endpoint_init e fabric master_slave) (\<lambda>e.
              Inr (e, fst (tl_handler_init (cmd_mem_alloc env) mem), 0))
          else Inr (e, mem, 0))
      else if input = CHR ''r'' then
        if \<not> is_conn e then Inr (e, mem, 0)
        else if args1 = 0 then Inr (e, mem, 0)
        else bindR (read_times (nat (if args2 = 0 then 1 else args2)) args1 e) (\<lambda>e. Inr (e, mem, 0))
      else if input = CHR ''w'' then
        if \<not> is_conn e then Inr (e, mem, 0)
        else if args1 = 0 then Inr (e, mem, 0)
        else if args2 = 0 then Inr (e, mem, 0)
        else bindR (write_times (nat (if args3 = 0 then 1 else args3)) args1 (word_of_int args2) e)
               (\<lambda>e. Inr (e, mem, 0))
      else if input = CHR ''t'' then
        if \<not> is_conn e then Inr (e, mem, 0)
        else bindR (test_from 0 (unat args1) e) (\<lambda>e. Inr (e, mem, 0))
      else if input = CHR ''q'' then Inr (e\<lparr>is_done := True\<rparr>, mem, 1)
      else Inr (e, mem, 0))"

section \<open>Command line and start\<close>

text \<open>The options as \<open>getopt\<close> delivers them.\<close>

datatype cmd_opt = Opt_i string | Opt_d string | Opt_p string | Opt_m | Opt_s | Opt_other

text \<open>\<open>strncpy\<close> of an argument into a buffer of 64 bytes, the last of which is cleared.\<close>

definition copy_arg :: "string \<Rightarrow> string" where
  "copy_arg s = take 63 s"

record arguments =
  arg_fabric :: int
  arg_master :: int
  arg_a :: string
  arg_b :: string

abbreviation (input) "FABRIC_ETHER \<equiv> (0 :: int)"
abbreviation (input) "FABRIC_MQ \<equiv> (1 :: int)"

fun parse_option :: "cmd_opt \<Rightarrow> arguments \<Rightarrow> arguments option" where
  "parse_option (Opt_i s) a =
     (if arg_fabric a \<noteq> -1 \<and> arg_fabric a \<noteq> FABRIC_ETHER then None
      else Some (a\<lparr>arg_fabric := FABRIC_ETHER, arg_a := copy_arg s\<rparr>))"
| "parse_option (Opt_d s) a =
     (if arg_fabric a \<noteq> -1 \<and> arg_fabric a \<noteq> FABRIC_ETHER then None
      else Some (a\<lparr>arg_fabric := FABRIC_ETHER, arg_b := copy_arg s\<rparr>))"
| "parse_option (Opt_p s) a =
     (if arg_fabric a \<noteq> -1 \<and> arg_fabric a \<noteq> FABRIC_MQ then None
      else Some (a\<lparr>arg_fabric := FABRIC_MQ, arg_a := copy_arg s\<rparr>))"
| "parse_option Opt_m a = Some (a\<lparr>arg_master := 1\<rparr>)"
| "parse_option Opt_s a = Some (a\<lparr>arg_master := 0\<rparr>)"
| "parse_option Opt_other a = None"

fun parse_options :: "cmd_opt list \<Rightarrow> arguments \<Rightarrow> arguments option" where
  "parse_options [] a = Some a"
| "parse_options (p # ps) a =
     (case parse_option p a of None \<Rightarrow> None | Some a \<Rightarrow> parse_options ps a)"

definition parse_arguments :: "cmd_opt list \<Rightarrow> arguments option" where
  "parse_arguments opts =
     (case parse_options opts \<lparr>arg_fabric = -1, arg_master = -1, arg_a = [], arg_b = []\<rparr> of
        None \<Rightarrow> None
      | Some a \<Rightarrow>
          if arg_fabric a = -1 then None
          else if arg_fabric a = FABRIC_ETHER \<and> (arg_a a = [] \<or> arg_b a = []) then None
          else if arg_master a = -1 then None
          else if arg_fabric a = FABRIC_MQ then
            Some (a\<lparr>arg_b := if arg_master a \<noteq> 0 then ''-master'' else ''-slave''\<rparr>)
          else Some a)"

text \<open>The start of \<open>main\<close>, up to the creation of the thread.\<close>

definition main_start :: "bool \<Rightarrow> bool \<Rightarrow> cmd_opt list \<Rightarrow> thread result" where
  "main_start mem_alloc fab_opened opts =
     (case parse_arguments opts of
        None \<Rightarrow> Inl Exited
      | Some a \<Rightarrow>
          let mem = fst (tl_handler_init mem_alloc None) in
          bindR (tloe_endpoint_init zero_endpoint (arg_fabric a) (arg_master a)) (\<lambda>e.
          let (e, _) = tloe_fabric_init e (arg_fabric a);
              (e, _) = tloe_fabric_open e (arg_a a) (arg_b a) fab_opened
          in Inr \<lparr>th_ep = e, th_mem = mem, th_counter = 4, th_request = None\<rparr>))"

section \<open>Choosing a message\<close>

text \<open>\<open>e2\<close> is \<open>e\<close> with the head of one of the two buffers taken off.\<close>

lemma select_buffer_cases:
  assumes "ep_wf e"
  obtains
    (response) q m where "1 < c" "cq_list (response_buffer e) = m # cq_list q" "cq_inv q"
      "select_buffer c e = (c - 1, e\<lparr>response_buffer := q\<rparr>, Some m)"
  | (message) q where "c \<le> 1 \<or> cq_list (response_buffer e) = []" "cq_inv q"
      "cq_list q = tl (cq_list (message_buffer e))"
      "select_buffer c e = (4, e\<lparr>message_buffer := q\<rparr>, getfront (message_buffer e))"
proof -
  note wf = ep_wfD [OF assms]
  obtain mq r where mq: "dequeue (message_buffer e) = (mq, r)" by (cases "dequeue (message_buffer e)")
  have m: "cq_inv mq" "cq_list mq = tl (cq_list (message_buffer e))" "r = getfront (message_buffer e)"
    using cq_inv_dequeue [OF wf(3)] cq_list_dequeue [OF wf(3)] snd_dequeue [OF wf(3)] mq by simp_all
  show thesis
  proof (cases "1 < c")
    case False
    then have "select_buffer c e = (4, e\<lparr>message_buffer := mq\<rparr>, getfront (message_buffer e))"
      using mq m(3) by (simp add: select_buffer_def Let_def)
    then show thesis using False m by (intro message [of mq]) simp_all
  next
    case True
    show thesis
    proof (cases "cq_list (response_buffer e)")
      case Nil
      then have "dequeue (response_buffer e) = (response_buffer e, None)"
        using wf(6) by (simp add: dequeue_empty)
      then have "select_buffer c e = (4, e\<lparr>message_buffer := mq\<rparr>, getfront (message_buffer e))"
        using True mq m(3) by (simp add: select_buffer_def Let_def)
      then show thesis using Nil m by (intro message [of mq]) simp_all
    next
      case (Cons x xs)
      obtain q where q: "dequeue (response_buffer e) = (q, Some x)" "cq_inv q" "cq_list q = xs"
        using dequeue_cons [OF wf(6) Cons] by (cases "dequeue (response_buffer e)") auto
      then have "select_buffer c e = (c - 1, e\<lparr>response_buffer := q\<rparr>, Some x)"
        using True by (simp add: select_buffer_def Let_def)
      then show thesis using True Cons q by (intro response [of x q]) simp_all
    qed
  qed
qed

text \<open>What a call can do: take the oldest message of the user, or the oldest response.\<close>

definition takes_message :: "endpoint \<Rightarrow> int \<times> endpoint \<times> tl_msg option \<Rightarrow> bool" where
  "takes_message e r \<longleftrightarrow> (\<exists>q m. cq_list (message_buffer e) = m # cq_list q \<and>
     r = (4, e\<lparr>message_buffer := q\<rparr>, Some m))"

definition takes_response :: "endpoint \<Rightarrow> int \<times> endpoint \<times> tl_msg option \<Rightarrow> bool" where
  "takes_response e r \<longleftrightarrow> (\<exists>c q m. cq_list (response_buffer e) = m # cq_list q \<and>
     r = (c, e\<lparr>response_buffer := q\<rparr>, Some m))"

text \<open>Calls with the counter carried on, on endpoints that may have changed in between.\<close>

fun select_run :: "int \<Rightarrow> endpoint list \<Rightarrow> (int \<times> endpoint \<times> tl_msg option) list" where
  "select_run c [] = []"
| "select_run c (e # es) = (let r = select_buffer c e in r # select_run (fst r) es)"

lemma select_run_fair:
  assumes "list_all ep_wf es" "list_all (\<lambda>e. cq_list (message_buffer e) \<noteq> []) es" "1 \<le> c"
    and "c \<le> int (length es)" "c \<le> 4"
  shows "\<exists>i < length es. takes_message (es ! i) (select_run c es ! i) \<and>
    (\<forall>j < i. takes_response (es ! j) (select_run c es ! j))"
  using assms
proof (induction es arbitrary: c)
  case (Cons e es)
  from Cons.prems(1) have wf: "ep_wf e" by simp
  from wf show ?case
  proof (cases rule: select_buffer_cases [where c = c])
    case (response q m)
    then obtain i where i: "i < length es" "takes_message (es ! i) (select_run (c - 1) es ! i)"
      "\<forall>j < i. takes_response (es ! j) (select_run (c - 1) es ! j)"
      using Cons.IH [of "c - 1"] Cons.prems response(1) by auto
    have "takes_response e (select_buffer c e)" using response by (auto simp: takes_response_def)
    then show ?thesis using i response(4)
      by (intro exI [of _ "Suc i"]) (auto simp: Let_def less_Suc_eq_0_disj)
  next
    case (message q)
    obtain m ms where "cq_list (message_buffer e) = m # ms"
      using Cons.prems(2) by (cases "cq_list (message_buffer e)") auto
    then have "takes_message e (select_buffer c e)"
      using message(3,4) getfront_eq [OF ep_wfD(3) [OF wf]] by (auto simp: takes_message_def)
    then show ?thesis by (intro exI [of _ 0]) (simp add: Let_def)
  qed
qed simp

section \<open>The iteration\<close>

fun block_ok :: "tl_block \<Rightarrow> bool" where
  "block_ok Truncated = False"
| "block_ok (Block x) = (tl_ok x \<and> (is_get x \<longrightarrow> unat (tl_size (tl_hdr x)) \<le> 9))"

text \<open>The invariant of the thread: the endpoint is well formed, all messages that wait to be sent
  can be sent, and all that wait to be served can be served.\<close>

definition thread_inv :: "thread \<Rightarrow> bool" where
  "thread_inv st \<longleftrightarrow> ep_wf (th_ep st) \<and>
     list_all msg_ok (cq_list (message_buffer (th_ep st))) \<and>
     list_all msg_ok (cq_list (response_buffer (th_ep st))) \<and>
     list_all block_ok (cq_list (tl_msg_buffer (th_ep st))) \<and>
     (case th_request st of None \<Rightarrow> True | Some m \<Rightarrow> msg_ok m) \<and>
     th_mem st \<noteq> None \<and> 1 \<le> th_counter st \<and> th_counter st \<le> 4"

text \<open>An input that the iteration can take: allocations succeed, and what is received, if
  anything, is a packet whose messages are well formed and for which there is room.\<close>

definition recv_ok :: "recv_event \<Rightarrow> endpoint \<Rightarrow> bool" where
  "recv_ok ev e \<longleftrightarrow> \<not> fabric_up e \<or> fst ev < 0 \<or>
     (\<exists>f. rx_packet ev f \<and>
        (\<not> is_ackonly_frame f \<longrightarrow> frame_readable f (fst ev) \<and> rx_room e f (fst ev) \<and>
           list_all block_ok (frame_blocks f (fst ev))))"

definition iter_ok :: "iter_env \<Rightarrow> thread \<Rightarrow> bool" where
  "iter_ok env st \<longleftrightarrow> env_ok (it_tx env) \<and> rbe_alloc (it_tx env) \<and>
     recv_ok (it_recv env) (th_ep st)"

lemma tx_result_ack:
  "tx_result e req e' r \<Longrightarrow>
   length (cq_list (ack_buffer e')) \<le> length (cq_list (ack_buffer e)) \<and> (r = req \<or> r = None)"
  by (auto simp: tx_result_def tx_idle_def tx_sent_def simp del: length_cq_list
      split: if_splits option.splits sum.splits)

lemma recv_ok_tx:
  assumes "recv_ok ev e" "tx_frame e e'" "tx_result e req e' r" "ep_wf e" "ep_wf e'"
  shows "recv_ok ev e'"
proof -
  have "rx_room e' f n" if "rx_room e f n" for f n
  proof -
    have ty: "tloe_rx_get_req_type e' f = tloe_rx_get_req_type e f"
      using assms(2) by (simp add: tloe_rx_get_req_type_def tx_frame_def)
    have "\<not> is_queue_full (ack_buffer e) \<Longrightarrow> \<not> is_queue_full (ack_buffer e')"
      using tx_result_ack [OF assms(3)] assms(2) ep_wfD(4) [OF assms(4)] ep_wfD(4) [OF assms(5)]
        cq_count_le_cap [of "ack_buffer e"]
      by (auto simp: is_queue_full_iff tx_frame_def)
    then show ?thesis using that assms(2) by (auto simp: rx_room_def ty tx_frame_def)
  qed
  moreover have "fabric_up e' = fabric_up e"
    using assms(2) by (simp add: fabric_up_def tx_frame_def)
  ultimately show ?thesis using assms(1) by (auto simp: recv_ok_def)
qed

text \<open>Receiving keeps the buffers of the thread in order.\<close>

lemma RX_iteration:
  assumes "ep_wf e" "recv_ok ev e" "list_all block_ok (cq_list (tl_msg_buffer e))"
  obtains e' where "RX al ev e = Inr e'" "ep_wf e'" "message_buffer e' = message_buffer e"
    "response_buffer e' = response_buffer e" "list_all block_ok (cq_list (tl_msg_buffer e'))"
    "connection e' = connection e" "is_done e' = is_done e"
proof -
  obtain n buf where ev: "ev = (n, buf)" by (cases ev)
  show thesis
  proof (cases "\<not> al \<or> \<not> fabric_up e \<or> n < 0")
    case True
    then have "RX al ev e = Inr e" by (auto simp: RX_def tloe_fabric_recv_def ev)
    then show thesis using assms by (intro that [of e]) simp_all
  next
    case False
    then obtain f where f: "rx_packet (n, buf) f"
      "\<not> is_ackonly_frame f \<Longrightarrow> frame_readable f n \<and> rx_room e f n"
      "\<not> is_ackonly_frame f \<Longrightarrow> list_all block_ok (frame_blocks f n)"
      using assms(2) by (auto simp: recv_ok_def ev)
    have up: "fabric_up e" using False by simp
    obtain e' where e': "RX True (n, buf) e = Inr e'" "ep_wf e'" "rx_result e f n e'"
      using RX_ok [OF assms(1) up f(1,2)] by metis
    have keep: "message_buffer e' = message_buffer e" "response_buffer e' = response_buffer e"
      "connection e' = connection e" "is_done e' = is_done e"
      using e'(3) by (simp_all add: rx_result_def rx_keeps_def)
    have "cq_list (tl_msg_buffer e') = cq_list (tl_msg_buffer e) \<or>
        \<not> is_ackonly_frame f \<and>
        cq_list (tl_msg_buffer e') = cq_list (tl_msg_buffer e) @ frame_blocks f n"
      using e'(3)
      by (auto simp: rx_result_def rx_kind_def rx_takes_def rx_answers_def
          split: if_splits tloe_rx_req_type.splits)
    then have "list_all block_ok (cq_list (tl_msg_buffer e'))" using assms(3) f(3) by auto
    then show thesis using False e' keep by (intro that [of e']) (simp_all add: ev)
  qed
qed

text \<open>Serving one message and collecting its credit.\<close>

definition serve_step :: "endpoint \<Rightarrow> storage \<Rightarrow> (endpoint \<times> storage) result" where
  "serve_step e mem =
     bindR (tl_handler e mem) (\<lambda>(e, mem, served).
     bindR (case served of
              None \<Rightarrow> Inr e
            | Some (ch, n) \<Rightarrow>
                bindR (add_channel_flow_credits (ep_fc e) ch n) (\<lambda>fc. Inr (e\<lparr>ep_fc := fc\<rparr>))) (\<lambda>e.
       Inr (e, mem)))"

lemma serve_step_ok:
  assumes "ep_wf e" "list_all block_ok (cq_list (tl_msg_buffer e))"
    "list_all msg_ok (cq_list (response_buffer e))" "mem = Some m"
  obtains e' m' where "serve_step e mem = Inr (e', Some m')" "ep_wf e'"
    "message_buffer e' = message_buffer e" "list_all block_ok (cq_list (tl_msg_buffer e'))"
    "list_all msg_ok (cq_list (response_buffer e'))"
    "connection e' = connection e" "is_done e' = is_done e"
proof (cases "cq_list (tl_msg_buffer e) = [] \<or> is_queue_full (response_buffer e)")
  case True
  then have "tl_handler e mem = Inr (e, mem, None)"
    using ep_wfD(5) [OF assms(1)] by (intro tl_handler_idle) (auto simp: is_queue_empty_iff)
  then show thesis using assms by (intro that [of e m]) (simp_all add: serve_step_def)
next
  case False
  then obtain b bs where q: "cq_list (tl_msg_buffer e) = b # bs"
    by (cases "cq_list (tl_msg_buffer e)") auto
  moreover from this assms(2) obtain x where "b = Block x" by (cases b) auto
  ultimately have x: "cq_list (tl_msg_buffer e) = Block x # bs" "tl_ok x"
    "is_get x \<longrightarrow> unat (tl_size (tl_hdr x)) \<le> 9" "list_all block_ok bs"
    using assms(2) by simp_all
  have room: "\<not> is_queue_full (response_buffer e)" using False by simp
  obtain e1 where e1: "tl_handler e (Some m) = Inr (e1, Some (fst (tl_effect x m)),
       Some (unat (tl_chan (tl_hdr x)), tlmsg_get_flits_cnt (tl_hdr x)))"
    "ep_wf e1" "tl_keeps e e1" "cq_list (tl_msg_buffer e1) = bs"
    "cq_list (response_buffer e1) = cq_list (response_buffer e) @ snd (tl_effect x m)"
    using tl_handler_ok [OF assms(1) x(1,2) room] by metis
  have "chan_ok (unat (tl_chan (tl_hdr x)))" using x(2) by (simp add: tl_ok_def chan_ok_def)
  then obtain fc where fc: "add_channel_flow_credits (ep_fc e1) (unat (tl_chan (tl_hdr x)))
      (tlmsg_get_flits_cnt (tl_hdr x)) = Inr fc" "fc_inv fc"
    using ep_wfD(12) [OF e1(2)] by (auto simp: add_channel_flow_credits_def fc_inv_def)
  have "list_all msg_ok (snd (tl_effect x m))" using x(3) by (intro tl_effect_ok) simp
  then show thesis
    using e1 fc x(4) assms(3,4)
    by (intro that [of "e1\<lparr>ep_fc := fc\<rparr>" "fst (tl_effect x m)"])
      (simp_all add: serve_step_def ep_wf_def tl_keeps_def)
qed

text \<open>The choice of the message, and the time stamp.\<close>

definition choose_step :: "iter_env \<Rightarrow> thread \<Rightarrow> int \<times> endpoint \<times> tl_msg option" where
  "choose_step env st =
     (case (if th_request st = None then select_buffer (th_counter st) (th_ep st)
            else (th_counter st, th_ep st, th_request st)) of
        (c, e, r) \<Rightarrow> (c, e\<lparr>iteration_ts := it_now env\<rparr>, r))"

lemma choose_step_ok:
  assumes "thread_inv st" "recv_ok ev (th_ep st)"
  obtains c e r where "choose_step env st = (c, e, r)" "ep_wf e" "1 \<le> c" "c \<le> 4"
    "list_all msg_ok (cq_list (message_buffer e))" "list_all msg_ok (cq_list (response_buffer e))"
    "list_all block_ok (cq_list (tl_msg_buffer e))" "\<And>m. r = Some m \<Longrightarrow> msg_ok m" "recv_ok ev e"
    "connection e = connection (th_ep st)" "is_done e = is_done (th_ep st)"
proof -
  have inv: "ep_wf (th_ep st)" "list_all msg_ok (cq_list (message_buffer (th_ep st)))"
    "list_all msg_ok (cq_list (response_buffer (th_ep st)))"
    "list_all block_ok (cq_list (tl_msg_buffer (th_ep st)))"
    "\<And>m. th_request st = Some m \<Longrightarrow> msg_ok m" "1 \<le> th_counter st" "th_counter st \<le> 4"
    using assms(1) by (auto simp: thread_inv_def split: option.splits)
  show thesis
  proof (cases "th_request st")
    case (Some m)
    then have "choose_step env st =
        (th_counter st, th_ep st\<lparr>iteration_ts := it_now env\<rparr>, Some m)"
      by (simp add: choose_step_def)
    then show thesis
      by (rule that) (use inv Some assms(2) in \<open>auto simp: ep_wf_def recv_ok_def rx_room_def
          tloe_rx_get_req_type_def fabric_up_def\<close>)
  next
    case None
    from inv(1) show thesis
    proof (cases rule: select_buffer_cases [where c = "th_counter st"])
      case (response q m)
      let ?e = "th_ep st\<lparr>response_buffer := q, iteration_ts := it_now env\<rparr>"
      have run: "choose_step env st = (th_counter st - 1, ?e, Some m)"
        using None response(4) by (simp add: choose_step_def)
      have "recv_ok ev ?e"
        using assms(2) by (auto simp: recv_ok_def rx_room_def tloe_rx_get_req_type_def fabric_up_def)
      then show thesis
        using inv response(1-3) by (intro that [OF run]) (auto simp: ep_wf_def)
    next
      case (message q)
      let ?e = "th_ep st\<lparr>message_buffer := q, iteration_ts := it_now env\<rparr>"
      have run: "choose_step env st = (4, ?e, getfront (message_buffer (th_ep st)))"
        using None message(4) by (simp add: choose_step_def)
      have "recv_ok ev ?e"
        using assms(2) by (auto simp: recv_ok_def rx_room_def tloe_rx_get_req_type_def fabric_up_def)
      moreover have "msg_ok m" if "getfront (message_buffer (th_ep st)) = Some m" for m
        using that inv(2) getfront_eq [OF ep_wfD(3) [OF inv(1)]]
        by (cases "cq_list (message_buffer (th_ep st))") auto
      moreover have "list_all msg_ok (cq_list q)"
        using inv(2) message(3) by (cases "cq_list (message_buffer (th_ep st))") auto
      moreover have "ep_wf ?e" using inv(1) message(2) by (simp add: ep_wf_def)
      ultimately show thesis using inv run by (intro that [OF run]) auto
    qed
  qed
qed

lemma tloe_iteration_steps:
  "tloe_iteration env st =
     (case choose_step env st of
        (c, e, r) \<Rightarrow> bindR (TX (it_tx env) e r) (\<lambda>(e, request).
          bindR (RX (it_rx_alloc env) (it_recv env) e) (\<lambda>e.
          bindR (serve_step e (th_mem st)) (\<lambda>(e, mem).
            Inr \<lparr>th_ep = e, th_mem = mem, th_counter = c, th_request = request\<rparr>))))"
  by (simp add: tloe_iteration_def choose_step_def serve_step_def bindR_assoc Let_def split_def)

lemma iteration_ok:
  assumes "thread_inv st" "iter_ok env st"
  obtains st' where "tloe_iteration env st = Inr st'" "thread_inv st'"
    "connection (th_ep st') = connection (th_ep st)" "is_done (th_ep st') = is_done (th_ep st)"
proof -
  have env: "env_ok (it_tx env)" "rbe_alloc (it_tx env)" "recv_ok (it_recv env) (th_ep st)"
    using assms(2) by (simp_all add: iter_ok_def)
  obtain c e r where ch: "choose_step env st = (c, e, r)" "ep_wf e" "1 \<le> c" "c \<le> 4"
    "list_all msg_ok (cq_list (message_buffer e))" "list_all msg_ok (cq_list (response_buffer e))"
    "list_all block_ok (cq_list (tl_msg_buffer e))" "\<And>m. r = Some m \<Longrightarrow> msg_ok m"
    "recv_ok (it_recv env) e" "connection e = connection (th_ep st)" "is_done e = is_done (th_ep st)"
    using choose_step_ok [OF assms(1) env(3)] by metis
  obtain e1 r1 where tx: "TX (it_tx env) e r = Inr (e1, r1)" "ep_wf e1" "tx_frame e e1"
    "tx_result e r e1 r1"
    using TX_ok [OF env(1,2) ch(2,8)] by metis
  have rok: "recv_ok (it_recv env) e1" by (rule recv_ok_tx [OF ch(9) tx(3,4) ch(2) tx(2)])
  have blk: "list_all block_ok (cq_list (tl_msg_buffer e1))" using ch(7) tx(3) by (simp add: tx_frame_def)
  obtain e2 where rx: "RX (it_rx_alloc env) (it_recv env) e1 = Inr e2" "ep_wf e2"
    "message_buffer e2 = message_buffer e1" "response_buffer e2 = response_buffer e1"
    "list_all block_ok (cq_list (tl_msg_buffer e2))"
    "connection e2 = connection e1" "is_done e2 = is_done e1"
    using RX_iteration [OF tx(2) rok blk] by metis
  obtain m where m: "th_mem st = Some m" using assms(1) by (auto simp: thread_inv_def)
  have resp: "list_all msg_ok (cq_list (response_buffer e2))"
    using ch(6) tx(3) rx(4) by (simp add: tx_frame_def)
  obtain e3 m3 where sv: "serve_step e2 (th_mem st) = Inr (e3, Some m3)" "ep_wf e3"
    "message_buffer e3 = message_buffer e2" "list_all block_ok (cq_list (tl_msg_buffer e3))"
    "list_all msg_ok (cq_list (response_buffer e3))"
    "connection e3 = connection e2" "is_done e3 = is_done e2"
    using serve_step_ok [OF rx(2,5) resp m] by metis
  let ?st = "\<lparr>th_ep = e3, th_mem = Some m3, th_counter = c, th_request = r1\<rparr>"
  have "tloe_iteration env st = Inr ?st"
    by (simp add: tloe_iteration_steps ch(1) tx(1) rx(1) sv(1))
  moreover have "thread_inv ?st"
    using sv rx(3) tx(3) tx_result_ack [OF tx(4)] ch(3-5,8)
    by (auto simp: thread_inv_def tx_frame_def split: option.split)
  moreover have "connection e3 = connection (th_ep st)" "is_done e3 = is_done (th_ep st)"
    using sv(6,7) rx(6,7) tx(3) ch(10,11) by (simp_all add: tx_frame_def)
  ultimately show thesis using that [of ?st] by simp
qed

section \<open>Runs of the thread\<close>

text \<open>The inputs are acceptable for the states that the run goes through, as far as it gets.\<close>

fun feeds :: "iter_env list \<Rightarrow> thread \<Rightarrow> bool" where
  "feeds [] st = True"
| "feeds (env # envs) st =
     (is_done (th_ep st) \<or> connection (th_ep st) \<and> iter_ok env st \<and>
        (\<forall>st'. tloe_iteration env st = Inr st' \<longrightarrow> feeds envs st'))"

lemma tloe_endpoint_ok:
  assumes "thread_inv st" "feeds envs st"
  shows "\<exists>st'. tloe_endpoint envs st = Inr st' \<and> thread_inv st' \<and>
    connection (th_ep st') = connection (th_ep st) \<and> is_done (th_ep st') = is_done (th_ep st)"
  using assms
proof (induction envs arbitrary: st)
  case (Cons env envs)
  show ?case
  proof (cases "is_done (th_ep st)")
    case False
    then obtain st' where st': "tloe_iteration env st = Inr st'" "thread_inv st'"
      "connection (th_ep st') = connection (th_ep st)" "is_done (th_ep st') = is_done (th_ep st)"
      using Cons.prems iteration_ok by (metis feeds.simps(2))
    then show ?thesis using Cons False by auto
  qed (use Cons.prems in simp)
qed simp

section \<open>Start\<close>

lemma init_flowcontrol_ok:
  assumes "fc_inv fc"
  obtains fc' where "init_flowcontrol fc = Inr fc'" "fc_inv fc'" "filled 1 fc'"
    "\<And>c. c < CHANNEL_NUM \<Longrightarrow> tx_flow_credits fc' ! c = 0"
proof -
  have upt: "[0..<6::nat] = [0, 1, 2, 3, 4, 5]" by (simp add: upt_rec)
  define fc' where "fc' = fold (\<lambda>i fc. fc\<lparr>credits := (credits fc)[i := 128],
      tx_flow_credits := (tx_flow_credits fc)[i := 0], inc_cnt := (inc_cnt fc)[i := 0],
      inc_value := (inc_value fc)[i := 0], dec_cnt := (dec_cnt fc)[i := 0],
      dec_value := (dec_value fc)[i := 0]\<rparr>) [0..<6] fc"
  have "init_flowcontrol fc = Inr fc'"
    by (simp add: init_flowcontrol_def fc'_def upt init_channel_def set_credit_def chan_ok_def shl1_def)
  moreover have inv: "fc_inv fc'" using assms by (simp add: fc'_def upt fc_inv_def)
  moreover have "credits fc' ! c = 128 \<and> tx_flow_credits fc' ! c = 0" if "c < 6" for c
  proof -
    from that have "c = 0 \<or> c = 1 \<or> c = 2 \<or> c = 3 \<or> c = 4 \<or> c = 5" by linarith
    then show ?thesis using assms by (elim disjE) (simp_all add: fc'_def upt fc_inv_def)
  qed
  ultimately show thesis by (intro that [of fc']) (auto simp: filled_def)
qed

lemma tloe_endpoint_init_ok:
  assumes "fc_inv (ep_fc e)"
  obtains e' where "tloe_endpoint_init e fabric ms = Inr e'" "ep_wf e'" "filled 1 (ep_fc e')"
    "next_tx_seq e' = 0" "next_rx_seq e' = 0" "\<not> connection e'" "\<not> is_done e'" "master e' = ms"
    "cq_list (retransmit_buffer e') = []" "cq_list (message_buffer e') = []"
    "cq_list (ack_buffer e') = []" "cq_list (tl_msg_buffer e') = []"
    "cq_list (response_buffer e') = []" "ep_fabric e' = ep_fabric e"
proof -
  obtain fc where fc: "init_flowcontrol (ep_fc e) = Inr fc" "fc_inv fc" "filled 1 fc"
    using init_flowcontrol_ok [OF assms] by metis
  obtain e' where e': "tloe_endpoint_init e fabric ms = Inr e'"
    using fc(1) by (simp add: tloe_endpoint_init_def)
  have z: "seq_ok 0" "seq_ok 4194303" by (simp_all add: seq_ok_def)
  show thesis
    using e' fc z
    by (intro that [OF e']) (auto simp: tloe_endpoint_init_def ep_wf_def cq_inv_create)
qed

lemma zero_flowcontrol_inv: "fc_inv zero_flowcontrol"
  by (simp add: fc_inv_def zero_flowcontrol_def)

text \<open>The command line: the two fabrics exclude each other, the Ethernet fabric needs both
  addresses, and the role must be given.\<close>

definition args_step :: "arguments \<Rightarrow> arguments \<Rightarrow> bool" where
  "args_step a a' \<longleftrightarrow> (arg_fabric a \<in> {-1, 0, 1} \<longrightarrow> arg_fabric a' \<in> {-1, 0, 1}) \<and>
     (arg_fabric a \<noteq> -1 \<longrightarrow> arg_fabric a' = arg_fabric a) \<and>
     (arg_master a \<in> {-1, 0, 1} \<longrightarrow> arg_master a' \<in> {-1, 0, 1})"

lemma args_step_trans: "args_step a b \<Longrightarrow> args_step b c \<Longrightarrow> args_step a c"
  unfolding args_step_def by metis

lemma parse_option_step: "parse_option p a = Some a' \<Longrightarrow> args_step a a'"
  by (cases p) (auto simp: args_step_def split: if_splits)

lemma parse_options_step: "parse_options ps a = Some a' \<Longrightarrow> args_step a a'"
proof (induction ps arbitrary: a)
  case Nil
  then show ?case by (simp add: args_step_def)
next
  case (Cons p ps)
  then obtain a1 where a1: "parse_option p a = Some a1" "parse_options ps a1 = Some a'"
    by (auto split: option.splits)
  show ?case by (rule args_step_trans [OF parse_option_step [OF a1(1)] Cons.IH [OF a1(2)]])
qed

lemma parse_arguments_ok:
  assumes "parse_arguments opts = Some a"
  shows "arg_fabric a = 0 \<or> arg_fabric a = 1" "arg_master a = 0 \<or> arg_master a = 1"
    "arg_fabric a = 0 \<Longrightarrow> arg_a a \<noteq> [] \<and> arg_b a \<noteq> []"
    "arg_fabric a = 1 \<Longrightarrow> arg_b a = (if arg_master a = 1 then ''-master'' else ''-slave'')"
proof -
  obtain b where b: "parse_options opts \<lparr>arg_fabric = -1, arg_master = -1, arg_a = [], arg_b = []\<rparr> =
      Some b"
    using assms by (auto simp: parse_arguments_def split: option.splits)
  have r: "arg_fabric b \<in> {-1, 0, 1}" "arg_master b \<in> {-1, 0, 1}"
    using parse_options_step [OF b] by (simp_all add: args_step_def)
  show "arg_fabric a = 0 \<or> arg_fabric a = 1" "arg_master a = 0 \<or> arg_master a = 1"
    "arg_fabric a = 0 \<Longrightarrow> arg_a a \<noteq> [] \<and> arg_b a \<noteq> []"
    "arg_fabric a = 1 \<Longrightarrow> arg_b a = (if arg_master a = 1 then ''-master'' else ''-slave'')"
    using assms r by (auto simp: parse_arguments_def b split: if_splits)
qed

text \<open>Every option that belongs to a fabric decides the fabric.\<close>

fun needs :: "cmd_opt \<Rightarrow> int \<Rightarrow> bool" where
  "needs (Opt_i _) f = (f = FABRIC_ETHER)"
| "needs (Opt_d _) f = (f = FABRIC_ETHER)"
| "needs (Opt_p _) f = (f = FABRIC_MQ)"
| "needs _ f = False"

lemma parse_needs:
  assumes "parse_options ps a = Some a'" "p \<in> set ps" "needs p f"
  shows "arg_fabric a' = f"
  using assms
proof (induction ps arbitrary: a)
  case (Cons q ps)
  then obtain a1 where a1: "parse_option q a = Some a1" "parse_options ps a1 = Some a'"
    by (auto split: option.splits)
  show ?case
  proof (cases "p = q")
    case True
    then have "arg_fabric a1 = f" "f \<noteq> -1" using a1(1) Cons.prems(3) by (cases q; auto split: if_splits)+
    then show ?thesis using parse_options_step [OF a1(2)] by (simp add: args_step_def)
  next
    case False
    then show ?thesis using Cons a1(2) by simp
  qed
qed simp

text \<open>The program starts in the invariant, with nothing to do and ready to open a connection when
  the driver could be opened.\<close>

lemma main_start_ok:
  assumes "parse_arguments opts = Some a"
  obtains st where "main_start True ok opts = Inr st" "thread_inv st" "th_request st = None"
    "ok \<Longrightarrow> conn_pending 1 (th_ep st)" "next_rx_seq (th_ep st) = 0" "next_tx_seq (th_ep st) = 0"
    "\<not> connection (th_ep st)" "master (th_ep st) = arg_master a"
proof -
  have fab: "arg_fabric a = 0 \<or> arg_fabric a = 1" by (rule parse_arguments_ok(1) [OF assms])
  obtain e where e: "tloe_endpoint_init zero_endpoint (arg_fabric a) (arg_master a) = Inr e"
    "ep_wf e" "filled 1 (ep_fc e)" "next_tx_seq e = 0" "next_rx_seq e = 0" "\<not> connection e"
    "master e = arg_master a" "cq_list (message_buffer e) = []"
    "cq_list (tl_msg_buffer e) = []" "cq_list (response_buffer e) = []"
    using tloe_endpoint_init_ok [of zero_endpoint] zero_flowcontrol_inv
    by (metis (no_types, lifting) endpoint.select_convs(8) zero_endpoint_def)
  define f where "f = \<lparr>fab_ops = Some (if arg_fabric a = 0 then TLOE_FABRIC_ETHER else TLOE_FABRIC_MQ),
     fab_handle = ok, dev_name = arg_a a, dev_opt = arg_b a\<rparr>"
  let ?st = "\<lparr>th_ep = e\<lparr>ep_fabric := f\<rparr>, th_mem = Some (\<lambda>_. 0), th_counter = 4,
     th_request = None\<rparr>"
  have "main_start True ok opts = Inr ?st"
    unfolding main_start_def assms option.case e(1) Let_def bindR.simps
    using fab by (elim disjE)
      (simp_all add: tl_handler_init_def tloe_fabric_init_def tloe_fabric_open_def f_def)
  moreover have "thread_inv ?st" using e by (simp add: thread_inv_def ep_wf_def)
  moreover have "ok \<Longrightarrow> conn_pending 1 (th_ep ?st)"
    using e(3) by (simp add: conn_pending_def fabric_up_def f_def)
  ultimately show thesis using e by (intro that [of ?st]) simp_all
qed
section \<open>Properties\<close>

text \<open>C7: The endpoint thread.  From a state in its invariant - well-formed queues and window, messages
  that can be sent and served - any number of iterations, with whatever packets arrive as long as
  their messages are well formed and there is room for them, ends without an error, and in the
  invariant again.  The condition \<open>feeds\<close> is one on the inputs: it asks, for every state that the run
  gets to, that what comes next is acceptable there (\<open>iter_ok\<close>), and nothing of states after a failure.\<close>

theorem thread_run_safe:
  assumes "thread_inv st" "feeds envs st"
  shows "\<exists>st'. tloe_endpoint envs st = Inr st' \<and> thread_inv st'"
  using tloe_endpoint_ok [OF assms] by blast

definition example_thread :: thread where
  "example_thread = \<lparr>th_ep = example_endpoint, th_mem = Some (\<lambda>_. 0), th_counter = 4,
     th_request = Some (tl_request 4 3 [4096])\<rparr>"

definition example_input :: iter_env where
  "example_input = \<lparr>it_now = \<lparr>tv_sec = 0, tv_nsec = 0\<rparr>, it_tx = example_env, it_rx_alloc = True,
     it_recv = (-1, [])\<rparr>"

lemma requests_wf:
  "msg_ok (tl_request 4 3 [a])" "msg_ok (tl_request 0 3 [a, v])"
  "is_get (tl_request 4 3 [a])" "is_put (tl_request 0 3 [a, v])"
  "tl_offset (tl_request 4 3 [a]) = unat a mod MEM_SIZE"
  "tl_offset (tl_request 0 3 [a, v]) = unat a mod MEM_SIZE"
  "take (tl_length (tl_request 0 3 [a, v])) (drop 8 (tl_data (tl_request 0 3 [a, v]))) = le_bytes v"
  by (simp_all add: tl_request_def msg_ok_def is_get_def is_put_def tl_header_zero_def
      tl_header_of_word_def tlmsg_get_total_size_eq header_bytes_def data_bytes_def carries_data_def
      tl_offset_def tl_length_def)

text \<open>A write and a read of the same address, as a peer serves them.\<close>

lemma request_effects:
  assumes "unat a mod MEM_SIZE + 8 \<le> MEM_SIZE"
  shows "tl_effects [tl_request 0 3 [a, v], tl_request 4 3 [a]] m =
      (mem_write m (unat a mod MEM_SIZE) (le_bytes v), [tl_ack 0, tl_ack_data 0 3 (le_bytes v)])"
    "tl_ok (tl_request 0 3 [a, v])" "tl_ok (tl_request 4 3 [a])"
proof -
  let ?w = "tl_request 0 3 [a, v]" and ?r = "tl_request 4 3 [a]"
  show "tl_ok ?w" "tl_ok ?r"
    using assms requests_wf(5,6) [of a]
    by (simp_all add: tl_ok_def tl_request_def tl_length_def is_ackdata_def is_put_def is_get_def
        tl_header_zero_def tl_header_of_word_def)
  have src: "tl_source (tl_hdr ?w) = 0" "tl_source (tl_hdr ?r) = 0" "tl_size (tl_hdr ?r) = 3"
    "tl_length ?r = length (le_bytes v)" "\<not> is_put ?r"
    using requests_wf(3) [of a]
    by (simp_all add: tl_request_def tl_header_zero_def tl_header_of_word_def tl_length_def is_put_def)
  show "tl_effects [?w, ?r] m =
      (mem_write m (unat a mod MEM_SIZE) (le_bytes v), [tl_ack 0, tl_ack_data 0 3 (le_bytes v)])"
    by (simp only: tl_effects.simps tl_effect_def requests_wf src mem_read_write if_True if_False
        prod.case append_Nil append_Cons append_Nil2)
qed

definition example_cmd_env :: cmd_env where
  "example_cmd_env = \<lparr>cmd_wde = False, cmd_events = [], cmd_start = \<lparr>tv_sec = 0, tv_nsec = 0\<rparr>,
     cmd_mem_alloc = True, cmd_msg_alloc = True\<rparr>"

lemma example_thread_inv: "thread_inv example_thread"
  using example_wf requests_wf(1)
  by (simp add: thread_inv_def example_thread_def)

lemma example_feeds: "feeds [example_input] example_thread"
proof -
  have "iter_ok example_input example_thread"
    using example_env_ok by (simp add: iter_ok_def example_input_def recv_ok_def)
  then show ?thesis by (simp add: example_thread_def)
qed

theorem thread_run_safe_witness:
  "\<exists>st'. tloe_endpoint [example_input] example_thread = Inr st' \<and> thread_inv st'"
  by (rule thread_run_safe [OF example_thread_inv example_feeds])

text \<open>C13: The window.  Starting with nothing to be acknowledged, the thread may run for any number of
  iterations, with whatever is sent, received, lost or sent again: the retransmit window then holds at
  most \<open>WINDOW_SIZE\<close> frames, and their sequence numbers are consecutive and end right before the
  next number to send, across the wrap-around of the numbers.\<close>

theorem window_bounded:
  assumes "thread_inv st" "cq_list (retransmit_buffer (th_ep st)) = []" "feeds envs st"
  shows "\<exists>e n. map_sum id th_ep (tloe_endpoint envs st) = Inr e \<and>
    length (cq_list (retransmit_buffer e)) \<le> WINDOW_SIZE \<and> next_tx_seq e = seq_of n \<and>
    length (cq_list (retransmit_buffer e)) \<le> n \<and>
    map rbe_seq (cq_list (retransmit_buffer e)) =
      map seq_of [n - length (cq_list (retransmit_buffer e))..<n]"
proof -
  obtain st' where st': "tloe_endpoint envs st = Inr st'" "thread_inv st'"
    using tloe_endpoint_ok [OF assms(1,3)] by blast
  let ?e = "th_ep st'"
  have wf: "ep_wf ?e" using st'(2) by (simp add: thread_inv_def)
  let ?n = "unat (next_tx_seq ?e) + 4194304"
  have "seq_of ?n = seq_of (unat (next_tx_seq ?e))" by (simp add: seq_of_def)
  then have n: "next_tx_seq ?e = seq_of ?n" using seq_of_surj ep_wfD(9) [OF wf] by metis
  show ?thesis
    using st'(1) n window_bound [OF wf] window_index [OF wf n]
    by (intro exI [of _ ?e] exI [of _ ?n]) (simp del: length_cq_list)
qed

theorem window_bounded_witness:
  "\<exists>e. map_sum id th_ep (tloe_endpoint [example_input] example_thread) = Inr e \<and>
     length (cq_list (retransmit_buffer e)) \<le> WINDOW_SIZE"
proof -
  have "cq_list (retransmit_buffer (th_ep example_thread)) = []" by (simp add: example_thread_def)
  from window_bounded [OF example_thread_inv this example_feeds] show ?thesis by blast
qed

text \<open>C27: Neither buffer starves the other.  While the user has messages waiting, at least one of any four
  calls of \<open>select_buffer\<close> in a row takes the oldest of them out of the message buffer, whatever
  happens to the endpoint in between and wherever the counter stands; every call before takes the
  oldest response out of the response buffer.\<close>

theorem select_buffer_fair:
  assumes "length es = 4" "list_all ep_wf es" "1 \<le> c" "c \<le> 4"
    and "list_all (\<lambda>e. cq_list (message_buffer e) \<noteq> []) es"
  shows "\<exists>i < 4. takes_message (es ! i) (select_run c es ! i) \<and>
    (\<forall>j < i. takes_response (es ! j) (select_run c es ! j))"
  using select_run_fair [of es c] assms by simp

theorem select_buffer_fair_witness:
  "\<exists>e. \<exists>i < 4. takes_message ([e, e, e, e] ! i) (select_run 3 [e, e, e, e] ! i) \<and>
     cq_list (message_buffer e) = [tl_request 4 3 [4096]]"
proof -
  let ?m = "tl_request 4 3 [4096]"
  let ?q = "fst (enqueue (create_queue 5) ?m)"
  let ?e = "example_endpoint\<lparr>message_buffer := ?q\<rparr>"
  have c: "cq_inv (create_queue 5 :: tl_msg cqueue)" by (rule cq_inv_create) simp
  then have "\<not> is_queue_full (create_queue 5 :: tl_msg cqueue)" by (simp add: is_queue_full_iff)
  then have q: "cq_inv ?q" "cq_list ?q = [?m]"
    using enqueue_room [OF c, of ?m] by simp_all
  then have "ep_wf ?e" using example_wf by (simp add: ep_wf_def)
  then have "\<exists>i < 4. takes_message ([?e, ?e, ?e, ?e] ! i) (select_run 3 [?e, ?e, ?e, ?e] ! i) \<and>
    (\<forall>j < i. takes_response ([?e, ?e, ?e, ?e] ! j) (select_run 3 [?e, ?e, ?e, ?e] ! j))"
    using q(2) by (intro select_buffer_fair) (simp_all del: length_cq_list select_run.simps)
  then show ?thesis using q(2) by (intro exI [of _ ?e]) auto
qed

text \<open>C39: The command line.  What \<open>parse_arguments\<close> accepts names exactly one fabric and one role; the
  Ethernet fabric has both its device and its address, the queue fabric gets the suffix of the role,
  and no option of the other fabric was given.\<close>

theorem command_line_sound:
  assumes "parse_arguments opts = Some a"
  shows "(arg_fabric a = 0 \<and> arg_a a \<noteq> [] \<and> arg_b a \<noteq> [] \<or>
      arg_fabric a = 1 \<and> arg_b a = (if arg_master a = 1 then ''-master'' else ''-slave'')) \<and>
    (arg_master a = 0 \<or> arg_master a = 1) \<and>
    \<not> (\<exists>s t. Opt_p s \<in> set opts \<and> (Opt_i t \<in> set opts \<or> Opt_d t \<in> set opts))"
proof -
  have "\<not> (\<exists>s t. Opt_p s \<in> set opts \<and> (Opt_i t \<in> set opts \<or> Opt_d t \<in> set opts))"
  proof -
    obtain b where b: "parse_options opts \<lparr>arg_fabric = -1, arg_master = -1, arg_a = [], arg_b = []\<rparr> =
        Some b"
      using assms by (auto simp: parse_arguments_def split: option.splits)
    show ?thesis using parse_needs [OF b, where f = 0] parse_needs [OF b, where f = 1] by fastforce
  qed
  then show ?thesis using parse_arguments_ok [OF assms] by auto
qed
theorem command_line_sound_witness:
  "\<exists>a. parse_arguments [Opt_m, Opt_p ''q''] = Some a \<and> arg_b a = ''-master'' \<and>
     (arg_fabric a = 0 \<and> arg_a a \<noteq> [] \<and> arg_b a \<noteq> [] \<or> arg_fabric a = 1)"
proof -
  have p: "parse_arguments [Opt_m, Opt_p ''q''] =
      Some \<lparr>arg_fabric = 1, arg_master = 1, arg_a = ''q'', arg_b = ''-master''\<rparr>"
    by (simp add: parse_arguments_def copy_arg_def)
  from command_line_sound [OF p] p show ?thesis by auto
qed

text \<open>C38: The start.  With a valid command line and memory for the storage, \<open>main\<close> sets up a thread
  in its invariant, nothing received and nothing sent, without a connection but, when the driver
  could be opened, ready for the opening handshake: every channel holds the initial \<open>2 ^ 7\<close> flits
  of credit.  With an invalid command line it exits.\<close>

theorem program_start:
  "case parse_arguments opts of
     None \<Rightarrow> main_start True ok opts = Inl Exited
   | Some a \<Rightarrow> \<exists>st. main_start True ok opts = Inr st \<and> thread_inv st \<and> th_request st = None \<and>
       next_rx_seq (th_ep st) = 0 \<and> next_tx_seq (th_ep st) = 0 \<and> \<not> connection (th_ep st) \<and>
       master (th_ep st) = arg_master a \<and> (ok \<longrightarrow> conn_pending 1 (th_ep st))"
proof (cases "parse_arguments opts")
  case None
  then show ?thesis by (simp add: main_start_def)
next
  case (Some a)
  show ?thesis by (rule main_start_ok [OF Some, of ok]) (use Some in auto)
qed

theorem program_start_witness:
  "\<exists>st. main_start True True [Opt_s, Opt_p ''q''] = Inr st \<and> thread_inv st \<and> conn_pending 1 (th_ep st)"
proof -
  have p: "parse_arguments [Opt_s, Opt_p ''q''] =
      Some \<lparr>arg_fabric = 1, arg_master = 0, arg_a = ''q'', arg_b = ''-slave''\<rparr>"
    by (simp add: parse_arguments_def copy_arg_def)
  from program_start [where opts = "[Opt_s, Opt_p ''q'']" and ok = True] p show ?thesis by auto
qed

section \<open>The user's reads and writes\<close>

lemma enqueue_message_ok:
  assumes "ep_wf e" "length (cq_list (message_buffer e)) < cq_cap (message_buffer e)"
  obtains q where "enqueue_message e m = Inr (e\<lparr>message_buffer := q\<rparr>, True)"
    "cq_list q = cq_list (message_buffer e) @ [m]" "cq_cap q = cq_cap (message_buffer e)"
    "ep_wf (e\<lparr>message_buffer := q\<rparr>)"
proof -
  note wf = ep_wfD [OF assms(1)]
  have nf: "\<not> is_queue_full (message_buffer e)" using assms(2) wf(3) by (simp add: is_queue_full_iff)
  obtain q where q: "enqueue (message_buffer e) m = (q, True)" using nf by (simp add: enqueue_def)
  have "cq_inv q" "cq_list q = cq_list (message_buffer e) @ [m]" "cq_cap q = cq_cap (message_buffer e)"
    using enqueue_room [OF wf(3) nf, of m] cq_cap_ops(1) [of "message_buffer e" m] q by simp_all
  then show thesis using nf q assms(1)
    by (intro that [of q]) (simp_all add: enqueue_message_def ep_wf_def del: length_cq_list)
qed

text \<open>C26: The commands \<open>w\<close> and \<open>r\<close>.  On a connected endpoint with room in its message buffer the command
  \<open>w a v\<close> followed by \<open>r a\<close>, for an address and a value other than zero, puts two messages that can be
  sent at the end of the message buffer and changes nothing else; a peer that serves them in this
  order stores the eight bytes of \<open>v\<close>, extended from 32 to 64 bits with its sign, at \<open>a\<close> modulo the size of
  its memory, acknowledges, and answers the read with exactly these bytes.  With a zero the command
  \<open>w\<close> does nothing at all.\<close>

theorem write_command_then_read:
  assumes "ep_wf c" "connection c" "length (cq_list (message_buffer c)) + 2 \<le> cq_cap (message_buffer c)"
    and "unat a mod MEM_SIZE + 8 \<le> MEM_SIZE"
  shows "if a = 0 \<or> v = 0
    then handle_user_input env c mem CHR ''w'' a v n fabric ms = Inr (c, mem, 0)
    else \<exists>c1 q w r. handle_user_input env c mem CHR ''w'' a v 0 fabric ms = Inr (c1, mem, 0) \<and>
      handle_user_input env c1 mem CHR ''r'' a 0 0 fabric ms = Inr (c\<lparr>message_buffer := q\<rparr>, mem, 0) \<and>
      cq_list q = cq_list (message_buffer c) @ [w, r] \<and> msg_ok w \<and> msg_ok r \<and>
      (\<forall>s m. ep_wf s \<and> cq_list (tl_msg_buffer s) = [Block w, Block r] \<and>
         length (cq_list (response_buffer s)) + 2 \<le> cq_cap (response_buffer s) \<longrightarrow>
         (\<exists>s'. serve_n 2 s (Some m) =
             Inr (s', Some (mem_write m (unat a mod MEM_SIZE) (le_bytes (word_of_int v)))) \<and>
            cq_list (response_buffer s') =
              cq_list (response_buffer s) @ [tl_ack 0, tl_ack_data 0 3 (le_bytes (word_of_int v))]))"
proof (cases "a = 0 \<or> v = 0")
  case True
  then show ?thesis using assms(2) by (auto simp: handle_user_input_def is_conn_def)
next
  case False
  let ?v = "word_of_int v :: u64"
  let ?w = "tl_request 0 3 [a, ?v]" and ?r = "tl_request 4 3 [a]"
  obtain q where q: "enqueue_message c ?w = Inr (c\<lparr>message_buffer := q\<rparr>, True)"
    "cq_list q = cq_list (message_buffer c) @ [?w]" "cq_cap q = cq_cap (message_buffer c)"
    "ep_wf (c\<lparr>message_buffer := q\<rparr>)"
    by (rule enqueue_message_ok [OF assms(1), of ?w]) (use assms(3) in simp)
  obtain q' where q': "enqueue_message (c\<lparr>message_buffer := q\<rparr>) ?r = Inr (c\<lparr>message_buffer := q'\<rparr>, True)"
    "cq_list q' = cq_list q @ [?r]"
    by (rule enqueue_message_ok [OF q(4), of ?r])
      (use assms(3) q(2,3) in \<open>simp_all del: length_cq_list\<close>)
  have fx: "tl_effects [?w, ?r] m = (mem_write m (unat a mod MEM_SIZE) (le_bytes ?v),
      [tl_ack 0, tl_ack_data 0 3 (le_bytes ?v)])" "tl_ok ?w" "tl_ok ?r" for m
    by (rule request_effects [OF assms(4)])+
  have serve: "\<exists>s'. serve_n 2 s (Some m) = Inr (s', Some (mem_write m (unat a mod MEM_SIZE) (le_bytes ?v))) \<and>
      cq_list (response_buffer s') =
        cq_list (response_buffer s) @ [tl_ack 0, tl_ack_data 0 3 (le_bytes ?v)]"
    if "ep_wf s" "cq_list (tl_msg_buffer s) = [Block ?w, Block ?r]"
      "length (cq_list (response_buffer s)) + 2 \<le> cq_cap (response_buffer s)" for s m
    using serve_n_ok [OF that(1), of "[?w, ?r]" "[]" m] that(2,3) fx
    by (auto simp del: length_cq_list simp: numeral_2_eq_2)
  have run: "handle_user_input env c mem CHR ''w'' a v 0 fabric ms = Inr (c\<lparr>message_buffer := q\<rparr>, mem, 0)"
    "handle_user_input env (c\<lparr>message_buffer := q\<rparr>) mem CHR ''r'' a 0 0 fabric ms =
       Inr (c\<lparr>message_buffer := q'\<rparr>, mem, 0)"
    using False assms(2) q(1) q'(1)
    by (simp_all add: handle_user_input_def is_conn_def write_memory_def read_memory_def)
  have "\<exists>c1 q w r. handle_user_input env c mem CHR ''w'' a v 0 fabric ms = Inr (c1, mem, 0) \<and>
      handle_user_input env c1 mem CHR ''r'' a 0 0 fabric ms = Inr (c\<lparr>message_buffer := q\<rparr>, mem, 0) \<and>
      cq_list q = cq_list (message_buffer c) @ [w, r] \<and> msg_ok w \<and> msg_ok r \<and>
      (\<forall>s m. ep_wf s \<and> cq_list (tl_msg_buffer s) = [Block w, Block r] \<and>
         length (cq_list (response_buffer s)) + 2 \<le> cq_cap (response_buffer s) \<longrightarrow>
         (\<exists>s'. serve_n 2 s (Some m) = Inr (s', Some (mem_write m (unat a mod MEM_SIZE) (le_bytes ?v))) \<and>
            cq_list (response_buffer s') =
              cq_list (response_buffer s) @ [tl_ack 0, tl_ack_data 0 3 (le_bytes ?v)]))"
    using run q(2) q'(2) requests_wf(1,2) serve
    by (intro exI [of _ "c\<lparr>message_buffer := q\<rparr>"] exI [of _ q'] exI [of _ ?w] exI [of _ ?r]) simp
  then show ?thesis unfolding if_not_P [OF False] .
qed

theorem write_command_then_read_witness:
  "\<exists>c1 q w r. handle_user_input example_cmd_env (example_endpoint\<lparr>connection := True\<rparr>) None CHR ''w'' 4096 (-7) 0 0 0 =
      Inr (c1, None, 0) \<and>
    handle_user_input example_cmd_env c1 None CHR ''r'' 4096 0 0 0 0 =
      Inr (example_endpoint\<lparr>connection := True, message_buffer := q\<rparr>, None, 0) \<and> cq_list q = [w, r]"
proof -
  let ?c = "example_endpoint\<lparr>connection := True\<rparr>"
  have "ep_wf ?c" using example_wf by (simp add: ep_wf_def)
  moreover have "length (cq_list (message_buffer ?c)) + 2 \<le> cq_cap (message_buffer ?c)" by simp
  moreover have "unat (4096 :: u64) mod MEM_SIZE + 8 \<le> MEM_SIZE" by simp
  ultimately have "\<exists>c1 q w r. handle_user_input example_cmd_env ?c None CHR ''w'' 4096 (-7) 0 0 0 = Inr (c1, None, 0) \<and>
      handle_user_input example_cmd_env c1 None CHR ''r'' 4096 0 0 0 0 = Inr (?c\<lparr>message_buffer := q\<rparr>, None, 0) \<and>
      cq_list q = cq_list (message_buffer ?c) @ [w, r]"
    using write_command_then_read [of ?c 4096 "-7" example_cmd_env None 0 0 0] by (auto simp del: length_cq_list)
  then show ?thesis by simp
qed

text \<open>C36: The command \<open>a\<close>.  The message of \<open>create_and_enqueue_message\<close> is a Get, whose size on the
  wire is 16 bytes, in a block of 8: it is queued as if nothing were wrong, but when it can be sent
  the copy into the frame reads over the end of the block.\<close>

theorem get_command_overreads:
  assumes "ep_wf e" "cq_list (message_buffer e) = []" "0 < cq_cap (message_buffer e)" "env_ok env"
    and "\<not> is_queue_full (retransmit_buffer e)" "2 \<le> credits (ep_fc e) ! 1"
      "credits (ep_fc e) ! 1 < 4294967295"
  shows "\<exists>e' m. create_and_enqueue_message e True = Inr (e', True) \<and>
    getfront (message_buffer e') = Some m \<and> TX env e' (Some m) = Inl Out_Of_Bounds"
proof -
  let ?m = "tl_request 4 0 []"
  obtain q where q: "enqueue_message e ?m = Inr (e\<lparr>message_buffer := q\<rparr>, True)"
    "cq_list q = cq_list (message_buffer e) @ [?m]" "ep_wf (e\<lparr>message_buffer := q\<rparr>)"
    by (rule enqueue_message_ok [OF assms(1), of ?m]) (use assms(2,3) in simp)
  have h: "unat (tl_chan (tl_hdr ?m)) = 1" "tlmsg_get_total_size (tl_hdr ?m) = 16"
    "tlmsg_get_flits_cnt (tl_hdr ?m) = 2" "int (length (tlmsg_bytes ?m)) = 8"
    by (simp_all add: tl_request_def tl_header_zero_def tl_header_of_word_def tlmsg_get_total_size_eq
        tlmsg_get_flits_cnt_eq header_bytes_def data_bytes_def carries_data_def)
  have le: "2 \<le> unat (credits (ep_fc e) ! 1)" "unat (credits (ep_fc e) ! 1) < 4294967295"
    using assms(6,7) by (simp_all add: word_le_nat_alt word_less_nat_alt)
  then have "\<not> int (unat (credits (ep_fc e) ! 1)) < 2" by linarith
  then obtain fc where fc: "fc_credit_dec (ep_fc e) ?m = Inr (fc, 2)"
    using dec_spec [OF ep_wfD(12) [OF assms(1)] h(1) _ _ le(2)] h(3) by (simp add: Let_def)
  have "getfront q = Some ?m"
    using getfront_eq [OF ep_wfD(3) [OF q(3)]] q(2) assms(2) by simp
  moreover have "TX env (e\<lparr>message_buffer := q\<rparr>) (Some ?m) = Inl Out_Of_Bounds"
    by (rule TX_short_block [OF assms(4) q(3), where fc = fc and c = 2]) (use assms(5) h fc in simp_all)
  ultimately show ?thesis
    using q(1) by (intro exI [of _ "e\<lparr>message_buffer := q\<rparr>"] exI [of _ ?m])
      (simp add: create_and_enqueue_message_def)
qed

theorem get_command_overreads_witness:
  "\<exists>e' m. create_and_enqueue_message example_endpoint True = Inr (e', True) \<and>
    TX example_env e' (Some m) = Inl Out_Of_Bounds"
proof -
  have "cq_list (message_buffer example_endpoint) = []" "0 < cq_cap (message_buffer example_endpoint)"
    "(2 :: u32) \<le> credits (ep_fc example_endpoint) ! 1" "credits (ep_fc example_endpoint) ! 1 < 4294967295"
    by simp_all
  from get_command_overreads [OF example_wf this(1,2) example_env_ok(1) example_not_full this(3,4)]
  show ?thesis by blast
qed

end
