(* ===== verification/Link.thy ===== *)
theory Link
  imports Endpoint_Main "HOL-Library.Sublist"
begin

text \<open>
  Two endpoints, each running the steps of the endpoint thread and the commands of its user, over a
  network that may lose packets but keeps their order.  The theory shows that the messages one of
  them sends reach the handler of the other in order, without loss in between, duplication or
  change.
\<close>

section \<open>The network and its nodes\<close>

text \<open>A node is a thread with its place in the list of packets that its peer has sent: what comes
  before was received or lost.  The other fields are ghosts: the frames ever put into the window, the
  messages \<open>TX\<close> ever took over, the message blocks \<open>RX\<close> ever accepted.\<close>

record node = thread +
  nd_pos :: nat
  nd_hist :: "(int \<times> tloe_frame) list"
  nd_msgs :: "tl_msg list"
  nd_got :: "tl_block list"

text \<open>A message that survives the way through a frame, and whose answer does: its block has exactly
  the bytes its header announces, at most 40, and it asks for at most 32.\<close>

definition deliverable :: "tl_msg \<Rightarrow> bool" where
  "deliverable m \<longleftrightarrow> msg_ok m \<and> tlmsg_get_total_size (tl_hdr m) = int (length (tlmsg_bytes m)) \<and>
     tlmsg_get_total_size (tl_hdr m) \<le> 40 \<and> (is_get m \<longrightarrow> unat (tl_size (tl_hdr m)) \<le> 5)"

text \<open>The steps of a node whose peer has sent the packets \<open>W\<close>: the four phases of \<open>tloe_endpoint\<close>,
  and a message of the user.  Reception picks any packet that has not been passed over yet.\<close>

inductive node_step :: "byte list list \<Rightarrow> node \<Rightarrow> node \<Rightarrow> bool" for W where
  select: "th_request s = None \<Longrightarrow> select_buffer (th_counter s) (th_ep s) = (c, e, r) \<Longrightarrow>
    node_step W s (s\<lparr>th_ep := e, th_counter := c, th_request := r\<rparr>)"
| clock: "node_step W s (s\<lparr>th_ep := (th_ep s)\<lparr>iteration_ts := t\<rparr>\<rparr>)"
| transmit: "env_ok env \<Longrightarrow> rbe_alloc env \<Longrightarrow> TX env (th_ep s) (th_request s) = Inr (e, r) \<Longrightarrow>
    node_step W s (s\<lparr>th_ep := e, th_request := r,
      nd_hist := nd_hist s @ drop (length (window_keys (th_ep s))) (window_keys e),
      nd_msgs := nd_msgs s @ (case th_request s of None \<Rightarrow> [] | Some m \<Rightarrow> if r = None then [m] else [])\<rparr>)"
| receive: "nd_pos s \<le> j \<Longrightarrow> j < length W \<Longrightarrow>
    RX True (int (length (W ! j)), W ! j @ junk) (th_ep s) = Inr e \<Longrightarrow>
    node_step W s (s\<lparr>th_ep := e, nd_pos := Suc j,
      nd_got := nd_got s @ drop (length (cq_list (tl_msg_buffer (th_ep s)))) (cq_list (tl_msg_buffer e))\<rparr>)"
| serve: "serve_step (th_ep s) (th_mem s) = Inr (e, mem) \<Longrightarrow>
    node_step W s (s\<lparr>th_ep := e, th_mem := mem\<rparr>)"
| user: "deliverable m \<Longrightarrow> enqueue_message (th_ep s) m = Inr (e, ok) \<Longrightarrow>
    node_step W s (s\<lparr>th_ep := e\<rparr>)"

inductive_cases node_stepE: "node_step W s s'"

text \<open>No entry of the ack buffer acknowledges a frame that is \<open>2 ^ 20\<close> or more frames old.  The
  numbers in the ack buffer are sent one per frame, whatever their age; the code does nothing
  against an entry that outlives half of the number space.\<close>

definition acks_recent :: "endpoint \<Rightarrow> bool" where
  "acks_recent e \<longleftrightarrow> list_all (\<lambda>g. (unat (next_rx_seq e) + 4194304 - unat (frame_seq_ack g)) mod 4194304
     \<le> 1048576) (cq_list (ack_buffer e))"

record link =
  left :: node
  right :: node

inductive link_step :: "link \<Rightarrow> link \<Rightarrow> bool" where
  left: "node_step (wire (th_ep (right l))) (left l) n \<Longrightarrow> acks_recent (th_ep n) \<Longrightarrow>
    link_step l (l\<lparr>left := n\<rparr>)"
| right: "node_step (wire (th_ep (left l))) (right l) n \<Longrightarrow> acks_recent (th_ep n) \<Longrightarrow>
    link_step l (l\<lparr>right := n\<rparr>)"

text \<open>A connected pair: each side expects the number that the other sends next, all earlier packets
  have arrived or are lost, and nothing is on its way in the buffers.\<close>

definition node_start :: "node \<Rightarrow> byte list list \<Rightarrow> bool" where
  "node_start s W \<longleftrightarrow> ep_wf (th_ep s) \<and> fabric_up (th_ep s) \<and> th_mem s \<noteq> None \<and>
     cq_list (retransmit_buffer (th_ep s)) = [] \<and> cq_list (ack_buffer (th_ep s)) = [] \<and>
     cq_list (tl_msg_buffer (th_ep s)) = [] \<and> cq_list (response_buffer (th_ep s)) = [] \<and>
     list_all deliverable (cq_list (message_buffer (th_ep s))) \<and> th_request s = None \<and>
     nd_pos s = length W \<and> nd_hist s = [] \<and> nd_msgs s = [] \<and> nd_got s = []"

definition link_start :: "link \<Rightarrow> bool" where
  "link_start l \<longleftrightarrow> node_start (left l) (wire (th_ep (right l))) \<and>
     node_start (right l) (wire (th_ep (left l))) \<and>
     next_tx_seq (th_ep (left l)) = next_rx_seq (th_ep (right l)) \<and>
     next_tx_seq (th_ep (right l)) = next_rx_seq (th_ep (left l))"
section \<open>The messages of a node\<close>

lemma deliverable_sizes:
  assumes "deliverable m"
  shows "8 + length (tl_data m) = header_bytes (tl_hdr m) + data_bytes (tl_hdr m)"
    "header_bytes (tl_hdr m) + data_bytes (tl_hdr m) \<le> 40" "unat (tl_chan (tl_hdr m)) < CHANNEL_NUM"
    "msg_ok m"
  using assms by (auto simp: deliverable_def msg_ok_def tlmsg_get_total_size_eq)

text \<open>A deliverable message that could be served was safe to serve.\<close>

lemma deliverable_lengths:
  assumes "deliverable x"
  shows "is_put x \<Longrightarrow> 8 + tl_length x \<le> length (tl_data x)" "is_get x \<Longrightarrow> 8 \<le> length (tl_data x)"
proof -
  have "is_put x \<Longrightarrow> uint (tl_chan (tl_hdr x)) = 1 \<and> uint (tl_opcode (tl_hdr x)) = 0"
    "is_get x \<Longrightarrow> uint (tl_chan (tl_hdr x)) = 1 \<and> uint (tl_opcode (tl_hdr x)) = 4"
    unfolding is_put_def is_get_def uint_3_nat by simp_all
  then show "is_put x \<Longrightarrow> 8 + tl_length x \<le> length (tl_data x)" "is_get x \<Longrightarrow> 8 \<le> length (tl_data x)"
    using deliverable_sizes(1) [OF assms]
    by (auto simp: header_bytes_def data_bytes_def carries_data_def tl_length_def)
qed

lemma served_ok:
  assumes "deliverable x" "ep_wf e" "cq_list (tl_msg_buffer e) = Block x # bs"
    and "\<not> is_queue_full (response_buffer e)" "tl_handler e mem = Inr r"
  shows "tl_ok x"
proof -
  obtain q where q: "dequeue (tl_msg_buffer e) = (q, Some (Block x))"
    using dequeue_cons [OF ep_wfD(5) [OF assms(2)] assms(3)] by (cases "dequeue (tl_msg_buffer e)") auto
  have ne: "\<not> is_queue_empty (tl_msg_buffer e)"
    using assms(3) ep_wfD(5) [OF assms(2)] by (simp add: is_queue_empty_iff flip: length_cq_list)
  obtain row h where h: "arr_get tl_handler_table (int (unat (tl_chan (tl_hdr x)))) = Inr row"
    "arr_get row (int (unat (tl_opcode (tl_hdr x)))) = Inr h"
    "\<exists>s. call_handler h (e\<lparr>tl_msg_buffer := q\<rparr>) mem x = Inr s"
    using assms(4,5) ne q by (auto simp: tl_handler_def bindR_Inr_iff Let_def simp del: of_nat_unat)
  have c: "unat (tl_chan (tl_hdr x)) < 6" by (rule deliverable_sizes(3) [OF assms(1)])
  have put: "h = H_A_PUTFULLDATA" if "is_put x"
    using h(1,2) that unfolding is_put_def by (auto simp: arr_get_def tl_handler_table_def)
  have get: "h = H_A_GET" if "is_get x"
    using h(1,2) that unfolding is_get_def by (auto simp: arr_get_def tl_handler_table_def)
  have ackd: "h = H_D_ACCESSACKDATA" if "is_ackdata x"
    using h(1,2) that unfolding is_ackdata_def by (auto simp: arr_get_def tl_handler_table_def)
  have "tl_offset x + tl_length x \<le> MEM_SIZE" if "is_put x \<or> is_get x"
    using that h(3) put get
    by (auto simp: handle_A_PUTFULLDATA_opcode_def handle_A_GET_opcode_def bindR_Inr_iff bug_on_def
        Let_def tl_data0_def tl_offset_def tl_length_def split: if_splits)
  moreover have "8 \<le> length (tl_data x)" if "is_ackdata x"
    using h(3) ackd [OF that]
    by (auto simp: handle_D_ACCESSACKDATA_opcode_def bindR_Inr_iff tl_data0_def split: if_splits)
  ultimately show ?thesis using c deliverable_lengths [OF assms(1)] by (auto simp: tl_ok_def)
qed

lemma effect_deliverable:
  assumes "deliverable x"
  shows "list_all deliverable (snd (tl_effect x m))"
proof -
  have ack: "deliverable (tl_ack s)" for s
    using tl_ack_ok [of s]
    by (simp add: deliverable_def tl_ack_def tlmsg_get_total_size_eq header_bytes_def data_bytes_def
        carries_data_def is_get_def)
  have dat: "deliverable (tl_ack_data s z bs)" if "unat z \<le> 5" "length bs = 2 ^ unat z" for s z bs
  proof -
    have "(2::int) ^ unat z \<le> 2 ^ 5" using that(1) by (intro power_increasing) simp_all
    then show ?thesis
      using tl_ack_data_ok [of bs z s] that
      by (simp add: deliverable_def tl_ack_data_def tlmsg_get_total_size_eq header_bytes_def
          data_bytes_def carries_data_def is_get_def)
  qed
  have "is_get x \<Longrightarrow> unat (tl_size (tl_hdr x)) \<le> 5" using assms by (simp add: deliverable_def)
  then show ?thesis using ack dat by (simp add: tl_effect_def tl_length_def)
qed

section \<open>What the steps leave alone\<close>

text \<open>Everything that the link depends on is as before.\<close>

definition same_link :: "endpoint \<Rightarrow> endpoint \<Rightarrow> bool" where
  "same_link e e' \<longleftrightarrow> retransmit_buffer e' = retransmit_buffer e \<and> ack_buffer e' = ack_buffer e \<and>
     next_tx_seq e' = next_tx_seq e \<and> next_rx_seq e' = next_rx_seq e \<and> wire e' = wire e \<and>
     ep_fabric e' = ep_fabric e"

definition node_inv :: "node \<Rightarrow> bool" where
  "node_inv s \<longleftrightarrow> ep_wf (th_ep s) \<and> fabric_up (th_ep s) \<and> th_mem s \<noteq> None \<and>
     list_all deliverable (cq_list (message_buffer (th_ep s))) \<and>
     list_all deliverable (cq_list (response_buffer (th_ep s))) \<and>
     list_all (\<lambda>b. \<exists>x. b = Block x \<and> deliverable x) (cq_list (tl_msg_buffer (th_ep s))) \<and>
     pred_option deliverable (th_request s)"

lemma serve_step_returned:
  assumes "node_inv s" "serve_step (th_ep s) (th_mem s) = Inr (e, mem)"
  shows "same_link (th_ep s) e" "node_inv (s\<lparr>th_ep := e, th_mem := mem\<rparr>)"
proof -
  let ?e = "th_ep s"
  obtain m where m: "th_mem s = Some m" using assms(1) by (auto simp: node_inv_def)
  have wf: "ep_wf ?e" using assms(1) by (simp add: node_inv_def)
  have "same_link ?e e \<and> node_inv (s\<lparr>th_ep := e, th_mem := mem\<rparr>)"
  proof (cases "is_queue_empty (tl_msg_buffer ?e) \<or> is_queue_full (response_buffer ?e)")
    case True
    then have "e = ?e" "mem = th_mem s"
      using assms(2) by (simp_all add: serve_step_def tl_handler_idle)
    then show ?thesis using assms(1) by (simp add: same_link_def node_inv_def)
  next
    case False
    then obtain b bs where "cq_list (tl_msg_buffer ?e) = b # bs"
      using ep_wfD(5) [OF wf] by (cases "cq_list (tl_msg_buffer ?e)") (auto simp: is_queue_empty_iff)
    then obtain x where x: "cq_list (tl_msg_buffer ?e) = Block x # bs" "deliverable x"
      "list_all (\<lambda>b. \<exists>x. b = Block x \<and> deliverable x) bs"
      using assms(1) by (auto simp: node_inv_def)
    have room: "\<not> is_queue_full (response_buffer ?e)" using False by simp
    obtain r where "tl_handler ?e (th_mem s) = Inr r"
      using assms(2) by (auto simp: serve_step_def bindR_Inr_iff)
    then have ok: "tl_ok x" by (rule served_ok [OF x(2) wf x(1) room])
    obtain e1 where e1: "tl_handler ?e (Some m) = Inr (e1, Some (fst (tl_effect x m)),
         Some (unat (tl_chan (tl_hdr x)), tlmsg_get_flits_cnt (tl_hdr x)))"
      "ep_wf e1" "tl_keeps ?e e1" "cq_list (tl_msg_buffer e1) = bs"
      "cq_list (response_buffer e1) = cq_list (response_buffer ?e) @ snd (tl_effect x m)"
      using tl_handler_ok [OF wf x(1) ok room] by metis
    have "chan_ok (unat (tl_chan (tl_hdr x)))" using ok by (simp add: tl_ok_def chan_ok_def)
    then obtain fc where fc: "e = e1\<lparr>ep_fc := fc\<rparr>" "fc_inv fc" "mem = Some (fst (tl_effect x m))"
      using assms(2) e1(1) m ep_wfD(12) [OF e1(2)]
      by (auto simp: serve_step_def add_channel_flow_credits_def fc_inv_def)
    have "list_all deliverable (snd (tl_effect x m))" by (rule effect_deliverable [OF x(2)])
    then show ?thesis
      using e1 fc x(3) assms(1)
      by (auto simp: same_link_def tl_keeps_def node_inv_def ep_wf_def fabric_up_def)
  qed
  then show "same_link ?e e" "node_inv (s\<lparr>th_ep := e, th_mem := mem\<rparr>)" by simp_all
qed

lemma select_returned:
  assumes "node_inv s" "select_buffer (th_counter s) (th_ep s) = (c, e, r)" 
  shows "same_link (th_ep s) e" "node_inv (s\<lparr>th_ep := e, th_counter := c, th_request := r\<rparr>)"
proof -
  have wf: "ep_wf (th_ep s)" using assms(1) by (simp add: node_inv_def)
  have "same_link (th_ep s) e \<and> node_inv (s\<lparr>th_ep := e, th_counter := c, th_request := r\<rparr>)"
    using wf
  proof (cases rule: select_buffer_cases [where c = "th_counter s"])
    case (response q m)
    then have "e = (th_ep s)\<lparr>response_buffer := q\<rparr>" "r = Some m" using assms(2) by simp_all
    then show ?thesis
      using assms(1) response(2,3) by (simp add: same_link_def node_inv_def ep_wf_def fabric_up_def)
  next
    case (message q)
    then have e: "e = (th_ep s)\<lparr>message_buffer := q\<rparr>" "r = getfront (message_buffer (th_ep s))"
      using assms(2) by simp_all
    have "pred_option deliverable r"
      using assms(1) getfront_eq [OF ep_wfD(3) [OF wf]] e(2)
      by (cases "cq_list (message_buffer (th_ep s))") (auto simp: node_inv_def)
    moreover have "list_all deliverable (cq_list q)"
      using assms(1) message(3)
      by (cases "cq_list (message_buffer (th_ep s))") (auto simp: node_inv_def)
    ultimately show ?thesis
      using assms(1) e message(2) by (simp add: same_link_def node_inv_def ep_wf_def fabric_up_def)
  qed
  then show "same_link (th_ep s) e" "node_inv (s\<lparr>th_ep := e, th_counter := c, th_request := r\<rparr>)"
    by simp_all
qed

lemma user_returned:
  assumes "node_inv s" "deliverable m" "enqueue_message (th_ep s) m = Inr (e, ok)"
  shows "same_link (th_ep s) e" "node_inv (s\<lparr>th_ep := e\<rparr>)"
proof -
  have wf: "ep_wf (th_ep s)" using assms(1) by (simp add: node_inv_def)
  have nf: "\<not> is_queue_full (message_buffer (th_ep s))"
    using assms(3) by (auto simp: enqueue_message_def split: if_splits)
  then have "length (cq_list (message_buffer (th_ep s))) < cq_cap (message_buffer (th_ep s))"
    using ep_wfD(3) [OF wf] cq_count_le_cap [OF ep_wfD(3) [OF wf]] by (simp add: is_queue_full_iff)
  then obtain q where "e = (th_ep s)\<lparr>message_buffer := q\<rparr>"
    "cq_list q = cq_list (message_buffer (th_ep s)) @ [m]" "ep_wf e"
    using enqueue_message_ok [OF wf, of m] assms(3) by auto
  then show "same_link (th_ep s) e" "node_inv (s\<lparr>th_ep := e\<rparr>)"
    using assms(1,2) by (simp_all add: same_link_def node_inv_def fabric_up_def)
qed
section \<open>Frames on their way\<close>

text \<open>A frame of the window, as \<open>rbe_key\<close> keeps it: its size and the frame.\<close>

type_synonym frame_key = "int \<times> tloe_frame"

definition key_blocks :: "frame_key \<Rightarrow> tl_block list" where
  "key_blocks k = frame_blocks (snd k) (fst k)"

definition key_ok :: "nat \<Rightarrow> frame_key \<Rightarrow> bool" where
  "key_ok i k \<longleftrightarrow> 16 \<le> fst k \<and> fst k \<le> 528 \<and> fst k mod 8 = 0 \<and> length (flits (snd k)) = MAX_SIZE_FLIT \<and>
     drop (nat ((fst k - 8) div 8)) (flits (snd k)) =
       replicate (MAX_SIZE_FLIT - nat ((fst k - 8) div 8)) 0 \<and>
     ack (header (snd k)) = TLOE_ACK \<and> frame_type (header (snd k)) \<noteq> TYPE_ACKONLY \<and>
     frame_readable (snd k) (fst k) \<and> frame_seq (snd k) = seq_of i \<and> length (key_blocks k) \<le> 1"

lemma frame_with_ack [simp]:
  "frame_readable (with_ack f a) n = frame_readable f n" "frame_blocks (with_ack f a) n = frame_blocks f n"
  "frame_seq (with_ack f a) = frame_seq f"
proof -
  have "tloe_get_mask (with_ack f a) = tloe_get_mask f" "tloe_get_tlmsg (with_ack f a) = tloe_get_tlmsg f"
    by (simp_all add: fun_eq_iff tloe_get_mask_def tloe_get_tlmsg_def)
  then show "frame_readable (with_ack f a) n = frame_readable f n"
    "frame_blocks (with_ack f a) n = frame_blocks f n"
    unfolding frame_readable_def frame_blocks_def by (simp_all only: with_ack_fields)
qed (simp add: frame_seq_def)

lemma mask_bits_1: "mask_bits 1 = [0]"
  by (subst mask_bits_step) (simp add: drop_bit_eq_div)

lemma key_of_element:
  assumes "rbe_normal el" "carries el req" "pred_option deliverable req" "rbe_seq el = seq_of i"
  shows "key_ok i (rbe_key el)"
    "key_blocks (rbe_key el) = (case req of None \<Rightarrow> [] | Some m \<Rightarrow> [Block m])"
proof -
  have "frame_readable (rbe_frame el) (f_size el) \<and>
      frame_blocks (rbe_frame el) (f_size el) = (case req of None \<Rightarrow> [] | Some m \<Rightarrow> [Block m])"
  proof (cases req)
    case None
    then show ?thesis
      using assms(1,2) by (simp add: carries_def frame_readable_def frame_blocks_def rbe_normal_def)
  next
    case (Some m)
    then have "tlmsg_get_total_size (tl_hdr m) = int (length (tlmsg_bytes m))"
      "tlmsg_get_total_size (tl_hdr m) \<le> 40" using assms(3) by (simp_all add: deliverable_def)
    moreover define t where "t = nat (tlmsg_get_total_size (tl_hdr m))"
    ultimately have t: "t = length (tlmsg_bytes m)" "8 \<le> t" "t \<le> 40" by simp_all
    then have "tloe_get_tlmsg (rbe_frame el) 0 = Inr (Block m)"
      "tloe_get_mask (rbe_frame el) (f_size el) = Inr 1"
      using assms(2) unfolding Some carries_def Let_def option.case t_def [symmetric] by simp_all
    then show ?thesis
      using assms(1) Some by (simp add: frame_readable_def frame_blocks_def mask_bits_1 rbe_normal_def)
  qed
  moreover from this have "length (key_blocks (rbe_key el)) \<le> 1"
    by (simp add: key_blocks_def rbe_key_def split: option.split)
  ultimately show "key_ok i (rbe_key el)"
    "key_blocks (rbe_key el) = (case req of None \<Rightarrow> [] | Some m \<Rightarrow> [Block m])"
    using assms(1,4) by (simp_all add: key_ok_def key_blocks_def rbe_key_def rbe_normal_def rbe_ok_def)
qed

lemma key_received:
  assumes "key_ok i k"
  shows "rx_packet (fst k, frame_packet (with_ack (snd k) a) (fst k) @ junk) (with_ack (snd k) a)"
    "int (length (frame_packet (with_ack (snd k) a) (fst k))) = fst k"
proof -
  define j where "j = nat ((fst k - 8) div 8)"
  have n: "16 \<le> fst k" "fst k \<le> 528" "fst k mod 8 = 0" and len: "length (flits (snd k)) = 65"
    and pad: "drop j (flits (snd k)) = replicate (65 - j) 0"
    using assms by (simp_all add: key_ok_def j_def)
  have d: "fst k = 8 * (fst k div 8)" "2 \<le> fst k div 8" "fst k div 8 \<le> 66" using n by auto
  then have "(fst k - 8) div 8 = fst k div 8 - 1" by linarith
  then have j: "fst k = 8 + 8 * int j" "0 < j" "j \<le> 65" using d by (simp_all add: j_def)
  have fl: "take j (flits (snd k)) @ replicate (65 - j) 0 = flits (snd k)"
    by (metis append_take_drop_id pad)
  show "rx_packet (fst k, frame_packet (with_ack (snd k) a) (fst k) @ junk) (with_ack (snd k) a)"
    using rx_packet_of_frame [OF j, of "with_ack (snd k) a" junk] len j(3) fl
    by (cases "snd k") (simp add: with_ack_def)
  show "int (length (frame_packet (with_ack (snd k) a) (fst k))) = fst k"
    using n len by (subst length_frame_packet) simp_all
qed

lemma ackonly_received:
  assumes "ackonly_packet rx p"
  obtains f where "rx_packet (56, p @ junk) f" "header f = packet_header p" "is_ackonly_frame f"
proof -
  have len: "length p = 56" and ty: "frame_type (packet_header p) = 1"
    using assms by (simp_all add: ackonly_packet_def)
  obtain f where f: "packet_to_tloe_frame (p @ junk) 56 (zero_frame 528) = Inr f"
    using len by (simp add: packet_to_tloe_frame_def)
  then have "header f = packet_header p"
    using packet_to_frame_header(1) [OF f] len by (simp add: packet_header_def)
  then show thesis
    using f ty by (intro that [of f]) (simp_all add: rx_packet_def sizeof_tloe_frame_def is_ackonly_frame_def)
qed

text \<open>A packet that was sent when the history \<open>H\<close> had \<open>t\<close> frames: a stand-alone acknowledgement, or one
  of the last eight frames (four fit in the window; the handshake repeats up to six).\<close>

definition data_packet :: "frame_key list \<Rightarrow> nat \<Rightarrow> byte list \<Rightarrow> bool" where
  "data_packet H t p \<longleftrightarrow> (\<exists>rx. ackonly_packet rx p) \<or>
     (\<exists>i a. i < t \<and> t \<le> i + 8 \<and> i < length H \<and>
        p = frame_packet (with_ack (snd (H ! i)) a) (fst (H ! i)))"

lemma data_packet_mono: "data_packet H t p \<Longrightarrow> data_packet (H @ K) t p"
  unfolding data_packet_def by (metis length_append nth_append trans_less_add1)

text \<open>What a call of \<open>RX\<close> that takes such a packet does.\<close>

lemma packet_received:
  assumes "node_inv s" "data_packet H t p" "\<And>i. i < length H \<Longrightarrow> key_ok (Suc (m + i)) (H ! i)"
    and "RX True (int (length p), p @ junk) (th_ep s) = Inr e"
  obtains f where "header f = packet_header p" "ep_wf e" "rx_result (th_ep s) f (int (length p)) e"
    "is_ackonly_frame f \<or> (\<exists>i a. i < t \<and> t \<le> i + 8 \<and> i < length H \<and>
       f = with_ack (snd (H ! i)) a \<and> \<not> is_ackonly_frame f \<and> int (length p) = fst (H ! i))"
proof -
  have s: "ep_wf (th_ep s)" "fabric_up (th_ep s)" using assms(1) by (simp_all add: node_inv_def)
  from assms(2) consider (ack) rx where "ackonly_packet rx p"
    | (data) i a where "i < t" "t \<le> i + 8" "i < length H"
        "p = frame_packet (with_ack (snd (H ! i)) a) (fst (H ! i))"
    unfolding data_packet_def by blast
  then show thesis
  proof cases
    case ack
    obtain f where f: "rx_packet (56, p @ junk) f" "header f = packet_header p" "is_ackonly_frame f"
      by (rule ackonly_received [OF ack])
    have "length p = 56" using ack by (simp add: ackonly_packet_def)
    then show thesis
      using RX_returned [OF s, of 56 "p @ junk" f e] f assms(4) by (intro that [of f]) simp_all
  next
    case data
    let ?k = "H ! i"
    let ?f = "with_ack (snd ?k) a"
    have k: "key_ok (Suc (m + i)) ?k" using assms(3) data(3) by simp
    have rx: "rx_packet (int (length p), p @ junk) ?f" "int (length p) = fst ?k"
      using key_received [OF k, of a] unfolding data(4) by simp_all
    have nack: "\<not> is_ackonly_frame ?f" "frame_readable ?f (int (length p))"
      using k rx(2) by (simp_all add: is_ackonly_frame_def key_ok_def)
    have "ep_wf e \<and> rx_result (th_ep s) ?f (int (length p)) e"
      by (rule RX_returned [OF s rx(1) assms(4) nack(2)])
    moreover have "header ?f = packet_header p" unfolding data(4) by simp
    ultimately show thesis using data(1-3) rx(2) nack(1) by (intro that [of ?f]) auto
  qed
qed
section \<open>The invariant of a direction\<close>

text \<open>\<open>m\<close> fixes the numbering: frame \<open>i\<close> of the direction has the number of index \<open>Suc (m + i)\<close>, and
  the number of index \<open>m + i\<close> acknowledges the first \<open>i\<close> frames.  The sender: its window holds the
  history from \<open>base\<close> on.\<close>

definition sender :: "nat \<Rightarrow> node \<Rightarrow> nat \<Rightarrow> bool" where
  "sender m a base \<longleftrightarrow> base \<le> length (nd_hist a) \<and>
     next_tx_seq (th_ep a) = seq_of (Suc (m + length (nd_hist a))) \<and>
     window_keys (th_ep a) = drop base (nd_hist a) \<and>
     (\<forall>i < length (nd_hist a). key_ok (Suc (m + i)) (nd_hist a ! i)) \<and>
     concat (map key_blocks (nd_hist a)) = map Block (nd_msgs a) \<and> list_all deliverable (nd_msgs a)"

text \<open>The receiver has accepted the first \<open>R\<close> frames of the history; what waits in its ack buffer
  acknowledges that many or somewhat fewer.\<close>

definition old_ack :: "nat \<Rightarrow> nat \<Rightarrow> 22 word \<Rightarrow> bool" where
  "old_ack m R a \<longleftrightarrow> (\<exists>i. ucast a = seq_of (m + i) \<and> i \<le> R \<and> R \<le> i + 1048576)"

lemma old_ack_now:
  assumes "rx = seq_of (Suc (m + R))"
  shows "old_ack m R (ucast (tloe_seqnum_prev rx))"
  unfolding old_ack_def assms by (intro exI [of _ R]) simp

definition receiver :: "nat \<Rightarrow> node \<Rightarrow> frame_key list \<Rightarrow> nat \<Rightarrow> bool" where
  "receiver m b H R \<longleftrightarrow> next_rx_seq (th_ep b) = seq_of (Suc (m + R)) \<and>
     nd_got b = concat (map key_blocks (take R H)) \<and>
     list_all (\<lambda>g. old_ack m R (seq_num_ack (header g))) (cq_list (ack_buffer (th_ep b)))"

text \<open>The packets on the way, from position \<open>pos\<close> of the list \<open>ws\<close>: \<open>T ! p\<close> is the length of the
  history, \<open>S ! p\<close> the number of accepted frames when packet \<open>p\<close> was sent.\<close>

definition data_wire :: "frame_key list \<Rightarrow> nat \<Rightarrow> nat \<Rightarrow> nat list \<Rightarrow> byte list list \<Rightarrow> bool" where
  "data_wire H R pos T ws \<longleftrightarrow> length T = length ws \<and> sorted T \<and> list_all (\<lambda>t. t \<le> length H) T \<and>
     (\<forall>p. pos \<le> p \<and> p < length ws \<longrightarrow> R \<le> T ! p \<and> data_packet H (T ! p) (ws ! p))"

definition ack_packet :: "nat \<Rightarrow> nat \<Rightarrow> byte list \<Rightarrow> bool" where
  "ack_packet m s p \<longleftrightarrow> ack (packet_header p) = TLOE_ACK \<and> old_ack m s (seq_num_ack (packet_header p))"

definition ack_wire :: "nat \<Rightarrow> nat \<Rightarrow> nat \<Rightarrow> nat \<Rightarrow> nat list \<Rightarrow> byte list list \<Rightarrow> bool" where
  "ack_wire m base R pos S ws \<longleftrightarrow> length S = length ws \<and> sorted S \<and> list_all (\<lambda>s. s \<le> R) S \<and>
     (\<forall>p. pos \<le> p \<and> p < length ws \<longrightarrow> base \<le> Suc (S ! p) \<and> ack_packet m (S ! p) (ws ! p))"

text \<open>The two ends and the packets between them.  The window never slides past what the receiver has
  accepted, but for \<open>d\<close>, 0 or 1: the handshake of the code starts the window one frame ahead.\<close>

definition flow :: "nat \<Rightarrow> nat \<Rightarrow> node \<Rightarrow> node \<Rightarrow> nat \<Rightarrow> nat \<Rightarrow> nat list \<Rightarrow> nat list \<Rightarrow> bool" where
  "flow d m a b base R T S \<longleftrightarrow> d \<le> 1 \<and> sender m a base \<and> receiver m b (nd_hist a) R \<and>
     base \<le> R + d \<and> R \<le> length (nd_hist a) \<and>
     data_wire (nd_hist a) R (nd_pos b) T (wire (th_ep a)) \<and>
     ack_wire m base R (nd_pos a) S (wire (th_ep b))"

definition direction :: "nat \<Rightarrow> nat \<Rightarrow> node \<Rightarrow> node \<Rightarrow> bool" where
  "direction d m a b \<longleftrightarrow> (\<exists>base R T S. flow d m a b base R T S)"

lemma directionI: "flow d m a b base R T S \<Longrightarrow> direction d m a b"
  unfolding direction_def by blast

lemma data_wire_send:
  assumes "data_wire H R pos T ws" "R \<le> length H" "list_all (data_packet (H @ K) (length (H @ K))) ps"
  shows "data_wire (H @ K) R pos (T @ replicate (length ps) (length (H @ K))) (ws @ ps)"
proof -
  have "R \<le> (T @ replicate (length ps) (length (H @ K))) ! p \<and>
      data_packet (H @ K) ((T @ replicate (length ps) (length (H @ K))) ! p) ((ws @ ps) ! p)"
    if "pos \<le> p" "p < length (ws @ ps)" for p
  proof (cases "p < length ws")
    case True
    then show ?thesis using assms(1) that(1) data_packet_mono [of H "T ! p" "ws ! p" K]
      by (simp add: data_wire_def nth_append)
  next
    case False
    then show ?thesis using assms that(2) by (simp add: data_wire_def nth_append list_all_length)
  qed
  moreover have "sorted (T @ replicate (length ps) (length (H @ K)))"
    using assms(1) by (fastforce simp: data_wire_def sorted_append list_all_iff sorted_replicate)
  ultimately show ?thesis using assms(1) by (fastforce simp: data_wire_def list_all_iff)
qed

lemma ack_wire_send:
  assumes "ack_wire m base R pos S ws" "base \<le> Suc R" "list_all (ack_packet m R) ps"
  shows "ack_wire m base R pos (S @ replicate (length ps) R) (ws @ ps)"
proof -
  have "base \<le> Suc ((S @ replicate (length ps) R) ! p) \<and>
      ack_packet m ((S @ replicate (length ps) R) ! p) ((ws @ ps) ! p)"
    if "pos \<le> p" "p < length (ws @ ps)" for p
    using assms that by (cases "p < length ws") (auto simp: ack_wire_def nth_append list_all_length)
  moreover have "sorted (S @ replicate (length ps) R)"
    using assms(1) by (fastforce simp: ack_wire_def sorted_append list_all_iff sorted_replicate)
  ultimately show ?thesis using assms(1) by (fastforce simp: ack_wire_def list_all_iff)
qed

lemma data_wire_skip: "data_wire H R pos T ws \<Longrightarrow> pos \<le> pos' \<Longrightarrow> data_wire H R pos' T ws"
  by (auto simp: data_wire_def)

lemma ack_wire_skip: "ack_wire m base R pos S ws \<Longrightarrow> pos \<le> pos' \<Longrightarrow> ack_wire m base R pos' S ws"
  by (auto simp: ack_wire_def)

text \<open>Accepting a frame that was on the way, and sliding the window to an acknowledgement that was.\<close>

lemma data_wire_accept:
  assumes "data_wire H R pos T ws" "pos \<le> j" "j < length ws" "i < T ! j"
  shows "data_wire H (Suc i) (Suc j) T ws"
proof -
  have "T ! j \<le> T ! p" if "Suc j \<le> p" "p < length ws" for p
    using that assms(1) by (intro sorted_nth_mono) (auto simp: data_wire_def)
  then show ?thesis using assms by (fastforce simp: data_wire_def)
qed

lemma ack_wire_accept: "ack_wire m base R pos S ws \<Longrightarrow> R \<le> R' \<Longrightarrow> ack_wire m base R' pos S ws"
  by (auto simp: ack_wire_def list_all_iff)

lemma ack_wire_slide:
  assumes "ack_wire m base R pos S ws" "pos \<le> j" "j < length ws" "i \<le> S ! j"
  shows "ack_wire m (max base i) R (Suc j) S ws"
proof -
  have "S ! j \<le> S ! p" if "Suc j \<le> p" "p < length ws" for p
    using that assms(1) by (intro sorted_nth_mono) (auto simp: ack_wire_def)
  then show ?thesis using assms by (fastforce simp: ack_wire_def)
qed

lemma sender_window:
  assumes "sender m a base" "ep_wf (th_ep a)"
  shows "length (nd_hist a) \<le> base + WINDOW_SIZE"
    "length (cq_list (retransmit_buffer (th_ep a))) = length (nd_hist a) - base"
proof -
  have "length (window_keys (th_ep a)) = length (nd_hist a) - base"
    using assms(1) by (simp add: sender_def)
  then show l: "length (cq_list (retransmit_buffer (th_ep a))) = length (nd_hist a) - base"
    by (simp add: window_keys_def)
  show "length (nd_hist a) \<le> base + WINDOW_SIZE"
    using window_bound [OF assms(2)] unfolding l by simp
qed

text \<open>Steps that concern no frame.\<close>

lemma flow_quiet:
  assumes "flow d m a b base R T S" "same_link (th_ep a) (th_ep a')" "same_link (th_ep b) (th_ep b')"
    and "nd_hist a' = nd_hist a" "nd_msgs a' = nd_msgs a" "nd_pos a' = nd_pos a"
    and "nd_got b' = nd_got b" "nd_pos b' = nd_pos b"
  shows "flow d m a' b' base R T S"
  using assms by (simp add: flow_def sender_def receiver_def same_link_def window_keys_def)

lemma same_link_refl [simp]: "same_link e e"
  by (simp add: same_link_def)
section \<open>Transmitting\<close>

lemma TX_returned:
  assumes "env_ok env" "rbe_alloc env" "ep_wf e" "pred_option deliverable req" "TX env e req = Inr (e', r)"
  shows "ep_wf e'" "tx_frame e e'"
    "tx_idle e e' \<and> r = req \<or> (\<exists>q. tx_sent e e' q \<and> (q = None \<and> r = req \<or> q = req \<and> r = None))"
proof -
  have "\<And>m. req = Some m \<Longrightarrow> msg_ok m" using assms(4) by (simp add: deliverable_def)
  then have *: "ep_wf e' \<and> tx_frame e e' \<and> tx_result e req e' r"
    using TX_ok [OF assms(1-3), of req] assms(5) by fastforce
  then show "ep_wf e'" "tx_frame e e'" by simp_all
  show "tx_idle e e' \<and> r = req \<or> (\<exists>q. tx_sent e e' q \<and> (q = None \<and> r = req \<or> q = req \<and> r = None))"
    using * by (auto simp: tx_result_def split: if_splits option.splits sum.splits)
qed

text \<open>The node after \<open>TX\<close>.\<close>

definition transmitted :: "node \<Rightarrow> endpoint \<Rightarrow> tl_msg option \<Rightarrow> node" where
  "transmitted s e r = s\<lparr>th_ep := e, th_request := r,
      nd_hist := nd_hist s @ drop (length (window_keys (th_ep s))) (window_keys e),
      nd_msgs := nd_msgs s @ (case th_request s of None \<Rightarrow> [] | Some m \<Rightarrow> if r = None then [m] else [])\<rparr>"

lemma sender_transmit:
  assumes "sender m a base" "node_inv a" "env_ok env" "rbe_alloc env"
    and "TX env (th_ep a) (th_request a) = Inr (e, r)"
  shows "sender m (transmitted a e r) base" "node_inv (transmitted a e r)"
proof -
  let ?H = "nd_hist a" and ?a = "transmitted a e r"
  have wf: "ep_wf (th_ep a)" and req: "pred_option deliverable (th_request a)"
    using assms(2) by (simp_all add: node_inv_def)
  note tx = TX_returned [OF assms(3,4) wf req assms(5)]
  have s: "base \<le> length ?H" "next_tx_seq (th_ep a) = seq_of (Suc (m + length ?H))"
    "window_keys (th_ep a) = drop base ?H" "\<forall>i < length ?H. key_ok (Suc (m + i)) (?H ! i)"
    "concat (map key_blocks ?H) = map Block (nd_msgs a)" "list_all deliverable (nd_msgs a)"
    using assms(1) by (simp_all add: sender_def)
  have rr: "pred_option deliverable r" using tx(3) req by auto
  then show "node_inv ?a"
    using assms(2) tx(1,2) by (simp add: node_inv_def transmitted_def tx_frame_def fabric_up_def)
  from tx(3) consider (idle) "tx_idle (th_ep a) e" "r = th_request a"
    | (sent) q where "tx_sent (th_ep a) e q" "q = None \<and> r = th_request a \<or> q = th_request a \<and> r = None"
    by blast
  then show "sender m ?a base"
  proof cases
    case idle
    then have "nd_msgs ?a = nd_msgs a" "nd_hist ?a = nd_hist a" "th_ep ?a = e"
      "next_tx_seq e = next_tx_seq (th_ep a)" "window_keys e = window_keys (th_ep a)"
      by (simp_all add: transmitted_def tx_idle_def split: option.split)
    then show ?thesis using assms(1) by (simp add: sender_def)
  next
    case (sent q)
    note q = sent
    obtain el where el: "window_keys e = window_keys (th_ep a) @ [rbe_key el]"
      "rbe_seq el = next_tx_seq (th_ep a)" "carries el q"
      using q(1) by (auto simp: tx_sent_def)
    have "rbe_key el \<in> set (window_keys e)" using el(1) by simp
    then obtain el' where el': "el' \<in> set (cq_list (retransmit_buffer e))" "rbe_key el' = rbe_key el"
      by (auto simp: window_keys_def)
    then have "rbe_normal el'" using ep_wfD(7) [OF tx(1)] by (simp add: list_all_iff)
    then have nrm: "rbe_normal el"
      using el'(2) by (simp add: rbe_key_def rbe_normal_def rbe_ok_def)
    have qd: "pred_option deliverable q" using q(2) req by auto
    have "rbe_seq el = seq_of (Suc (m + length ?H))" using el(2) s(2) by simp
    note k = key_of_element [OF nrm el(3) qd this]
    have msgs: "nd_msgs ?a = nd_msgs a @ (case q of None \<Rightarrow> [] | Some x \<Rightarrow> [x])"
      using q(2) by (auto simp: transmitted_def split: option.split)
    have H: "nd_hist ?a = ?H @ [rbe_key el]" by (simp add: transmitted_def el(1))
    have "next_tx_seq e = seq_of (Suc (m + Suc (length ?H)))"
      using q(1) s(2) by (simp add: tx_sent_def)
    moreover have "\<forall>i < length (nd_hist ?a). key_ok (Suc (m + i)) (nd_hist ?a ! i)"
      using s(4) k(1) by (auto simp: H nth_append less_Suc_eq)
    moreover have "concat (map key_blocks (nd_hist ?a)) = map Block (nd_msgs ?a)"
      using s(5) k(2) by (simp add: H msgs split: option.split)
    moreover have "list_all deliverable (nd_msgs ?a)"
      using s(6) qd by (cases q) (simp_all add: msgs)
    moreover have "window_keys e = drop base (nd_hist ?a)" "base \<le> length (nd_hist ?a)"
      using s(1,3) el(1) by (simp_all add: H)
    moreover have "length (nd_hist ?a) = Suc (length ?H)" by (simp add: H)
    moreover have "th_ep ?a = e" by (simp add: transmitted_def)
    ultimately show ?thesis unfolding sender_def by simp
  qed
qed

lemma flow_transmit:
  assumes "flow d m a b base R T S" "node_inv a" "env_ok env" "rbe_alloc env"
    and "TX env (th_ep a) (th_request a) = Inr (e, r)"
  shows "\<exists>T'. flow d m (transmitted a e r) b base R T' S"
    "\<exists>ps. wire e = wire (th_ep a) @ ps \<and>
       (\<forall>p \<in> set ps. (\<exists>rx. ackonly_packet rx p) \<or> (\<exists>i x. base \<le> i \<and> i < length (nd_hist (transmitted a e r)) \<and>
          p = frame_packet (with_ack (snd (nd_hist (transmitted a e r) ! i)) x) (fst (nd_hist (transmitted a e r) ! i))))"
proof -
  let ?a = "transmitted a e r"
  have d: "sender m a base" "receiver m b (nd_hist a) R" "base \<le> R + d"
    "R \<le> length (nd_hist a)" "data_wire (nd_hist a) R (nd_pos b) T (wire (th_ep a))"
    "ack_wire m base R (nd_pos a) S (wire (th_ep b))" "d \<le> 1"
    using assms(1) by (simp_all add: flow_def)
  note st = sender_transmit [OF d(1) assms(2-5)]
  have wf: "ep_wf (th_ep a)" and req: "pred_option deliverable (th_request a)"
    using assms(2) by (simp_all add: node_inv_def)
  note tx = TX_returned [OF assms(3,4) wf req assms(5)]
  obtain K where K: "nd_hist ?a = nd_hist a @ K" by (simp add: transmitted_def)
  obtain ps where ps: "wire e = wire (th_ep a) @ ps" "list_all (tx_packet (th_ep a) (window_keys e)) ps"
    using tx(2) by (auto simp: tx_frame_def)
  let ?H = "nd_hist ?a"
  have win: "window_keys e = drop base ?H" "length ?H \<le> base + 4" "base \<le> length ?H"
    using st(1) sender_window(1) [OF st(1)] tx(1) by (simp_all add: sender_def transmitted_def)
  have kind: "(\<exists>rx. ackonly_packet rx p) \<or> (\<exists>i x. base \<le> i \<and> i < length ?H \<and>
      p = frame_packet (with_ack (snd (?H ! i)) x) (fst (?H ! i)))" if p: "p \<in> set ps" for p
  proof (cases "\<exists>rx. ackonly_packet rx p")
    case False
    have "tx_packet (th_ep a) (window_keys e) p" using ps(2) p by (simp add: list_all_iff)
    then obtain n f x where f: "(n, f) \<in> set (drop base ?H)" "p = frame_packet (with_ack f x) n"
      using False unfolding tx_packet_def win(1) by auto
    then obtain j where j: "j < length ?H - base" "?H ! (base + j) = (n, f)"
      by (auto simp: in_set_conv_nth)
    then have "base \<le> base + j \<and> base + j < length ?H \<and>
        p = frame_packet (with_ack (snd (?H ! (base + j))) x) (fst (?H ! (base + j)))"
      using f(2) by simp
    then show ?thesis by blast
  qed simp
  then show "\<exists>ps. wire e = wire (th_ep a) @ ps \<and>
       (\<forall>p \<in> set ps. (\<exists>rx. ackonly_packet rx p) \<or> (\<exists>i x. base \<le> i \<and> i < length ?H \<and>
          p = frame_packet (with_ack (snd (?H ! i)) x) (fst (?H ! i))))"
    using ps(1) by blast
  have "data_packet ?H (length ?H) p" if p: "p \<in> set ps" for p
    using kind [OF p]
  proof (elim disjE exE conjE)
    fix i x assume "base \<le> i" "i < length ?H" "p = frame_packet (with_ack (snd (?H ! i)) x) (fst (?H ! i))"
    moreover from this have "length ?H \<le> i + 8" using win(2) by simp
    ultimately show ?thesis unfolding data_packet_def by blast
  qed (auto simp: data_packet_def)
  then have "list_all (data_packet ?H (length ?H)) ps" by (simp add: list_all_iff)
  then have "data_wire ?H R (nd_pos b) (T @ replicate (length ps) (length ?H)) (wire e)"
    unfolding K ps(1) by (intro data_wire_send [OF d(5,4)])
  moreover have "receiver m b ?H R" using d(2,4) by (simp add: receiver_def K)
  moreover have "R \<le> length ?H" using d(4) K by simp
  ultimately show "\<exists>T'. flow d m ?a b base R T' S"
    using st(1) d(3,6,7) unfolding flow_def by (intro exI) (auto simp: transmitted_def)
qed

text \<open>The acknowledgements that the other side's frames carry.\<close>

lemma flow_transmit_acks:
  assumes "flow d m a b base R T S" "node_inv b" "env_ok env" "rbe_alloc env"
    and "TX env (th_ep b) (th_request b) = Inr (e, r)"
  shows "\<exists>S'. flow d m a (transmitted b e r) base R T S'"
proof -
  have d: "sender m a base" "receiver m b (nd_hist a) R" "base \<le> Suc R"
    "R \<le> length (nd_hist a)" "data_wire (nd_hist a) R (nd_pos b) T (wire (th_ep a))"
    "ack_wire m base R (nd_pos a) S (wire (th_ep b))" "base \<le> R + d" "d \<le> 1"
    using assms(1) by (simp_all add: flow_def)
  have wf: "ep_wf (th_ep b)" and req: "pred_option deliverable (th_request b)"
    using assms(2) by (simp_all add: node_inv_def)
  note tx = TX_returned [OF assms(3,4) wf req assms(5)]
  obtain ps where ps: "wire e = wire (th_ep b) @ ps" "all_ack ps"
    "list_all (tx_packet (th_ep b) (window_keys e)) ps"
    using tx(2) by (auto simp: tx_frame_def)
  have rx: "next_rx_seq (th_ep b) = seq_of (Suc (m + R))"
    "list_all (\<lambda>g. old_ack m R (seq_num_ack (header g))) (cq_list (ack_buffer (th_ep b)))"
    using d(2) by (simp_all add: receiver_def)
  note now = old_ack_now [OF rx(1)]
  have nums: "old_ack m R x" if x: "x \<in> set (tx_ack_numbers (th_ep b))" for x
  proof (cases "x = ucast (tloe_seqnum_prev (next_rx_seq (th_ep b)))")
    case False
    then obtain g where "g \<in> set (take 1 (cq_list (ack_buffer (th_ep b))))" "x = seq_num_ack (header g)"
      using x by (auto simp: tx_ack_numbers_def)
    then show ?thesis using rx(2) in_set_takeD by (fastforce simp: list_all_iff)
  qed (simp add: now)
  have "ack_packet m R p" if p: "p \<in> set ps" for p
  proof -
    have a: "ack (packet_header p) = 1" using ps(2) p by (simp add: all_ack_def)
    from ps(3) p have "tx_packet (th_ep b) (window_keys e) p" by (simp add: list_all_iff)
    then have "old_ack m R (seq_num_ack (packet_header p))"
      using now nums by (auto simp: tx_packet_def ackonly_packet_def)
    then show ?thesis using a by (simp add: ack_packet_def)
  qed
  then have "ack_wire m base R (nd_pos a) (S @ replicate (length ps) R) (wire e)"
    unfolding ps(1) by (intro ack_wire_send [OF d(6,3)]) (simp add: list_all_iff)
  moreover have "cq_list (ack_buffer e) = cq_list (ack_buffer (th_ep b)) \<or>
      cq_list (ack_buffer e) = tl (cq_list (ack_buffer (th_ep b)))"
    using tx(3) by (auto simp: tx_idle_def tx_sent_def)
  then have "list_all (\<lambda>g. old_ack m R (seq_num_ack (header g))) (cq_list (ack_buffer e))"
    using rx(2) by (cases "cq_list (ack_buffer (th_ep b))") auto
  then have "receiver m (transmitted b e r) (nd_hist a) R"
    using d(2) tx(2) by (simp add: receiver_def transmitted_def tx_frame_def)
  ultimately show ?thesis
    using d(1,4,5,7,8) unfolding flow_def by (intro exI) (auto simp: transmitted_def)
qed

section \<open>Receiving\<close>

lemma seq_of_age:
  assumes "i \<le> k" "k < i + 4194304"
  shows "(unat (seq_of k) + 4194304 - unat (seq_of i)) mod 4194304 = k - i"
proof -
  obtain d where d: "k = i + d" using assms(1) le_Suc_ex by blast
  let ?r = "i mod 4194304"
  have r: "?r < 4194304" by simp
  have "(i + d) mod 4194304 + 4194304 - ?r = (i + d) mod 4194304 + (4194304 - ?r)" using r by linarith
  then have "((i + d) mod 4194304 + 4194304 - ?r) mod 4194304 = (i + d + (4194304 - ?r)) mod 4194304"
    by (simp only: mod_add_left_eq)
  also have "i + d + (4194304 - ?r) = i + (d + (4194304 - ?r))" by (simp only: add.assoc)
  also have "\<dots> mod 4194304 = (?r + (d + (4194304 - ?r))) mod 4194304" by (simp only: mod_add_left_eq)
  also have "?r + (d + (4194304 - ?r)) = d + 4194304" using r by linarith
  finally show ?thesis using assms(2) by (simp add: d)
qed

lemma seq_of_close:
  assumes "seq_of i = seq_of j" "i < j + 2097152" "j < i + 2097152"
  shows "i = j"
proof (rule ccontr)
  assume "i \<noteq> j"
  then consider "i < j" | "j < i" by linarith
  then show False
  proof cases
    case 1
    then show False using cmp_seq_of_less(1) [of i j] assms by (simp add: less_diff_conv2)
  next
    case 2
    then show False using cmp_seq_of_less(1) [of j i] assms by (simp add: less_diff_conv2)
  qed
qed

lemma old_ack_later:
  assumes "old_ack m R (seq_num_ack (header g))" "next_rx_seq e = seq_of (Suc (m + Suc R))"
    and "(unat (next_rx_seq e) + 4194304 - unat (frame_seq_ack g)) mod 4194304 \<le> 1048576"
  shows "old_ack m (Suc R) (seq_num_ack (header g))"
proof -
  obtain i where i: "ucast (seq_num_ack (header g)) = seq_of (m + i)" "i \<le> R" "R \<le> i + 1048576"
    using assms(1) by (auto simp: old_ack_def)
  have "(unat (seq_of (Suc (m + Suc R))) + 4194304 - unat (seq_of (m + i))) mod 4194304 = Suc (Suc R) - i"
    using i(2,3) by (subst seq_of_age) simp_all
  then have "Suc (Suc R) - i \<le> 1048576"
    using assms(2,3) i(1) by (simp add: frame_seq_ack_def)
  then show ?thesis using i(1,2) unfolding old_ack_def by (intro exI [of _ i]) simp
qed

text \<open>The node after it received the packet at place \<open>j\<close>.\<close>

definition received :: "node \<Rightarrow> nat \<Rightarrow> endpoint \<Rightarrow> node" where
  "received s j e = s\<lparr>th_ep := e, nd_pos := Suc j,
      nd_got := nd_got s @ drop (length (cq_list (tl_msg_buffer (th_ep s)))) (cq_list (tl_msg_buffer e))\<rparr>"

lemma received_fields [simp]:
  "th_ep (received s j e) = e" "nd_pos (received s j e) = Suc j" "nd_hist (received s j e) = nd_hist s"
  "nd_msgs (received s j e) = nd_msgs s" "th_mem (received s j e) = th_mem s"
  "th_request (received s j e) = th_request s"
  "th_counter (received s j e) = th_counter s"
  by (simp_all add: received_def)

text \<open>The receiver after it accepted the frame it expects.\<close>

lemma receiver_accepts:
  assumes "receiver m b H R" "R < length H" "f = with_ack (snd (H ! R)) a" "n = fst (H ! R)"
    and "rx_takes (th_ep b) f n e" "acks_recent e"
  shows "receiver m (received b j e) H (Suc R)"
    "cq_list (tl_msg_buffer e) = cq_list (tl_msg_buffer (th_ep b)) @ key_blocks (H ! R)"
    "nd_got (received b j e) = nd_got b @ key_blocks (H ! R)"
proof -
  have rx: "next_rx_seq (th_ep b) = seq_of (Suc (m + R))" "nd_got b = concat (map key_blocks (take R H))"
    "list_all (\<lambda>g. old_ack m R (seq_num_ack (header g))) (cq_list (ack_buffer (th_ep b)))"
    using assms(1) by (simp_all add: receiver_def)
  have e: "next_rx_seq e = seq_of (Suc (m + Suc R))" "ack_buffer e = ack_buffer (th_ep b)"
    "cq_list (tl_msg_buffer e) = cq_list (tl_msg_buffer (th_ep b)) @ key_blocks (H ! R)"
    using rx(1) assms(5) by (simp_all add: rx_takes_def assms(3,4) key_blocks_def)
  show "cq_list (tl_msg_buffer e) = cq_list (tl_msg_buffer (th_ep b)) @ key_blocks (H ! R)" by (rule e(3))
  show got: "nd_got (received b j e) = nd_got b @ key_blocks (H ! R)" by (simp add: received_def e(3))
  have "take (Suc R) H = take R H @ [H ! R]" by (rule take_Suc_conv_app_nth [OF assms(2)])
  then have "nd_got (received b j e) = concat (map key_blocks (take (Suc R) H))"
    using rx(2) by (simp add: got)
  moreover have "list_all (\<lambda>g. old_ack m (Suc R) (seq_num_ack (header g))) (cq_list (ack_buffer e))"
    using rx(3) assms(6) old_ack_later [OF _ e(1)] by (simp add: e(2) acks_recent_def list_all_iff)
  ultimately show "receiver m (received b j e) H (Suc R)" using e(1) by (simp add: receiver_def)
qed

text \<open>The receiver after it took a packet of the wire.\<close>

lemma receiver_takes:
  assumes "receiver m b H R" "R \<le> length H" "R \<le> t" "t \<le> length H" "length H \<le> R + 5"
    and "i < t" "t \<le> i + 8" "key_ok (Suc (m + i)) (H ! i)"
    and "f = with_ack (snd (H ! i)) a" "n = fst (H ! i)" "rx_kind (th_ep b) f n e" "acks_recent e"
  shows "i = R \<and> frame_seq f = next_rx_seq (th_ep b) \<and> receiver m (received b j e) H (Suc R) \<and>
      cq_list (tl_msg_buffer e) = cq_list (tl_msg_buffer (th_ep b)) @ key_blocks (H ! i) \<or>
    receiver m (received b j e) H R \<and> tl_msg_buffer e = tl_msg_buffer (th_ep b)"
proof -
  let ?b = "received b j e"
  have rx: "next_rx_seq (th_ep b) = seq_of (Suc (m + R))" "nd_got b = concat (map key_blocks (take R H))"
    "list_all (\<lambda>g. old_ack m R (seq_num_ack (header g))) (cq_list (ack_buffer (th_ep b)))"
    using assms(1) by (simp_all add: receiver_def)
  have seq: "frame_seq f = seq_of (Suc (m + i))" using assms(8,9) by (simp add: key_ok_def)
  have near: "i < R + 5" "R \<le> i + 8" using assms(3-7) by simp_all
  show ?thesis
  proof (cases "tloe_rx_get_req_type (th_ep b) f")
    case REQ_NORMAL
    then have "seq_of (Suc (m + i)) = seq_of (Suc (m + R))" using seq rx(1) by (simp add: rx_normal_seq)
    then have "Suc (m + i) = Suc (m + R)" using near by (intro seq_of_close) simp_all
    then have iR: "i = R" by simp
    have "rx_takes (th_ep b) f n e" using assms(11) REQ_NORMAL by (simp add: rx_kind_def)
    moreover have "R < length H" using assms(4,6) iR by simp
    ultimately show ?thesis
      using receiver_accepts [OF assms(1) _ _ _ _ assms(12)] assms(9,10) iR seq rx(1) by metis
  next
    case REQ_DUPLICATE
    then have "tloe_seqnum_cmp (seq_of (Suc (m + i))) (seq_of (Suc (m + R))) < 0"
      using seq rx(1) by (auto simp: tloe_rx_get_req_type_def Let_def split: if_splits)
    then have "i < R" using cmp_seq_of_less(1) [of "Suc (m + R)" "Suc (m + i)"] near
      by (cases "i = R"; cases "R < i") simp_all
    moreover have "ucast (seq_num (header f)) = seq_of (m + Suc i)" using seq by (simp add: frame_seq_def)
    ultimately have "old_ack m R (seq_num (header f))"
      unfolding old_ack_def using near by (intro exI [of _ "Suc i"]) simp
    moreover have "rx_answers (th_ep b) (seq_num (header f)) 1 e"
      using assms(11) REQ_DUPLICATE by (simp add: rx_kind_def)
    ultimately show ?thesis using rx by (auto simp: rx_answers_def receiver_def received_def)
  next
    case REQ_OOS
    then have "rx_answers (th_ep b) (ucast (tloe_seqnum_prev (next_rx_seq (th_ep b)))) 0 e"
      using assms(11) by (simp add: rx_kind_def)
    moreover have "old_ack m R (ucast (tloe_seqnum_prev (next_rx_seq (th_ep b))))"
      by (rule old_ack_now [OF rx(1)])
    ultimately show ?thesis using rx by (auto simp: rx_answers_def receiver_def received_def)
  qed
qed

text \<open>A node takes the packet at place \<open>j\<close> of its peer's wire: what it sends is as before, what it
  receives moves on.\<close>

lemma flow_receive:
  assumes "flow d m a b base R T S" "node_inv b" "nd_pos b \<le> j" "j < length (wire (th_ep a))"
    and "RX True (int (length (wire (th_ep a) ! j)), wire (th_ep a) ! j @ junk) (th_ep b) = Inr e"
    and "acks_recent e" "wire e = wire (th_ep b)" "ep_wf (th_ep a)"
  shows "\<exists>R'. flow d m a (received b j e) base R' T S \<and>
      (R' = R \<or> R' = Suc R \<and> ucast (seq_num (packet_header (wire (th_ep a) ! j))) = next_rx_seq (th_ep b) \<and>
         frame_type (packet_header (wire (th_ep a) ! j)) \<noteq> TYPE_ACKONLY)"
    "\<exists>bs. cq_list (tl_msg_buffer e) = cq_list (tl_msg_buffer (th_ep b)) @ bs \<and>
       set bs \<subseteq> Block ` set (nd_msgs a)"
proof -
  let ?p = "wire (th_ep a) ! j" and ?H = "nd_hist a" and ?b = "received b j e"
  have d: "sender m a base" "receiver m b ?H R" "base \<le> R + d" "R \<le> length ?H"
    "data_wire ?H R (nd_pos b) T (wire (th_ep a))" "ack_wire m base R (nd_pos a) S (wire (th_ep b))" "d \<le> 1"
    using assms(1) by (simp_all add: flow_def)
  have s: "\<And>i. i < length ?H \<Longrightarrow> key_ok (Suc (m + i)) (?H ! i)"
    "concat (map key_blocks ?H) = map Block (nd_msgs a)"
    using d(1) by (simp_all add: sender_def)
  have w: "R \<le> T ! j" "data_packet ?H (T ! j) ?p" "T ! j \<le> length ?H"
    using d(5) assms(3,4) by (auto simp: data_wire_def list_all_length)
  have len: "length ?H \<le> R + 5" using sender_window(1) [OF d(1) assms(8)] d(3,7) by simp
  note skip = data_wire_skip [OF d(5), of "Suc j"]
  obtain f where f: "header f = packet_header ?p" "rx_result (th_ep b) f (int (length ?p)) e"
    "is_ackonly_frame f \<or> (\<exists>i x. i < T ! j \<and> T ! j \<le> i + 8 \<and> i < length ?H \<and>
       f = with_ack (snd (?H ! i)) x \<and> \<not> is_ackonly_frame f \<and> int (length ?p) = fst (?H ! i))"
    by (rule packet_received [OF assms(2) w(2) s(1) assms(5)]) blast+
  consider (same) "receiver m ?b ?H R" "tl_msg_buffer e = tl_msg_buffer (th_ep b)"
    | (takes) "receiver m ?b ?H (Suc R)" "R < T ! j" "frame_seq f = next_rx_seq (th_ep b)"
        "\<not> is_ackonly_frame f"
        "cq_list (tl_msg_buffer e) = cq_list (tl_msg_buffer (th_ep b)) @ key_blocks (?H ! R)"
  proof (cases "is_ackonly_frame f")
    case True
    then show ?thesis using f(2) d(2) that(1) by (simp add: rx_result_def receiver_def received_def)
  next
    case False
    then obtain i x where i: "i < T ! j" "T ! j \<le> i + 8" "i < length ?H" "f = with_ack (snd (?H ! i)) x"
      "int (length ?p) = fst (?H ! i)" using f(3) by auto
    have "rx_kind (th_ep b) f (int (length ?p)) e" using f(2) False by (simp add: rx_result_def)
    from receiver_takes [OF d(2,4) w(1,3) len i(1,2) s(1) [OF i(3)] i(4,5) this assms(6), of j]
    show ?thesis using that i(1) False by blast
  qed
  then have "(\<exists>R'. flow d m a ?b base R' T S \<and>
      (R' = R \<or> R' = Suc R \<and> ucast (seq_num (packet_header ?p)) = next_rx_seq (th_ep b) \<and>
         frame_type (packet_header ?p) \<noteq> TYPE_ACKONLY)) \<and>
     (\<exists>bs. cq_list (tl_msg_buffer e) = cq_list (tl_msg_buffer (th_ep b)) @ bs \<and>
       set bs \<subseteq> Block ` set (nd_msgs a))"
  proof cases
    case same
    then have "flow d m a ?b base R T S" using d skip assms(3,7) by (simp add: flow_def)
    then show ?thesis using same(2) by auto
  next
    case takes
    have R: "Suc R \<le> length ?H" using takes(2) w(3) by simp
    have "data_wire ?H (Suc R) (Suc j) T (wire (th_ep a))"
      by (rule data_wire_accept [OF d(5) assms(3,4) takes(2)])
    moreover have "ack_wire m base (Suc R) (nd_pos a) S (wire e)"
      using ack_wire_accept [OF d(6), of "Suc R"] assms(7) by simp
    ultimately have "flow d m a ?b base (Suc R) T S"
      using d takes(1) R by (simp add: flow_def)
    moreover have "ucast (seq_num (packet_header ?p)) = next_rx_seq (th_ep b)"
      "frame_type (packet_header ?p) \<noteq> TYPE_ACKONLY"
      using takes(3,4) f(1) by (simp_all add: frame_seq_def is_ackonly_frame_def)
    moreover have "?H ! R \<in> set ?H" using R by simp
    then have "set (key_blocks (?H ! R)) \<subseteq> set (concat (map key_blocks ?H))" by auto
    ultimately show ?thesis using takes(5) by (auto simp: s(2))
  qed
  then show "\<exists>R'. flow d m a ?b base R' T S \<and>
      (R' = R \<or> R' = Suc R \<and> ucast (seq_num (packet_header ?p)) = next_rx_seq (th_ep b) \<and>
         frame_type (packet_header ?p) \<noteq> TYPE_ACKONLY)"
    "\<exists>bs. cq_list (tl_msg_buffer e) = cq_list (tl_msg_buffer (th_ep b)) @ bs \<and>
       set bs \<subseteq> Block ` set (nd_msgs a)" by simp_all
qed

text \<open>A node takes the packet at place \<open>j\<close> of its peer's wire: its window slides over what the packet
  acknowledges.\<close>

lemma flow_receive_acks:
  assumes "flow d m a b base R T S" "node_inv a" "nd_pos a \<le> j" "j < length (wire (th_ep b))"
    and "header f = packet_header (wire (th_ep b) ! j)" "rx_result (th_ep a) f n e"
  shows "\<exists>base'. flow d m (received a j e) b base' R T S \<and> base \<le> base' \<and> base' \<le> max base R"
    "wire e = wire (th_ep a)"
proof -
  let ?H = "nd_hist a" and ?e = "th_ep a"
  have d: "sender m a base" "receiver m b ?H R" "base \<le> R + d" "R \<le> length ?H"
    "data_wire ?H R (nd_pos b) T (wire ?e)" "ack_wire m base R (nd_pos a) S (wire (th_ep b))" "d \<le> 1"
    using assms(1) by (simp_all add: flow_def)
  have wf: "ep_wf ?e" using assms(2) by (simp add: node_inv_def)
  have w: "base \<le> Suc (S ! j)" "S ! j \<le> R" "ack_packet m (S ! j) (wire (th_ep b) ! j)"
    using d(6) assms(3,4) by (auto simp: ack_wire_def list_all_length)
  obtain i where i: "frame_seq_ack f = seq_of (m + i)" "i \<le> S ! j" "S ! j \<le> i + 1048576"
    using w(3) assms(5) by (auto simp: ack_packet_def old_ack_def frame_seq_ack_def)
  have "ack (header f) = 1" using w(3) assms(5) by (simp add: ack_packet_def)
  then show wire: "wire e = wire ?e"
    using assms(6) by (simp add: rx_result_def nak_packets_def)
  have e: "next_tx_seq e = next_tx_seq ?e" "window_keys e = map rbe_key (unacked ?e f)"
    using assms(6) by (simp_all add: rx_result_def rx_keeps_def)
  have s: "base \<le> length ?H" "next_tx_seq ?e = seq_of (Suc (m + length ?H))"
    "window_keys ?e = drop base ?H"
    using d(1) by (simp_all add: sender_def)
  have k: "length (cq_list (retransmit_buffer ?e)) = length ?H - base" "length ?H \<le> base + 4"
    using sender_window [OF d(1) wf] by simp_all
  have "unacked ?e f = drop (Suc (m + i) - (Suc (m + length ?H) - (length ?H - base)))
      (cq_list (retransmit_buffer ?e))"
    unfolding unacked_def
    by (rule slide_window_index [OF wf s(2) k(1) _ i(1)]) (use i(2,3) k(2) w(1,2) d(4) in linarith)+
  moreover have "Suc (m + i) - (Suc (m + length ?H) - (length ?H - base)) = i - base"
    using s(1) by simp
  ultimately have "unacked ?e f = drop (i - base) (cq_list (retransmit_buffer ?e))" by (simp only:)
  then have "window_keys e = drop (i - base) (window_keys ?e)"
    unfolding e(2) by (simp only: window_keys_def drop_map)
  then have "window_keys e = drop (i - base) (drop base ?H)" by (simp only: s(3))
  then have "window_keys e = drop (max base i) ?H" by (simp add: max_def)
  then have "sender m (received a j e) (max base i)"
    using d(1,4) e(1) i(2) w(2) by (simp add: sender_def)
  moreover have "ack_wire m (max base i) R (Suc j) S (wire (th_ep b))"
    by (rule ack_wire_slide [OF d(6) assms(3,4) i(2)])
  ultimately have "flow d m (received a j e) b (max base i) R T S"
    using d(2-5,7) i(2) w(2) wire by (simp add: flow_def)
  moreover have "base \<le> max base i" "max base i \<le> max base R" using i(2) w(2) by simp_all
  ultimately show "\<exists>base'. flow d m (received a j e) b base' R T S \<and> base \<le> base' \<and> base' \<le> max base R"
    by blast
qed

text \<open>The same for the invariant without its witnesses.\<close>

lemma direction_quiet:
  assumes "direction d m a b" "same_link (th_ep a) (th_ep a')" "same_link (th_ep b) (th_ep b')"
    and "nd_hist a' = nd_hist a" "nd_msgs a' = nd_msgs a" "nd_pos a' = nd_pos a"
    and "nd_got b' = nd_got b" "nd_pos b' = nd_pos b"
  shows "direction d m a' b'"
  using assms(1) flow_quiet [OF _ assms(2-)] unfolding direction_def by blast

lemma direction_transmit:
  assumes "direction d m a b" "node_inv a" "env_ok env" "rbe_alloc env"
    and "TX env (th_ep a) (th_request a) = Inr (e, r)"
  shows "direction d m (transmitted a e r) b"
  using assms(1) flow_transmit(1) [OF _ assms(2-)] unfolding direction_def by blast

lemma direction_transmit_acks:
  assumes "direction d m a b" "node_inv b" "env_ok env" "rbe_alloc env"
    and "TX env (th_ep b) (th_request b) = Inr (e, r)"
  shows "direction d m a (transmitted b e r)"
  using assms(1) flow_transmit_acks [OF _ assms(2-)] unfolding direction_def by blast

lemma direction_receive:
  assumes "direction d m a b" "node_inv b" "nd_pos b \<le> j" "j < length (wire (th_ep a))"
    and "RX True (int (length (wire (th_ep a) ! j)), wire (th_ep a) ! j @ junk) (th_ep b) = Inr e"
    and "acks_recent e" "wire e = wire (th_ep b)" "ep_wf (th_ep a)"
  shows "direction d m a (received b j e)"
    "\<exists>bs. cq_list (tl_msg_buffer e) = cq_list (tl_msg_buffer (th_ep b)) @ bs \<and>
       set bs \<subseteq> Block ` set (nd_msgs a)"
  by (meson assms(1) direction_def flow_receive(1) [OF _ assms(2-)])
    (meson assms(1) direction_def flow_receive(2) [OF _ assms(2-)])

lemma direction_receive_acks:
  assumes "direction d m a b" "node_inv a" "nd_pos a \<le> j" "j < length (wire (th_ep b))"
    and "header f = packet_header (wire (th_ep b) ! j)" "rx_result (th_ep a) f n e"
  shows "direction d m (received a j e) b" "wire e = wire (th_ep a)"
  by (meson assms(1) direction_def flow_receive_acks(1) [OF _ assms(2-)])
    (meson assms(1) direction_def flow_receive_acks(2) [OF _ assms(2-)])

section \<open>The invariant of the link\<close>

definition link_inv :: "nat \<Rightarrow> node \<Rightarrow> node \<Rightarrow> bool" where
  "link_inv d a b \<longleftrightarrow> (\<exists>m. direction d m a b) \<and> (\<exists>m. direction d m b a) \<and> node_inv a \<and> node_inv b"

lemma link_inv_sym: "link_inv d a b \<longleftrightarrow> link_inv d b a"
  by (auto simp: link_inv_def)

lemma direction_packet:
  assumes "direction d m a b" "nd_pos b \<le> j" "j < length (wire (th_ep a))"
  obtains t where "data_packet (nd_hist a) t (wire (th_ep a) ! j)"
    "\<And>i. i < length (nd_hist a) \<Longrightarrow> key_ok (Suc (m + i)) (nd_hist a ! i)"
    "list_all deliverable (nd_msgs a)"
proof -
  obtain base R T where "sender m a base" "data_wire (nd_hist a) R (nd_pos b) T (wire (th_ep a))"
    using assms(1) by (auto simp: direction_def flow_def)
  then show thesis using assms(2,3) by (intro that [of "T ! j"]) (simp_all add: sender_def data_wire_def)
qed

lemma link_inv_receive:
  assumes "link_inv d a b" "nd_pos b \<le> j" "j < length (wire (th_ep a))"
    and "RX True (int (length (wire (th_ep a) ! j)), wire (th_ep a) ! j @ junk) (th_ep b) = Inr e"
    and "acks_recent e"
  shows "link_inv d a (received b j e)"
proof -
  let ?p = "wire (th_ep a) ! j" and ?H = "nd_hist a" and ?b = "received b j e"
  obtain m m' where d: "direction d m a b" "direction d m' b a" and inv: "node_inv a" "node_inv b"
    using assms(1) by (auto simp: link_inv_def)
  obtain t where t: "data_packet ?H t ?p" "\<And>i. i < length ?H \<Longrightarrow> key_ok (Suc (m + i)) (?H ! i)"
    and del: "list_all deliverable (nd_msgs a)"
    by (rule direction_packet [OF d(1) assms(2,3)]) blast
  obtain f where f: "header f = packet_header ?p" "ep_wf e" "rx_result (th_ep b) f (int (length ?p)) e"
    by (rule packet_received [OF inv(2) t assms(4)]) blast+
  note acks = direction_receive_acks [OF d(2) inv(2) assms(2,3) f(1,3)]
  have "ep_wf (th_ep a)" using inv(1) by (simp add: node_inv_def)
  note rx = direction_receive [OF d(1) inv(2) assms(2-5) acks(2) this]
  obtain bs where bs: "cq_list (tl_msg_buffer e) = cq_list (tl_msg_buffer (th_ep b)) @ bs"
    "set bs \<subseteq> Block ` set (nd_msgs a)" using rx(2) by blast
  have "list_all (\<lambda>b. \<exists>x. b = Block x \<and> deliverable x) bs"
    using bs(2) del unfolding list_all_iff by blast
  then have "list_all (\<lambda>b. \<exists>x. b = Block x \<and> deliverable x) (cq_list (tl_msg_buffer e))"
    unfolding bs(1) using inv(2) by (simp add: node_inv_def)
  moreover have "message_buffer e = message_buffer (th_ep b)"
    "response_buffer e = response_buffer (th_ep b)" "ep_fabric e = ep_fabric (th_ep b)"
    using f(3) by (simp_all add: rx_result_def rx_keeps_def)
  ultimately have "node_inv ?b" using inv(2) f(2) by (simp add: node_inv_def fabric_up_def)
  then show ?thesis using acks(1) rx(1) inv(1) by (auto simp: link_inv_def)
qed

lemma link_inv_quiet:
  assumes "link_inv d a b" "same_link (th_ep b) (th_ep b')" "node_inv b'"
    and "nd_hist b' = nd_hist b" "nd_msgs b' = nd_msgs b" "nd_pos b' = nd_pos b" "nd_got b' = nd_got b"
  shows "link_inv d a b'"
proof -
  obtain m m' where d: "direction d m a b" "direction d m' b a" "node_inv a"
    using assms(1) by (auto simp: link_inv_def)
  have "direction d m a b'" by (rule direction_quiet [OF d(1) same_link_refl assms(2)]) (simp_all add: assms)
  moreover have "direction d m' b' a"
    by (rule direction_quiet [OF d(2) assms(2) same_link_refl]) (simp_all add: assms)
  ultimately show ?thesis using d(3) assms(3) by (auto simp: link_inv_def)
qed

lemma link_inv_step:
  assumes "link_inv d a b" "node_step (wire (th_ep a)) b b'" "acks_recent (th_ep b')"
  shows "link_inv d a b'"
proof -
  have inv: "node_inv b" using assms(1) by (simp add: link_inv_def)
  from assms(2) show ?thesis
  proof cases
    case (select c e r)
    then show ?thesis using select_returned [OF inv] by (intro link_inv_quiet [OF assms(1)]) simp_all
  next
    case (clock t)
    then show ?thesis using inv
      by (intro link_inv_quiet [OF assms(1)])
        (simp_all add: same_link_def node_inv_def ep_wf_def fabric_up_def)
  next
    case (transmit env e r)
    then have b': "b' = transmitted b e r" by (simp add: transmitted_def)
    obtain m m' where d: "direction d m a b" "direction d m' b a"
      using assms(1) by (auto simp: link_inv_def)
    then obtain base where "sender m' b base" by (auto simp: direction_def flow_def)
    from sender_transmit(2) [OF this inv transmit(2-4)]
    show ?thesis
      using direction_transmit_acks [OF d(1) inv transmit(2-4)]
        direction_transmit [OF d(2) inv transmit(2-4)] assms(1)
      by (auto simp: link_inv_def b')
  next
    case (receive j junk e)
    then show ?thesis
      using link_inv_receive [OF assms(1) receive(2,3)] assms(3) by (simp add: received_def)
  next
    case (serve e mem)
    then show ?thesis using serve_step_returned [OF inv] by (intro link_inv_quiet [OF assms(1)]) simp_all
  next
    case (user m e ok)
    then show ?thesis using user_returned [OF inv] by (intro link_inv_quiet [OF assms(1)]) simp_all
  qed
qed

lemma direction_start:
  assumes "node_start a (wire (th_ep b))" "node_start b (wire (th_ep a))"
    and "next_tx_seq (th_ep a) = next_rx_seq (th_ep b)"
  shows "direction 0 (unat (next_tx_seq (th_ep a)) + 4194303) a b"
proof -
  let ?m = "unat (next_tx_seq (th_ep a)) + 4194303"
  have "seq_ok (next_tx_seq (th_ep a))" using assms(1) ep_wfD(9) by (simp add: node_start_def)
  then have "next_tx_seq (th_ep a) = seq_of (unat (next_tx_seq (th_ep a)))" by (rule seq_of_surj)
  also have "\<dots> = seq_of (Suc ?m)" by (simp add: seq_of_def)
  finally have seq: "next_tx_seq (th_ep a) = seq_of (Suc ?m)" .
  have "flow 0 ?m a b 0 0 (replicate (length (wire (th_ep a))) 0) (replicate (length (wire (th_ep b))) 0)"
    unfolding flow_def
  proof (intro conjI)
    show "sender ?m a 0" using assms(1) seq by (simp add: sender_def node_start_def window_keys_def)
    show "receiver ?m b (nd_hist a) 0"
      using assms seq by (simp add: receiver_def node_start_def)
    show "data_wire (nd_hist a) 0 (nd_pos b) (replicate (length (wire (th_ep a))) 0) (wire (th_ep a))"
      using assms by (auto simp: data_wire_def node_start_def list_all_iff sorted_replicate)
    show "ack_wire ?m 0 0 (nd_pos a) (replicate (length (wire (th_ep b))) 0) (wire (th_ep b))"
      using assms by (auto simp: ack_wire_def node_start_def list_all_iff sorted_replicate)
  qed simp_all
  then show ?thesis by (rule directionI)
qed

lemma link_inv_start:
  assumes "link_start l"
  shows "link_inv 0 (left l) (right l)"
proof -
  have n: "node_start (left l) (wire (th_ep (right l)))" "node_start (right l) (wire (th_ep (left l)))"
    "next_tx_seq (th_ep (left l)) = next_rx_seq (th_ep (right l))"
    "next_tx_seq (th_ep (right l)) = next_rx_seq (th_ep (left l))"
    using assms by (simp_all add: link_start_def)
  have "node_inv s" if "node_start s W" for s W
    using that by (simp add: node_start_def node_inv_def)
  then show ?thesis
    using direction_start [OF n(1,2,3)] direction_start [OF n(2,1,4)] n(1,2)
    unfolding link_inv_def by blast
qed

lemma link_inv_steps:
  assumes "link_step\<^sup>*\<^sup>* l0 l" "link_inv d (left l0) (right l0)"
  shows "link_inv d (left l) (right l)"
  using assms
proof (induction rule: rtranclp_induct)
  case (step l l')
  then have inv: "link_inv d (left l) (right l)" by simp
  from step.hyps(2) show ?case
  proof cases
    case (left n)
    then show ?thesis using link_inv_step [of d "right l" "left l" n] inv by (simp add: link_inv_sym)
  next
    case (right n)
    then show ?thesis using link_inv_step [OF inv] by simp
  qed
qed

lemma link_inv_run:
  assumes "link_step\<^sup>*\<^sup>* l0 l" "link_start l0"
  shows "link_inv 0 (left l) (right l)"
  by (rule link_inv_steps [OF assms(1) link_inv_start [OF assms(2)]])

lemma direction_prefix:
  assumes "direction d m a b"
  shows "prefix (nd_got b) (map Block (nd_msgs a))"
proof -
  obtain base R where "sender m a base" "receiver m b (nd_hist a) R"
    using assms by (auto simp: direction_def flow_def)
  then have "nd_got b = concat (map key_blocks (take R (nd_hist a)))"
    "concat (map key_blocks (nd_hist a)) = map Block (nd_msgs a)"
    by (simp_all add: sender_def receiver_def)
  then show ?thesis
    by (metis append_take_drop_id concat_append map_append prefixI)
qed

lemma link_inv_prefix:
  assumes "link_inv d a b"
  shows "prefix (nd_got b) (map Block (nd_msgs a)) \<and> prefix (nd_got a) (map Block (nd_msgs b))"
  using assms direction_prefix by (auto simp: link_inv_def)

section \<open>The endpoint thread takes these steps\<close>

text \<open>One iteration of \<open>tloe_endpoint\<close> that receives nothing, or the next packet that was not lost, is
  a run of the steps above.\<close>

lemma iteration_is_run:
  assumes "tloe_iteration env (thread.truncate s) = Inr t" "env_ok (it_tx env)" "rbe_alloc (it_tx env)"
    and "\<not> it_rx_alloc env \<or> fst (it_recv env) < 0 \<or>
      it_recv env = (int (length (W ! j)), W ! j @ junk) \<and> nd_pos s \<le> j \<and> j < length W"
  shows "\<exists>s'. (node_step W)\<^sup>*\<^sup>* s s' \<and> thread.truncate s' = t"
proof -
  have mem: "th_mem (thread.truncate s) = th_mem s" by (simp add: thread.truncate_def)
  obtain c e r where ch: "choose_step env (thread.truncate s) = (c, e, r)"
    by (cases "choose_step env (thread.truncate s)")
  obtain e1 r1 where tx: "TX (it_tx env) e r = Inr (e1, r1)"
    using assms(1) by (auto simp: tloe_iteration_steps ch bindR_Inr_iff)
  obtain e2 where rx: "RX (it_rx_alloc env) (it_recv env) e1 = Inr e2"
    using assms(1) by (auto simp: tloe_iteration_steps ch tx bindR_Inr_iff)
  obtain e3 mem where sv: "serve_step e2 (th_mem s) = Inr (e3, mem)"
    "t = \<lparr>th_ep = e3, th_mem = mem, th_counter = c, th_request = r1\<rparr>"
    using assms(1)
    by (auto simp: tloe_iteration_steps ch tx rx bindR_Inr_iff mem)
  let ?s0 = "s\<lparr>th_ep := e, th_counter := c, th_request := r\<rparr>"
  have chosen: "(node_step W)\<^sup>*\<^sup>* s ?s0"
  proof (cases "th_request s")
    case None
    obtain ec where ec: "select_buffer (th_counter s) (th_ep s) = (c, ec, r)"
      "e = ec\<lparr>iteration_ts := it_now env\<rparr>"
      using ch None by (auto simp: choose_step_def thread.truncate_def split: prod.splits)
    have "node_step W s (s\<lparr>th_ep := ec, th_counter := c, th_request := r\<rparr>)"
      by (rule node_step.select [OF None ec(1)])
    moreover have "?s0 = s\<lparr>th_ep := ec, th_counter := c, th_request := r,
        th_ep := ec\<lparr>iteration_ts := it_now env\<rparr>\<rparr>"
      by (cases s) (simp add: ec(2))
    then have "node_step W (s\<lparr>th_ep := ec, th_counter := c, th_request := r\<rparr>) ?s0"
      using node_step.clock [of W "s\<lparr>th_ep := ec, th_counter := c, th_request := r\<rparr>" "it_now env"]
      by simp
    ultimately show ?thesis by (simp add: converse_rtranclp_into_rtranclp)
  next
    case (Some m)
    then have "?s0 = s\<lparr>th_ep := (th_ep s)\<lparr>iteration_ts := it_now env\<rparr>\<rparr>"
      using ch by (auto simp: choose_step_def thread.truncate_def)
    then show ?thesis using node_step.clock [of W s "it_now env"] by (simp add: r_into_rtranclp)
  qed
  obtain s1 where s1: "node_step W ?s0 s1" "th_ep s1 = e1" "th_mem s1 = th_mem s" "th_counter s1 = c"
    "th_request s1 = r1" "nd_pos s1 = nd_pos s"
    using node_step.transmit [OF assms(2,3), of ?s0 e1 r1 W] tx by auto
  obtain s2 where s2: "(node_step W)\<^sup>*\<^sup>* s1 s2" "th_ep s2 = e2" "th_mem s2 = th_mem s"
    "th_counter s2 = c" "th_request s2 = r1"
  proof (cases "\<not> it_rx_alloc env \<or> fst (it_recv env) < 0")
    case True
    then have "e2 = e1" using rx by (auto simp: RX_def tloe_fabric_recv_def split: prod.splits if_splits)
    then show ?thesis using that [of s1] s1 by simp
  next
    case False
    then have j: "it_recv env = (int (length (W ! j)), W ! j @ junk)" "nd_pos s1 \<le> j" "j < length W"
      "RX True (int (length (W ! j)), W ! j @ junk) (th_ep s1) = Inr e2"
      using assms(4) rx s1 by auto
    have "node_step W s1 (received s1 j e2)"
      unfolding received_def by (rule node_step.receive [OF j(2-4)])
    then show ?thesis by (intro that [OF r_into_rtranclp, of "received s1 j e2"]) (simp_all add: s1)
  qed
  have "node_step W s2 (s2\<lparr>th_ep := e3, th_mem := mem\<rparr>)"
    by (rule node_step.serve) (simp add: s2 sv(1))
  then have "(node_step W)\<^sup>*\<^sup>* s (s2\<lparr>th_ep := e3, th_mem := mem\<rparr>)"
    using chosen s1(1) s2(1) by (meson rtranclp.rtrancl_into_rtrancl rtranclp_trans)
  moreover have "thread.truncate (s2\<lparr>th_ep := e3, th_mem := mem\<rparr>) = t"
    by (simp add: thread.truncate_def sv(2) s2)
  ultimately show ?thesis by blast
qed

section \<open>Properties\<close>

text \<open>C1: In-order delivery.  Two connected endpoints exchange messages, each running the phases of the
  endpoint thread in any order and number, while the network loses packets: the blocks that the
  receiver of one side ever hands to its TileLink handler are, in order and without a gap, the
  first of the messages that the transmitter of the other side ever took; nothing is duplicated,
  reordered or changed.  The steps allow only states in which no entry of an ack buffer is older than
  \<open>2 ^ 20\<close> frames.\<close>

theorem link_in_order:
  assumes "link_start l0" "link_step\<^sup>*\<^sup>* l0 l"
  shows "prefix (nd_got (right l)) (map Block (nd_msgs (left l))) \<and>
    prefix (nd_got (left l)) (map Block (nd_msgs (right l)))"
  by (rule link_inv_prefix [OF link_inv_run [OF assms(2,1)]])

definition example_node :: node where
  "example_node = \<lparr>th_ep = example_endpoint, th_mem = Some (\<lambda>_. 0), th_counter = 4, th_request = None,
     nd_pos = 0, nd_hist = [], nd_msgs = [], nd_got = []\<rparr>"

definition example_link :: link where
  "example_link = \<lparr>left = example_node, right = example_node\<rparr>"

lemma example_link_start: "link_start example_link"
  using example_wf example_queues(9)
  by (simp add: link_start_def node_start_def example_link_def example_node_def)

lemma example_acks_recent: "acks_recent e" if "cq_list (ack_buffer e) = []"
  using that by (simp add: acks_recent_def)

lemma example_write_deliverable: "deliverable example_write" "msg_ok example_write"
proof -
  have h: "header_bytes (tl_hdr example_write) = 16" "data_bytes (tl_hdr example_write) = 8"
    by (simp_all add: example_write_def header_bytes_def data_bytes_def carries_data_def
        tl_header_zero_def tl_header_of_word_def)
  then show "msg_ok example_write"
    by (simp add: msg_ok_def tlmsg_get_total_size_eq) (simp add: example_write_def)
  then show "deliverable example_write"
    using h example_access(2) by (simp add: deliverable_def tlmsg_get_total_size_eq)
      (simp add: example_write_def)
qed

text \<open>A node sends a message, without receiving anything.\<close>

abbreviation "quiet_step s s' \<equiv> node_step [] s s' \<and> acks_recent (th_ep s')"

lemma example_node_sends:
  obtains n where "quiet_step\<^sup>*\<^sup>* example_node n" "nd_msgs n = [example_write]"
    "\<exists>j. j < length (wire (th_ep n)) \<and> length (nd_hist n) = 1 \<and>
       wire (th_ep n) ! j = frame_packet (snd (nd_hist n ! 0)) (fst (nd_hist n ! 0))"
proof -
  have q0: "cq_list (message_buffer example_endpoint) = []" "cq_cap (message_buffer example_endpoint) = 4"
    by simp_all
  obtain q where q: "enqueue_message example_endpoint example_write = Inr (example_endpoint\<lparr>message_buffer := q\<rparr>, True)"
    "cq_list q = [example_write]" "ep_wf (example_endpoint\<lparr>message_buffer := q\<rparr>)"
    using enqueue_message_ok [OF example_wf, of example_write] q0 by auto
  let ?e1 = "example_endpoint\<lparr>message_buffer := q\<rparr>"
  have u: "node_step [] example_node (example_node\<lparr>th_ep := ?e1\<rparr>)"
    by (rule node_step.user [OF example_write_deliverable(1)]) (simp add: example_node_def q(1))
  obtain q2 where q2: "select_buffer 4 ?e1 = (4, ?e1\<lparr>message_buffer := q2\<rparr>, Some example_write)" "cq_inv q2"
    using q(3)
  proof (cases rule: select_buffer_cases [where c = 4])
    case (message q')
    then show ?thesis using that [of q'] getfront_eq [OF ep_wfD(3) [OF q(3)]] q(2) by simp
  qed simp
  let ?e2 = "?e1\<lparr>message_buffer := q2\<rparr>"
  let ?n2 = "example_node\<lparr>th_ep := ?e2, th_counter := 4, th_request := Some example_write\<rparr>"
  have s: "node_step [] (example_node\<lparr>th_ep := ?e1\<rparr>) ?n2"
    using node_step.select [of "example_node\<lparr>th_ep := ?e1\<rparr>" 4 ?e2 "Some example_write" "[]"] q2(1)
    by (simp add: example_node_def)
  have wf: "ep_wf ?e2" using q(3) q2(2) by (simp add: ep_wf_def)
  obtain e r where t: "TX example_env ?e2 (Some example_write) = Inr (e, r)"
    "tx_result ?e2 (Some example_write) e r"
    by (rule TX_ok [OF example_env_ok wf, of "Some example_write"])
      (use example_write_deliverable(2) in simp_all)
  have "fc_inv (ep_fc ?e2)" using example_fc_inv by simp
  moreover have "unat (tl_chan (tl_hdr example_write)) = 1" by (simp add: example_write_def)
  moreover have "tlmsg_get_flits_cnt (tl_hdr example_write) = 3"
    by (simp add: tlmsg_get_flits_cnt_eq example_write_def header_bytes_def data_bytes_def carries_data_def
        tl_header_zero_def tl_header_of_word_def)
  ultimately have "\<exists>fc. fc_credit_dec (ep_fc ?e2) example_write = Inr (fc, 3)"
    using dec_spec [of "ep_fc ?e2" example_write 1] by (simp add: Let_def)
  then have sent: "tx_sent ?e2 e (Some example_write)" "r = None"
    using t(2) example_not_full by (auto simp: tx_result_def)
  obtain el where el: "window_keys e = [rbe_key el]" "frame_packet (rbe_frame el) (f_size el) \<in> set (wire e)"
    using sent(1) example_queues(9) by (auto simp: tx_sent_def fabric_up_def window_keys_def)
  let ?n = "transmitted ?n2 e r"
  have x: "node_step [] ?n2 ?n"
    unfolding transmitted_def by (rule node_step.transmit [OF example_env_ok]) (use t(1) in simp)
  have n: "nd_msgs ?n = [example_write]" "nd_hist ?n = [rbe_key el]" "th_ep ?n = e"
    using el(1) sent(2) by (simp_all add: transmitted_def example_node_def window_keys_def)
  have acks: "cq_list (ack_buffer e) = []" using sent(1) by (simp add: tx_sent_def)
  have "quiet_step example_node (example_node\<lparr>th_ep := ?e1\<rparr>)" using u by (simp add: example_acks_recent)
  moreover have "quiet_step (example_node\<lparr>th_ep := ?e1\<rparr>) ?n2" using s by (simp add: example_acks_recent)
  moreover have "quiet_step ?n2 ?n" using x n(3) acks by (simp add: example_acks_recent)
  ultimately have "quiet_step\<^sup>*\<^sup>* example_node ?n"
    by (metis (no_types, lifting) converse_rtranclp_into_rtranclp rtranclp.rtrancl_refl)
  then show thesis
    using n el(2) by (intro that) (auto simp: in_set_conv_nth rbe_key_def)
qed

lemma example_left_runs:
  assumes "quiet_step\<^sup>*\<^sup>* example_node n"
  shows "link_step\<^sup>*\<^sup>* example_link (example_link\<lparr>left := n\<rparr>)"
  using assms
proof (induction rule: rtranclp_induct)
  case base
  then show ?case by (simp add: example_link_def)
next
  case (step s s')
  have "wire (th_ep (right example_link)) = []" by (simp add: example_link_def example_node_def)
  then have "link_step (example_link\<lparr>left := s\<rparr>) (example_link\<lparr>left := s'\<rparr>)"
    using link_step.left [of "example_link\<lparr>left := s\<rparr>" s'] step.hyps(2) by simp
  then show ?case using step.IH by simp
qed

text \<open>The right node takes a frame that it expects.\<close>

lemma example_right_receives:
  assumes "key_ok (Suc m) k" "key_blocks k = [Block x]" "next_rx_seq example_endpoint = seq_of (Suc m)"
  obtains e where "RX True (int (length (frame_packet (snd k) (fst k))), frame_packet (snd k) (fst k) @ [])
      example_endpoint = Inr e" "cq_list (tl_msg_buffer e) = [Block x]" "cq_list (ack_buffer e) = []"
    "0 < length (frame_packet (snd k) (fst k))" "length (frame_packet (snd k) (fst k)) \<le> 528"
proof -
  let ?f = "snd k" and ?n = "fst k"
  have f: "with_ack ?f (seq_num_ack (header ?f)) = ?f"
    using assms(1) by (simp add: key_ok_def with_ack_same)
  have rx: "rx_packet (?n, frame_packet ?f ?n @ []) ?f" "int (length (frame_packet ?f ?n)) = ?n"
    using key_received(1) [OF assms(1), where a = "seq_num_ack (header ?f)" and junk = "[]"]
      key_received(2) [OF assms(1), where a = "seq_num_ack (header ?f)"]
    unfolding f by simp_all
  have k: "frame_readable ?f ?n" "\<not> is_ackonly_frame ?f" "frame_seq ?f = seq_of (Suc m)"
    using assms(1) by (simp_all add: key_ok_def is_ackonly_frame_def)
  then have ty: "tloe_rx_get_req_type example_endpoint ?f = REQ_NORMAL"
    using assms(3) by (simp only: rx_normal_seq)
  then have room: "rx_room example_endpoint ?f ?n"
    using assms(2) by (simp add: rx_room_def key_blocks_def)
  obtain e where e: "RX True (?n, frame_packet ?f ?n @ []) example_endpoint = Inr e"
    "rx_result example_endpoint ?f ?n e"
    by (rule RX_ok [OF example_wf example_queues(9) rx(1)]) (use k(1) room in simp_all)
  have "rx_takes example_endpoint ?f ?n e"
    using e(2) k(2) ty by (simp add: rx_result_def rx_kind_def)
  moreover have "16 \<le> ?n" "?n \<le> 528" using assms(1) by (simp_all add: key_ok_def)
  then have "0 < length (frame_packet ?f ?n)" "length (frame_packet ?f ?n) \<le> 528"
    using rx(2) by linarith+
  ultimately show thesis
    using e(1) rx(2) assms(2) by (intro that [of e]) (simp_all add: rx_takes_def key_blocks_def)
qed

lemma example_delivery:
  obtains n j e where "quiet_step\<^sup>*\<^sup>* example_node n"
    "link_step\<^sup>*\<^sup>* example_link (example_link\<lparr>left := n\<rparr>)" "nd_msgs n = [example_write]"
    "j < length (wire (th_ep n))" "0 < length (wire (th_ep n) ! j)" "length (wire (th_ep n) ! j) \<le> 528"
    "RX True (int (length (wire (th_ep n) ! j)), wire (th_ep n) ! j @ []) example_endpoint = Inr e"
    "cq_list (tl_msg_buffer e) = [Block example_write]" "cq_list (ack_buffer e) = []"
proof -
  obtain n where n0: "quiet_step\<^sup>*\<^sup>* example_node n" "nd_msgs n = [example_write]"
    "\<exists>j. j < length (wire (th_ep n)) \<and> length (nd_hist n) = 1 \<and>
       wire (th_ep n) ! j = frame_packet (snd (nd_hist n ! 0)) (fst (nd_hist n ! 0))"
    by (rule example_node_sends)
  then obtain j where n: "quiet_step\<^sup>*\<^sup>* example_node n" "nd_msgs n = [example_write]"
    "j < length (wire (th_ep n))" "length (nd_hist n) = 1"
    "wire (th_ep n) ! j = frame_packet (snd (nd_hist n ! 0)) (fst (nd_hist n ! 0))"
    by blast
  note run = example_left_runs [OF n(1)]
  obtain k where k: "nd_hist n = [k]" using n(4) by (cases "nd_hist n") auto
  have "link_inv 0 n example_node" using link_inv_run [OF run example_link_start] by (simp add: example_link_def)
  then obtain m base R where d: "sender m n base" "receiver m example_node [k] R" "R \<le> 1"
    using k by (auto simp: link_inv_def direction_def flow_def)
  have s: "key_ok (Suc m) k" "key_blocks k = [Block example_write]"
    using d(1) n(2) k by (simp_all add: sender_def)
  have "R = 0" using d(2,3) s(2) by (cases R) (simp_all add: receiver_def example_node_def)
  then have "next_rx_seq example_endpoint = seq_of (Suc m)"
    using d(2) by (simp add: receiver_def example_node_def)
  from example_right_receives [OF s this] obtain e where
    "RX True (int (length (wire (th_ep n) ! j)), wire (th_ep n) ! j @ []) example_endpoint = Inr e"
    "cq_list (tl_msg_buffer e) = [Block example_write]" "cq_list (ack_buffer e) = []"
    "0 < length (wire (th_ep n) ! j)" "length (wire (th_ep n) ! j) \<le> 528"
    unfolding n(5) k by auto
  then show thesis using n(1-3) run by (intro that)
qed

theorem link_in_order_witness:
  "\<exists>l. link_step\<^sup>*\<^sup>* example_link l \<and> nd_got (right l) = [Block example_write] \<and>
     prefix (nd_got (right l)) (map Block (nd_msgs (left l)))"
proof -
  obtain n j e where n: "link_step\<^sup>*\<^sup>* example_link (example_link\<lparr>left := n\<rparr>)" "j < length (wire (th_ep n))"
    and e: "RX True (int (length (wire (th_ep n) ! j)), wire (th_ep n) ! j @ []) example_endpoint = Inr e"
      "cq_list (tl_msg_buffer e) = [Block example_write]" "cq_list (ack_buffer e) = []"
    by (rule example_delivery)
  let ?l = "example_link\<lparr>left := n\<rparr>"
  have r: "right ?l = example_node" "left ?l = n" by (simp_all add: example_link_def)
  have "node_step (wire (th_ep n)) example_node (received example_node j e)"
    unfolding received_def by (rule node_step.receive [where junk = "[]"]) (use n(2) e(1) in \<open>simp_all add: example_node_def\<close>)
  then have "link_step ?l (?l\<lparr>right := received example_node j e\<rparr>)"
    using link_step.right [of ?l "received example_node j e"] e(3) r by (simp add: example_acks_recent)
  then have run: "link_step\<^sup>*\<^sup>* example_link (?l\<lparr>right := received example_node j e\<rparr>)" using n(1) by simp
  have "nd_got (received example_node j e) = [Block example_write]"
    using e(2) by (simp add: received_def example_node_def)
  with run link_in_order [OF example_link_start run] show ?thesis
    by (intro exI [of _ "?l\<lparr>right := received example_node j e\<rparr>"]) simp
qed

end
