(* ===== verification/Session.thy ===== *)
theory Session
  imports Link
begin

text \<open>
  From the start of the two programs to the exchange of messages.  Both users give the command \<open>c\<close>; the
  handshake of \<open>Connection\<close> leaves a state in which further offers, the master's last frame and the
  slave's ACKONLY frame are still on their way, and from which the steps of \<open>Link\<close> run.  The frames of
  the handshake are the first ones of the histories of \<open>Link\<close>.  The master's last frame is kept nowhere;
  the theory shows what is lost with it.
\<close>

section \<open>The start\<close>

lemma main_start_ready:
  assumes "main_start True True opts = Inr st"
  shows "ep_wf (th_ep st)" "conn_pending 1 (th_ep st)" "next_rx_seq (th_ep st) = 0" "th_mem st \<noteq> None"
    "cq_list (retransmit_buffer (th_ep st)) = []" "cq_list (ack_buffer (th_ep st)) = []"
    "cq_list (message_buffer (th_ep st)) = []" "cq_list (tl_msg_buffer (th_ep st)) = []"
    "cq_list (response_buffer (th_ep st)) = []"
proof -
  obtain a where a: "parse_arguments opts = Some a" using assms by (auto simp: main_start_def split: option.splits)
  obtain st' where st': "main_start True True opts = Inr st'" "thread_inv st'" "conn_pending 1 (th_ep st')"
    "next_rx_seq (th_ep st') = 0"
    by (rule main_start_ok [OF a, of True]) auto
  have "st' = st" using st'(1) assms by simp
  then show "ep_wf (th_ep st)" "conn_pending 1 (th_ep st)" "next_rx_seq (th_ep st) = 0" "th_mem st \<noteq> None"
    using st'(2-4) by (auto simp: thread_inv_def)
  obtain e0 e where e0: "tloe_endpoint_init zero_endpoint (arg_fabric a) (arg_master a) = Inr e0"
    and e: "e = fst (tloe_fabric_open (fst (tloe_fabric_init e0 (arg_fabric a))) (arg_a a) (arg_b a) True)"
      "th_ep st = e"
    using assms a by (auto simp: main_start_def bindR_Inr_iff Let_def split_beta)
  have "retransmit_buffer e = retransmit_buffer e0" "ack_buffer e = ack_buffer e0"
    "message_buffer e = message_buffer e0" "tl_msg_buffer e = tl_msg_buffer e0"
    "response_buffer e = response_buffer e0"
    unfolding e(1) by (simp_all add: tloe_fabric_open_def tloe_fabric_init_def)
  then show "cq_list (retransmit_buffer (th_ep st)) = []" "cq_list (ack_buffer (th_ep st)) = []"
    "cq_list (message_buffer (th_ep st)) = []" "cq_list (tl_msg_buffer (th_ep st)) = []"
    "cq_list (response_buffer (th_ep st)) = []"
    using e0 e(2) by (auto simp: tloe_endpoint_init_def bindR_Inr_iff)
qed

lemma RX_conn_packet:
  assumes "ep_wf e" "fabric_up e" "seq_num h = ucast (next_rx_seq e)" "frame_type h = TYPE_NORMAL"
    and "ack h = TLOE_ACK" "chan h = 0"
  obtains e' where "RX True (int (length (conn_packet h)), conn_packet h @ junk) e = Inr e'" "ep_wf e'"
    "window_keys e' = map rbe_key (unacked e (\<lparr>header = h, flits = replicate 65 0\<rparr>))"
    "wire e' = wire e" "rx_keeps e e'" "next_rx_seq e' = tloe_seqnum_next (next_rx_seq e)"
    "cq_list (tl_msg_buffer e') = cq_list (tl_msg_buffer e)" "ack_buffer e' = ack_buffer e"
proof -
  let ?g = "(zero_frame sizeof_tloe_frame)\<lparr>header := h\<rparr>"
  let ?f = "\<lparr>header = h, flits = replicate 65 0\<rparr>"
  have z: "flits (zero_frame 528) = replicate 65 0" by (simp add: zero_frame_def)
  have "take 6 (replicate 65 (0::u64)) @ replicate 59 0 = replicate 65 0"
    by (simp only: take_replicate replicate_add [symmetric]) simp
  then have p: "rx_packet (56, conn_packet h @ junk) ?f"
    using rx_packet_of_frame [of 56 6 ?g junk] by (simp add: conn_packet_def sizeof_tloe_frame_def z)
  have len: "int (length (conn_packet h)) = 56"
    unfolding conn_packet_def sizeof_tloe_frame_def by (subst length_frame_packet) simp_all
  have m: "tloe_get_mask ?f 56 = Inr 0" by (simp add: tloe_get_mask_def mask_index_def)
  then have bl: "frame_blocks ?f 56 = []" by (simp add: frame_blocks_def)
  have rd: "frame_readable ?f 56" using m assms(6) by (simp add: frame_readable_def)
  have na: "\<not> is_ackonly_frame ?f" using assms(4) by (simp add: is_ackonly_frame_def)
  have "frame_seq ?f = next_rx_seq e" using assms(1,3) by (simp add: frame_seq_def ep_wfD)
  then have ty: "tloe_rx_get_req_type e ?f = REQ_NORMAL" by (simp only: rx_normal_seq)
  then have "rx_room e ?f 56"
    using bl cq_count_le_cap [OF ep_wfD(5) [OF assms(1)]] by (simp add: rx_room_def)
  then obtain e' where e': "RX True (56, conn_packet h @ junk) e = Inr e'" "ep_wf e'" "rx_result e ?f 56 e'"
    using RX_ok [OF assms(1,2) p] rd by blast
  have t: "rx_takes e ?f 56 e'" using e'(3) na ty by (simp add: rx_result_def rx_kind_def)
  show thesis
    using e' t bl assms(5)
    by (intro that [of e']) (simp_all add: len rx_result_def rx_takes_def nak_packets_def)
qed

section \<open>The frames of the handshake\<close>

text \<open>A frame of the handshake as \<open>Link\<close> keeps it: its index is its number, it carries no message.\<close>

definition conn_key :: "4 word \<Rightarrow> nat \<Rightarrow> nat \<Rightarrow> nat \<Rightarrow> frame_key" where
  "conn_key ty i ch cr = (56, (zero_frame sizeof_tloe_frame)\<lparr>header := conn_header ty (of_nat i) 0 ch cr\<rparr>)"

lemma conn_packet_key:
  "conn_packet (conn_header ty (of_nat i) sna ch cr) =
     frame_packet (with_ack (snd (conn_key ty i ch cr)) (ucast sna)) (fst (conn_key ty i ch cr))"
  by (cases "tloe_header_of_word 0") (simp add: conn_packet_def conn_key_def with_ack_def conn_header_def)

lemma conn_key_ok:
  assumes "ty \<noteq> TYPE_ACKONLY" "ch < CHANNEL_NUM" "i < 4194304"
  shows "key_ok (Suc (4194303 + i)) (conn_key ty i ch cr)" "key_blocks (conn_key ty i ch cr) = []"
proof -
  let ?f = "snd (conn_key ty i ch cr)"
  have fl: "flits ?f = replicate 65 0" "fst (conn_key ty i ch cr) = 56"
    by (simp_all add: conn_key_def zero_frame_def sizeof_tloe_frame_def)
  have m: "tloe_get_mask ?f 56 = Inr 0" by (simp add: tloe_get_mask_def mask_index_def fl)
  have ch: "unat (chan (header ?f)) = ch"
    using assms(2) by (simp add: conn_key_def conn_header_def unat_of_nat take_bit_nat_eq_self)
  have sq: "frame_seq ?f = seq_of (Suc (4194303 + i))"
    using assms(3) small_seq(1) [of i]
    by (simp add: conn_key_def conn_header_def frame_seq_def seq_of_def)
  show "key_blocks (conn_key ty i ch cr) = []" by (simp add: key_blocks_def frame_blocks_def fl m)
  then show "key_ok (Suc (4194303 + i)) (conn_key ty i ch cr)"
    using assms(1,2) m sq ch fl
    by (simp add: key_ok_def frame_readable_def) (simp add: conn_key_def conn_header_def)
qed

definition offer_keys :: "bool \<Rightarrow> frame_key list" where
  "offer_keys opn = map (\<lambda>i. conn_key (if opn \<and> i = 0 then TYPE_OPEN_CONNECTION else TYPE_NORMAL)
     i (Suc i) CREDIT_DEFAULT) [0..<5]"

abbreviation "last_key \<equiv> conn_key TYPE_NORMAL 5 0 0"

lemma offer_keys_ok:
  assumes "i < 5"
  shows "key_ok (Suc (4194303 + i)) (offer_keys opn ! i)"
    "concat (map key_blocks (offer_keys opn)) = []" "length (offer_keys opn) = 5"
proof -
  show "length (offer_keys opn) = 5" by (simp add: offer_keys_def)
  show "key_ok (Suc (4194303 + i)) (offer_keys opn ! i)"
    using conn_key_ok(1) [where i = i and ch = "Suc i" and ty = "if opn \<and> i = 0 then 2 else 0"] assms
    by (simp add: offer_keys_def)
  show "concat (map key_blocks (offer_keys opn)) = []" by (simp add: offer_keys_def conn_key_ok(2))
qed

lemma last_key_ok: "key_ok (Suc (4194303 + 5)) last_key" "key_blocks last_key = []"
  using conn_key_ok [where i = 5 and ch = 0 and ty = 0] by simp_all

lemma offerings_less: "k < 5 \<Longrightarrow> j \<in> set (offerings opn t due k evs) \<Longrightarrow> j < 5"
proof (induction evs arbitrary: k t due)
  case (Cons ev evs)
  let ?n = "if fst (recv_ev ev) < 0 then k else Suc k"
  have "?n = 5 \<or> ?n < 5" using Cons.prems(1) by auto
  then show ?case
    using Cons.prems Cons.IH [of ?n] unfolding offerings_step
    by (auto simp: Let_def simp del: offerings.simps split: if_splits)
qed simp

text \<open>An acknowledgement sent when \<open>k\<close> frames of the handshake had arrived.\<close>

lemma handshake_ack: "k \<le> 5 \<Longrightarrow> old_ack 4194303 5 (ucast (tloe_seqnum_prev (of_nat k)))"
proof -
  assume k: "k \<le> 5"
  then have "(of_nat k :: u32) = seq_of (Suc (4194303 + k))" by (simp add: seq_of_def)
  then show "old_ack 4194303 5 (ucast (tloe_seqnum_prev (of_nat k)))"
    unfolding old_ack_def using k by (intro exI [of _ k]) (simp only: prev_seq_of_Suc, simp)
qed

lemma offer_on_wire:
  assumes "p \<in> set (offer opn (e\<lparr>next_rx_seq := of_nat k\<rparr>))" "k \<le> 5"
  shows "\<exists>i x. i < 5 \<and> p = frame_packet (with_ack (snd (offer_keys opn ! i)) x) (fst (offer_keys opn ! i)) \<and>
    ucast (seq_num (packet_header p)) = (of_nat i :: u32)" "ack_packet 4194303 5 p"
proof -
  let ?h = "\<lambda>i. conn_header (if opn \<and> i = 0 then TYPE_OPEN_CONNECTION else TYPE_NORMAL) (of_nat i)
      (tloe_seqnum_prev (of_nat k)) (Suc i) CREDIT_DEFAULT"
  have "[1..<CHANNEL_NUM] = map Suc [0..<5]" by (simp add: map_Suc_upt)
  then have "offer opn (e\<lparr>next_rx_seq := of_nat k\<rparr>) = map (\<lambda>i. conn_packet (?h i)) [0..<5]"
    by (simp only: offer_def offer_header_def map_map comp_def diff_Suc_1 endpoint.simps Suc_eq_plus1
        add_is_1 simp_thms One_nat_def [symmetric]) simp
  then obtain i where i: "i < 5" "p = conn_packet (?h i)" using assms(1) by auto
  have x: "offer_keys opn ! i = conn_key (if opn \<and> i = 0 then TYPE_OPEN_CONNECTION else TYPE_NORMAL)
      i (Suc i) CREDIT_DEFAULT" using i(1) by (simp add: offer_keys_def)
  have "p = frame_packet (with_ack (snd (offer_keys opn ! i)) (ucast (tloe_seqnum_prev (of_nat k))))
      (fst (offer_keys opn ! i))"
    unfolding i(2) x by (rule conn_packet_key)
  moreover have h: "packet_header p = conn_header (if opn \<and> i = 0 then TYPE_OPEN_CONNECTION
      else TYPE_NORMAL) (of_nat i) (tloe_seqnum_prev (of_nat k)) (Suc i) CREDIT_DEFAULT"
    unfolding i(2) conn_packet_def by simp
  ultimately show "\<exists>i x. i < 5 \<and> p = frame_packet (with_ack (snd (offer_keys opn ! i)) x) (fst (offer_keys opn ! i)) \<and>
    ucast (seq_num (packet_header p)) = (of_nat i :: u32)"
    using i(1) small_seq(1) [of i]
    by (intro exI [of _ i] exI [of _ "ucast (tloe_seqnum_prev (of_nat k))"]) (simp add: conn_header_def)
  show "ack_packet 4194303 5 p"
    using handshake_ack [OF assms(2)] by (simp add: ack_packet_def h conn_header_def)
qed

text \<open>The flow of one direction begins with a history of frames without messages.\<close>

lemma flow_begin:
  assumes "nd_hist a = H" "next_tx_seq (th_ep a) = seq_of (Suc (m + length H))"
    "cq_list (retransmit_buffer (th_ep a)) = []" "\<And>i. i < length H \<Longrightarrow> key_ok (Suc (m + i)) (H ! i)"
    "concat (map key_blocks H) = []" "nd_msgs a = []" "nd_got b = []"
    "next_rx_seq (th_ep b) = seq_of (Suc (m + R))" "cq_list (ack_buffer (th_ep b)) = []"
    "length H \<le> R + d" "d \<le> 1" "R \<le> length H"
    "\<And>p. p \<in> set (drop (nd_pos b) (wire (th_ep a))) \<Longrightarrow> data_packet H (length H) p"
    "\<And>p. p \<in> set (drop (nd_pos a) (wire (th_ep b))) \<Longrightarrow> ack_packet m R p"
  shows "flow d m a b (length H) R (replicate (length (wire (th_ep a))) (length H))
    (replicate (length (wire (th_ep b))) R)"
proof -
  have *: "ws ! p \<in> set (drop n ws)" if "n \<le> p" "p < length ws" for ws :: "byte list list" and n p
    using that by (auto simp: in_set_conv_nth intro!: exI [of _ "p - n"])
  have "concat (map key_blocks (take R H)) = []" using assms(5) by (auto dest: in_set_takeD)
  then show ?thesis
    using assms * by (simp add: flow_def sender_def receiver_def window_keys_def data_wire_def ack_wire_def
        list_all_iff sorted_replicate)
qed

section \<open>Both sides open\<close>

text \<open>The two nodes of a session: the started thread \<open>st\<close>, its endpoint \<open>e\<close> after the command \<open>c\<close>, and
  how many packets of the peer the loops of the handshake have received or could have.\<close>

definition session_node :: "thread \<Rightarrow> endpoint \<Rightarrow> nat \<Rightarrow> node" where
  "session_node st e n = \<lparr>th_ep = e, th_mem = th_mem st, th_counter = th_counter st,
     th_request = th_request st, nd_pos = n, nd_hist = [], nd_msgs = [], nd_got = []\<rparr>"

text \<open>Each loop has taken the first five packets that the other has sent.\<close>

definition session :: "thread \<Rightarrow> endpoint \<Rightarrow> thread \<Rightarrow> endpoint \<Rightarrow> link" where
  "session m m' s s' = \<lparr>left = session_node m m' (length (wire (th_ep s)) + 5),
     right = session_node s s' (length (wire (th_ep m)) + 5)\<rparr>"

definition with_hist :: "frame_key list \<Rightarrow> node \<Rightarrow> node" where
  "with_hist H n = n\<lparr>nd_hist := H @ nd_hist n\<rparr>"

lemma with_hist_simps [simp]:
  "th_ep (with_hist H n) = th_ep n" "nd_pos (with_hist H n) = nd_pos n" "nd_got (with_hist H n) = nd_got n"
  "nd_msgs (with_hist H n) = nd_msgs n" "th_mem (with_hist H n) = th_mem n"
  "th_request (with_hist H n) = th_request n" "nd_hist (with_hist H n) = H @ nd_hist n"
  by (simp_all add: with_hist_def)

text \<open>The ghosts have no influence on the steps.\<close>

lemma node_step_with_hist:
  assumes "node_step W n n'"
  shows "node_step W (with_hist H n) (with_hist H n')"
  using assms
proof cases
  case (select c e r)
  then show ?thesis using node_step.select [of "with_hist H n" c e r W] by (cases n) (simp add: with_hist_def)
next
  case (clock t)
  then show ?thesis using node_step.clock [of W "with_hist H n" t] by (cases n) (simp add: with_hist_def)
next
  case (transmit env e r)
  then show ?thesis using node_step.transmit [of env "with_hist H n" e r W] by (cases n) (simp add: with_hist_def)
next
  case (receive j junk e)
  then show ?thesis using node_step.receive [of "with_hist H n" j W junk e] by (cases n) (simp add: with_hist_def)
next
  case (serve e mem)
  then show ?thesis using node_step.serve [of "with_hist H n" e mem W] by (cases n) (simp add: with_hist_def)
next
  case (user m e ok)
  then show ?thesis using node_step.user [of m "with_hist H n" e ok W] by (cases n) (simp add: with_hist_def)
qed

definition with_hists :: "link \<Rightarrow> link" where
  "with_hists l = l\<lparr>left := with_hist (offer_keys True @ [last_key]) (left l),
     right := with_hist (offer_keys False) (right l)\<rparr>"

lemma with_hists_simps [simp]:
  "left (with_hists l) = with_hist (offer_keys True @ [last_key]) (left l)"
  "right (with_hists l) = with_hist (offer_keys False) (right l)"
  by (simp_all add: with_hists_def)

lemma link_step_with_hists:
  assumes "link_step l l'"
  shows "link_step (with_hists l) (with_hists l')"
  using assms
proof cases
  case (left n)
  then show ?thesis
    using link_step.left [of "with_hists l" "with_hist (offer_keys True @ [last_key]) n"] node_step_with_hist
    by (cases l) (simp add: with_hists_def)
next
  case (right n)
  then show ?thesis
    using link_step.right [of "with_hists l" "with_hist (offer_keys False) n"] node_step_with_hist
    by (simp add: with_hists_def)
qed

lemma link_steps_with_hists:
  "link_step\<^sup>*\<^sup>* l l' \<Longrightarrow> link_step\<^sup>*\<^sup>* (with_hists l) (with_hists l')"
  by (induction rule: rtranclp_induct) (auto intro: rtranclp.rtrancl_into_rtrancl link_step_with_hists)

text \<open>What the handshake changes.\<close>

definition opened :: "endpoint \<Rightarrow> endpoint \<Rightarrow> bool" where
  "opened e e' \<longleftrightarrow> (\<exists>w x fc a. e' = e\<lparr>wire := w, next_tx_seq := x, ep_fc := fc, next_rx_seq := 5,
     acked_seq := a, connection := True\<rparr> \<and> fc_inv fc \<and> seq_ok x \<and> (seq_ok (acked_seq e) \<longrightarrow> seq_ok a))"

lemma openedI:
  assumes "fc_inv fc" "seq_ok x" "seq_ok (acked_seq e) \<Longrightarrow> seq_ok a"
  shows "opened e (e\<lparr>wire := w, next_tx_seq := x, ep_fc := fc, next_rx_seq := 5, acked_seq := a,
     connection := True\<rparr>)"
  using assms unfolding opened_def by blast

lemma opened_ready:
  assumes "opened (th_ep st) e'" "main_start True True opts = Inr st"
  shows "ep_wf e'" "fabric_up e'" "next_rx_seq e' = 5" "cq_list (retransmit_buffer e') = []"
    "cq_list (ack_buffer e') = []" "cq_list (message_buffer e') = []" "cq_list (tl_msg_buffer e') = []"
    "cq_list (response_buffer e') = []"
proof -
  note r = main_start_ready [OF assms(2)]
  have "fabric_up (th_ep st)" using r(2) by (simp add: conn_pending_def)
  then show "fabric_up e'" using assms(1) by (auto simp: opened_def fabric_up_def)
  show "ep_wf e'" using assms(1) r(1,5) by (auto simp: opened_def ep_wf_def seq_ok_def)
  show "next_rx_seq e' = 5" "cq_list (retransmit_buffer e') = []" "cq_list (ack_buffer e') = []"
    "cq_list (message_buffer e') = []" "cq_list (tl_msg_buffer e') = []" "cq_list (response_buffer e') = []"
    using assms(1) r(5-9) by (auto simp: opened_def)
qed

text \<open>The command \<open>c\<close> on either side.\<close>

lemma slave_connects:
  assumes "main_start True True opts = Inr s" "master (th_ep s) = TYPE_SLAVE"
    "polls (cmd_events env) (offer True x)" "offerings False (cmd_start env) True 0 (cmd_events env) = ks"
    "ks \<noteq> []"
  obtains s' where "handle_user_input env (th_ep s) (th_mem s) CHR ''c'' a v i fab ms = Inr (s', th_mem s, 0)"
    "opened (th_ep s) s'" "next_tx_seq s' = 5"
    "wire s' = wire (th_ep s) @ rounds False (th_ep s) ks @ [conn_packet (closing_header 5)]"
proof -
  note r = main_start_ready [OF assms(1)]
  obtain fc b where l: "open_conn_slave (cmd_wde env) (cmd_events env) (cmd_start env) (th_ep s) =
      Inr ((th_ep s)\<lparr>wire := wire (th_ep s) @ rounds False (th_ep s) ks @ [conn_packet (closing_header 5)],
        next_tx_seq := 5, ep_fc := fc, next_rx_seq := 5, acked_seq := b\<rparr>)" "filled CHANNEL_NUM fc"
      "seq_ok (acked_seq (th_ep s)) \<Longrightarrow> seq_ok b"
    by (rule open_conn_slave_ok [OF assms(3) r(2), of "cmd_wde env" "cmd_start env"]) (use assms(4,5) in simp)
  show thesis
    by (rule that [of "(th_ep s)\<lparr>wire := wire (th_ep s) @ rounds False (th_ep s) ks @
          [conn_packet (closing_header 5)], next_tx_seq := 5, ep_fc := fc, next_rx_seq := 5, acked_seq := b,
          connection := True\<rparr>"])
      (use l assms(2) in \<open>simp_all add: handle_user_input_def openedI filled_def seq_ok_def [where n = 5]\<close>)
qed

lemma master_connects:
  assumes "main_start True True opts = Inr m" "master (th_ep m) = TYPE_MASTER"
    "polls (cmd_events env) (offer False x)"
  obtains m' js where "handle_user_input env (th_ep m) (th_mem m) CHR ''c'' a v i fab ms = Inr (m', th_mem m, 0)"
    "opened (th_ep m) m'" "next_tx_seq m' = 6" "set js \<subseteq> {..<5}"
    "wire m' = wire (th_ep m) @ offer True (th_ep m) @ rounds True (th_ep m) js @ [conn_packet last_header]"
proof -
  note r = main_start_ready [OF assms(1)]
  have "cmd_events env \<noteq> []" using assms(3) by (auto simp: offer_def)
  then obtain ev evs where ev: "cmd_events env = ev # evs" by (cases "cmd_events env") auto
  then obtain js where js: "offerings True (cmd_start env) True 0 (cmd_events env) = 0 # js"
    by (simp add: Let_def)
  have js5: "set js \<subseteq> {..<5}"
    using offerings_less [of 0 _ True "cmd_start env" True "cmd_events env"] js by auto
  have w: "rounds True (th_ep m) (0 # js) = offer True (th_ep m) @ rounds True (th_ep m) js"
    using r(3) by (simp add: rounds_def offer_def)
  obtain fc b where l: "open_conn_master (cmd_wde env) (cmd_events env) (cmd_start env) (th_ep m) =
      Inr ((th_ep m)\<lparr>wire := wire (th_ep m) @ rounds True (th_ep m) (0 # js) @ [conn_packet last_header],
        next_tx_seq := 6, ep_fc := fc, next_rx_seq := 5, acked_seq := b\<rparr>)" "filled CHANNEL_NUM fc"
      "seq_ok (acked_seq (th_ep m)) \<Longrightarrow> seq_ok b"
    by (rule open_conn_master_ok [OF assms(3) r(2,3), of "cmd_wde env" "cmd_start env"]) (use js in simp)
  show thesis
    by (rule that [of "(th_ep m)\<lparr>wire := wire (th_ep m) @ rounds True (th_ep m) (0 # js) @
          [conn_packet last_header], next_tx_seq := 6, ep_fc := fc, next_rx_seq := 5, acked_seq := b,
          connection := True\<rparr>" js])
      (use l assms(2) js5 in \<open>simp_all add: handle_user_input_def openedI filled_def seq_ok_def [where n = 6] w\<close>)
qed

lemma main_start_request: "main_start True True opts = Inr st \<Longrightarrow> th_request st = None"
  by (auto simp: main_start_def bindR_Inr_iff Let_def split_beta split: option.splits)

text \<open>What is on its way after the handshake.\<close>

lemma closing_on_wire:
  "data_packet H t (conn_packet (closing_header 5))" "ack_packet 4194303 5 (conn_packet (closing_header 5))"
  "ack_packet 4194303 5 (conn_packet last_header)"
proof -
  have len: "length (conn_packet (closing_header 5)) = 56"
    unfolding conn_packet_def sizeof_tloe_frame_def by (subst length_frame_packet) simp_all
  have h: "packet_header (conn_packet h) = h" for h by (simp add: conn_packet_def)
  have "ackonly_packet 5 (conn_packet (closing_header 5))"
    using len seq_4_5_6 by (simp add: ackonly_packet_def h conn_header_def)
  then show "data_packet H t (conn_packet (closing_header 5))" by (auto simp: data_packet_def)
  have "old_ack 4194303 5 (ucast (4::u32))" using handshake_ack [of 5] seq_4_5_6 by simp
  then show "ack_packet 4194303 5 (conn_packet (closing_header 5))"
    "ack_packet 4194303 5 (conn_packet last_header)"
    by (simp_all add: ack_packet_def h conn_header_def)
qed

lemma last_on_wire:
  "conn_packet last_header = frame_packet (with_ack (snd last_key) 4) (fst last_key)"
  using conn_packet_key [of 0 5 4 0 0] by simp

lemma rounds_on_wire:
  assumes "p \<in> set (rounds opn e ks)" "set ks \<subseteq> {..<5}"
  shows "\<exists>i x. i < 5 \<and> p = frame_packet (with_ack (snd (offer_keys opn ! i)) x) (fst (offer_keys opn ! i)) \<and>
    ucast (seq_num (packet_header p)) = (of_nat i :: u32)" "ack_packet 4194303 5 p"
proof -
  obtain k where "k < 5" "p \<in> set (offer opn (e\<lparr>next_rx_seq := of_nat k\<rparr>))"
    using assms by (auto simp: rounds_def)
  then show "\<exists>i x. i < 5 \<and> p = frame_packet (with_ack (snd (offer_keys opn ! i)) x) (fst (offer_keys opn ! i)) \<and>
    ucast (seq_num (packet_header p)) = (of_nat i :: u32)" "ack_packet 4194303 5 p"
    using offer_on_wire [of p opn k e] by simp_all
qed

lemma rounds_data:
  assumes "p \<in> set (rounds opn e ks)" "set ks \<subseteq> {..<5}" "length K \<le> 1"
  shows "data_packet (offer_keys opn @ K) (5 + length K) p"
proof -
  obtain i x where i: "i < 5" "p = frame_packet (with_ack (snd (offer_keys opn ! i)) x) (fst (offer_keys opn ! i))"
    using rounds_on_wire(1) [OF assms(1,2)] by blast
  moreover have "(offer_keys opn @ K) ! i = offer_keys opn ! i" "i < length (offer_keys opn @ K)"
    using i(1) offer_keys_ok(3) [of 0 opn] by (simp_all add: nth_append)
  ultimately show ?thesis unfolding data_packet_def using assms(3) by (intro disjI2 exI [of _ i] exI [of _ x]) simp
qed

text \<open>A started session, as a state of the link.\<close>

definition session_began :: "thread \<Rightarrow> endpoint \<Rightarrow> thread \<Rightarrow> endpoint \<Rightarrow> bool" where
  "session_began m m' s s' \<longleftrightarrow> (\<exists>opts_m opts_s js ks. main_start True True opts_m = Inr m \<and>
     main_start True True opts_s = Inr s \<and> opened (th_ep m) m' \<and> opened (th_ep s) s' \<and>
     next_tx_seq m' = 6 \<and> next_tx_seq s' = 5 \<and> set js \<subseteq> {..<5} \<and> set ks \<subseteq> {..<5} \<and>
     (\<exists>P. length P = 5 \<and> wire m' = wire (th_ep m) @ P @ rounds True (th_ep m) js @ [conn_packet last_header]) \<and>
     (\<exists>P. length P = 5 \<and> wire s' = wire (th_ep s) @ P @ rounds False (th_ep s) ks @ [conn_packet (closing_header 5)]))"

lemma session_flows:
  assumes "session_began m m' s s'"
  shows "\<exists>T S. flow 1 4194303 (with_hist (offer_keys True @ [last_key]) (left (session m m' s s')))
      (with_hist (offer_keys False) (right (session m m' s s'))) 6 5 T S"
    "link_inv 1 (with_hist (offer_keys True @ [last_key]) (left (session m m' s s')))
      (with_hist (offer_keys False) (right (session m m' s s')))"
proof -
  define a where "a = with_hist (offer_keys True @ [last_key]) (left (session m m' s s'))"
  define b where "b = with_hist (offer_keys False) (right (session m m' s s'))"
  obtain opts_m opts_s js ks P Q where h: "main_start True True opts_m = Inr m"
    "main_start True True opts_s = Inr s" "opened (th_ep m) m'" "opened (th_ep s) s'"
    "next_tx_seq m' = 6" "next_tx_seq s' = 5" "set js \<subseteq> {..<5}" "set ks \<subseteq> {..<5}"
    "length P = 5" "wire m' = wire (th_ep m) @ P @ rounds True (th_ep m) js @ [conn_packet last_header]"
    "length Q = 5" "wire s' = wire (th_ep s) @ Q @ rounds False (th_ep s) ks @ [conn_packet (closing_header 5)]"
    using assms unfolding session_began_def by blast
  note rm = opened_ready [OF h(3,1)] and rs = opened_ready [OF h(4,2)]
  have ab: "th_ep a = m'" "th_ep b = s'" "nd_pos a = length (wire (th_ep s)) + 5"
    "nd_pos b = length (wire (th_ep m)) + 5" "nd_msgs a = []" "nd_msgs b = []" "nd_got a = []"
    "nd_got b = []" "nd_hist a = offer_keys True @ [last_key]" "nd_hist b = offer_keys False"
    "th_mem a = th_mem m" "th_mem b = th_mem s" "th_request a = None" "th_request b = None"
    using main_start_request h(1,2) by (simp_all add: a_def b_def session_def session_node_def)
  have len: "length (offer_keys opn) = 5" for opn using offer_keys_ok(3) [of 0] by simp
  have left5: "drop (nd_pos b) (wire m') = rounds True (th_ep m) js @ [conn_packet last_header]"
    "drop (nd_pos a) (wire s') = rounds False (th_ep s) ks @ [conn_packet (closing_header 5)]"
    unfolding ab(3,4) using h(9-12) by simp_all
  have seq: "seq_of (Suc (4194303 + 6)) = 6" "seq_of (Suc (4194303 + 5)) = 5" by (simp_all add: seq_of_def)
  have keys: "key_ok (Suc (4194303 + i)) ((offer_keys True @ [last_key]) ! i)" if "i < 6" for i
    using that offer_keys_ok(1) [of i True] last_key_ok(1) len [of True]
    by (cases "i = 5") (simp_all add: nth_append)
  have "data_packet (offer_keys True @ [last_key]) 6 p" if "p \<in> set (drop (nd_pos b) (wire m'))" for p
  proof (cases "p = conn_packet last_header")
    case True
    then show ?thesis
      unfolding data_packet_def
      by (intro disjI2 exI [of _ 5] exI [of _ 4]) (simp add: last_on_wire nth_append len)
  next
    case False
    then show ?thesis
      using that [unfolded left5] rounds_data [of p True "th_ep m" js "[last_key]"] h(7) by simp
  qed
  moreover have "ack_packet 4194303 5 p" if "p \<in> set (drop (nd_pos a) (wire s'))" for p
    using that [unfolded left5] rounds_on_wire(2) [OF _ h(8)] closing_on_wire(2) by auto
  ultimately have "flow 1 4194303 a b (length (nd_hist a)) 5
      (replicate (length (wire (th_ep a))) (length (nd_hist a))) (replicate (length (wire (th_ep b))) 5)"
    using keys h(5) rm(4) rs(3,5) seq last_key_ok(2) offer_keys_ok(2) [of 0 True]
    by (intro flow_begin refl) (simp_all add: ab len)
  then have f: "flow 1 4194303 a b 6 5 (replicate (length (wire (th_ep a))) 6)
      (replicate (length (wire (th_ep b))) 5)" by (simp add: ab len)
  then show "\<exists>T S. flow 1 4194303 (with_hist (offer_keys True @ [last_key]) (left (session m m' s s')))
      (with_hist (offer_keys False) (right (session m m' s s'))) 6 5 T S"
    unfolding a_def b_def by blast
  have "data_packet (offer_keys False) 5 p" if "p \<in> set (drop (nd_pos a) (wire s'))" for p
    using that [unfolded left5] rounds_data [of p False "th_ep s" ks "[]"] h(8) closing_on_wire(1) by auto
  moreover have "ack_packet 4194303 5 p" if "p \<in> set (drop (nd_pos b) (wire m'))" for p
    using that [unfolded left5] rounds_on_wire(2) [OF _ h(7)] closing_on_wire(3) by auto
  ultimately have "flow 1 4194303 b a (length (nd_hist b)) 5
      (replicate (length (wire (th_ep b))) (length (nd_hist b))) (replicate (length (wire (th_ep a))) 5)"
    using offer_keys_ok(1) h(6) rs(4) rm(3,5) seq offer_keys_ok(2) [of 0 False]
    by (intro flow_begin refl) (simp_all add: ab len)
  moreover have "node_inv a" "node_inv b"
    using rm rs main_start_ready(4) h(1,2) by (simp_all add: node_inv_def ab)
  ultimately show "link_inv 1 (with_hist (offer_keys True @ [last_key]) (left (session m m' s s')))
      (with_hist (offer_keys False) (right (session m m' s s')))"
    using f unfolding a_def [symmetric] b_def [symmetric] link_inv_def direction_def by blast
qed

section \<open>One step of a side\<close>

text \<open>What a step of the sending side does to a direction.\<close>

lemma flow_step_sender:
  assumes "flow d m a b base R T S" "link_inv d a b" "node_step (wire (th_ep b)) a a'"
  shows "\<exists>base' T'. flow d m a' b base' R T' S \<and> base \<le> base' \<and> base' \<le> max base R"
    "\<exists>K. nd_hist a' = nd_hist a @ K"
    "\<exists>ps. wire (th_ep a') = wire (th_ep a) @ ps \<and> (\<forall>p \<in> set ps. (\<exists>rx. ackonly_packet rx p) \<or>
       (\<exists>i x. base \<le> i \<and> i < length (nd_hist a') \<and>
          p = frame_packet (with_ack (snd (nd_hist a' ! i)) x) (fst (nd_hist a' ! i))))"
proof -
  have inv: "node_inv a" "node_inv b" using assms(2) by (simp_all add: link_inv_def)
  have "(\<exists>base' T'. flow d m a' b base' R T' S \<and> base \<le> base' \<and> base' \<le> max base R) \<and>
    (\<exists>K. nd_hist a' = nd_hist a @ K) \<and>
    (\<exists>ps. wire (th_ep a') = wire (th_ep a) @ ps \<and> (\<forall>p \<in> set ps. (\<exists>rx. ackonly_packet rx p) \<or>
       (\<exists>i x. base \<le> i \<and> i < length (nd_hist a') \<and>
          p = frame_packet (with_ack (snd (nd_hist a' ! i)) x) (fst (nd_hist a' ! i)))))" (is ?goal)
  proof -
    have quiet: ?goal if "same_link (th_ep a) (th_ep a')" "nd_hist a' = nd_hist a" "nd_msgs a' = nd_msgs a"
      "nd_pos a' = nd_pos a"
    proof -
      have "flow d m a' b base R T S" using flow_quiet [OF assms(1) that(1) same_link_refl] that by simp
      moreover have "base \<le> max base R" "wire (th_ep a') = wire (th_ep a) @ []" "nd_hist a' = nd_hist a @ []"
        using that by (simp_all add: same_link_def)
      ultimately show ?goal by (metis empty_iff empty_set order_refl)
    qed
    from assms(3) show ?goal
    proof cases
      case (select c e r)
      then show ?thesis using select_returned(1) [OF inv(1)] by (intro quiet) simp_all
    next
      case (clock t)
      then show ?thesis by (intro quiet) (simp_all add: same_link_def)
    next
      case (transmit env e r)
      then have "a' = transmitted a e r" by (simp add: transmitted_def)
      moreover have "\<exists>K. nd_hist (transmitted a e r) = nd_hist a @ K" by (simp add: transmitted_def)
      moreover have "th_ep (transmitted a e r) = e" by (simp add: transmitted_def)
      ultimately show ?thesis
        using flow_transmit [OF assms(1) inv(1) transmit(2-4)] by (metis max.cobounded1 order_refl)
    next
      case (receive j junk e)
      obtain m' where d: "direction d m' b a" using assms(2) by (auto simp: link_inv_def)
      obtain t where t: "data_packet (nd_hist b) t (wire (th_ep b) ! j)"
        "\<And>i. i < length (nd_hist b) \<Longrightarrow> key_ok (Suc (m' + i)) (nd_hist b ! i)"
        by (rule direction_packet [OF d receive(2,3)]) blast
      obtain f where f: "header f = packet_header (wire (th_ep b) ! j)"
        "rx_result (th_ep a) f (int (length (wire (th_ep b) ! j))) e"
        by (rule packet_received [OF inv(1) t receive(4)]) blast+
      have a': "a' = received a j e" using receive(1) by (simp add: received_def)
      then have "wire (th_ep a') = wire (th_ep a) @ []" "nd_hist a' = nd_hist a @ []"
        using flow_receive_acks(2) [OF assms(1) inv(1) receive(2,3) f] by simp_all
      moreover have "\<exists>base' T'. flow d m a' b base' R T' S \<and> base \<le> base' \<and> base' \<le> max base R"
        using flow_receive_acks(1) [OF assms(1) inv(1) receive(2,3) f] unfolding a' by blast
      ultimately show ?thesis by (metis empty_iff empty_set)
    next
      case (serve e mem)
      then show ?thesis using serve_step_returned(1) [OF inv(1)] by (intro quiet) simp_all
    next
      case (user x e ok)
      then show ?thesis using user_returned(1) [OF inv(1)] by (intro quiet) simp_all
    qed
  qed
  then show "\<exists>base' T'. flow d m a' b base' R T' S \<and> base \<le> base' \<and> base' \<le> max base R"
    "\<exists>K. nd_hist a' = nd_hist a @ K"
    "\<exists>ps. wire (th_ep a') = wire (th_ep a) @ ps \<and> (\<forall>p \<in> set ps. (\<exists>rx. ackonly_packet rx p) \<or>
       (\<exists>i x. base \<le> i \<and> i < length (nd_hist a') \<and>
          p = frame_packet (with_ack (snd (nd_hist a' ! i)) x) (fst (nd_hist a' ! i))))"
    by blast+
qed

text \<open>What a step of the receiving side does.\<close>

definition takes_frame :: "node \<Rightarrow> node \<Rightarrow> node \<Rightarrow> bool" where
  "takes_frame a b b' \<longleftrightarrow> (\<exists>j. nd_pos b \<le> j \<and> j < length (wire (th_ep a)) \<and> nd_pos b' = Suc j \<and>
     ucast (seq_num (packet_header (wire (th_ep a) ! j))) = next_rx_seq (th_ep b) \<and>
     frame_type (packet_header (wire (th_ep a) ! j)) \<noteq> TYPE_ACKONLY)"

lemma flow_step_receiver:
  assumes "flow d m a b base R T S" "link_inv d a b" "node_step (wire (th_ep a)) b b'"
    and "acks_recent (th_ep b')"
  shows "\<exists>R' S'. flow d m a b' base R' T S' \<and> (R' = R \<or> R' = Suc R \<and> takes_frame a b b')"
    "nd_pos b \<le> nd_pos b'"
proof -
  have inv: "node_inv a" "node_inv b" using assms(2) by (simp_all add: link_inv_def)
  have quiet: "\<exists>R' S'. flow d m a b' base R' T S' \<and> (R' = R \<or> R' = Suc R \<and> takes_frame a b b')"
    if "same_link (th_ep b) (th_ep b')" "nd_got b' = nd_got b" "nd_pos b' = nd_pos b"
    using flow_quiet [OF assms(1) same_link_refl that(1)] that(2,3) by auto
  from assms(3) have "(\<exists>R' S'. flow d m a b' base R' T S' \<and> (R' = R \<or> R' = Suc R \<and> takes_frame a b b')) \<and>
    nd_pos b \<le> nd_pos b'"
  proof cases
    case (select c e r)
    then show ?thesis using select_returned(1) [OF inv(2)] by (intro conjI quiet) simp_all
  next
    case (clock t)
    then show ?thesis by (intro conjI quiet) (simp_all add: same_link_def)
  next
    case (transmit env e r)
    then have "b' = transmitted b e r" by (simp add: transmitted_def)
    then show ?thesis
      using flow_transmit_acks [OF assms(1) inv(2) transmit(2-4)] by (auto simp: transmitted_def)
  next
    case (receive j junk e)
    obtain m1 m' where d: "direction d m1 a b" "direction d m' b a"
      using assms(2) by (auto simp: link_inv_def)
    obtain t where t: "data_packet (nd_hist a) t (wire (th_ep a) ! j)"
      "\<And>i. i < length (nd_hist a) \<Longrightarrow> key_ok (Suc (m1 + i)) (nd_hist a ! i)"
      by (rule direction_packet [OF d(1) receive(2,3)]) blast
    obtain f where f: "header f = packet_header (wire (th_ep a) ! j)"
      "rx_result (th_ep b) f (int (length (wire (th_ep a) ! j))) e"
      by (rule packet_received [OF inv(2) t receive(4)]) blast+
    have w: "wire e = wire (th_ep b)" by (rule direction_receive_acks(2) [OF d(2) inv(2) receive(2,3) f])
    have b': "b' = received b j e" using receive(1) by (simp add: received_def)
    have wf: "ep_wf (th_ep a)" "acks_recent e" using inv(1) assms(4) b' by (simp_all add: node_inv_def)
    show ?thesis
      using flow_receive(1) [OF assms(1) inv(2) receive(2-4) wf(2) w wf(1)] receive(2,3)
      unfolding b' takes_frame_def by fastforce
  next
    case (serve e mem)
    then show ?thesis using serve_step_returned(1) [OF inv(2)] by (intro conjI quiet) simp_all
  next
    case (user x e ok)
    then show ?thesis using user_returned(1) [OF inv(2)] by (intro conjI quiet) simp_all
  qed
  then show "\<exists>R' S'. flow d m a b' base R' T S' \<and> (R' = R \<or> R' = Suc R \<and> takes_frame a b b')"
    "nd_pos b \<le> nd_pos b'" by simp_all
qed

section \<open>Without the last frame\<close>

text \<open>Nothing on its way is the frame of number 5, except the packet at place \<open>L\<close>.\<close>

definition blocked :: "nat \<Rightarrow> link \<Rightarrow> bool" where
  "blocked L l \<longleftrightarrow> link_inv 1 (left l) (right l) \<and> (\<exists>T S. flow 1 4194303 (left l) (right l) 6 5 T S) \<and>
     L < length (wire (th_ep (left l))) \<and> (\<exists>K. nd_hist (left l) = (offer_keys True @ [last_key]) @ K) \<and>
     (\<forall>p. nd_pos (right l) \<le> p \<and> p < length (wire (th_ep (left l))) \<and> p \<noteq> L \<longrightarrow>
        frame_type (packet_header (wire (th_ep (left l)) ! p)) = TYPE_ACKONLY \<or>
        ucast (seq_num (packet_header (wire (th_ep (left l)) ! p))) \<noteq> (5 :: u32))"

lemma unat_numeral_5: "unat (5 :: u32) = 5"
  by simp

lemma blocked_left:
  assumes "blocked L l" "node_step (wire (th_ep (right l))) (left l) n" "acks_recent (th_ep n)"
  shows "blocked L (l\<lparr>left := n\<rparr>)"
proof -
  let ?a = "left l" and ?b = "right l"
  obtain T S K where h: "link_inv 1 ?a ?b" "flow 1 4194303 ?a ?b 6 5 T S"
    "L < length (wire (th_ep ?a))" "nd_hist ?a = (offer_keys True @ [last_key]) @ K"
    "\<forall>p. nd_pos ?b \<le> p \<and> p < length (wire (th_ep ?a)) \<and> p \<noteq> L \<longrightarrow>
        frame_type (packet_header (wire (th_ep ?a) ! p)) = TYPE_ACKONLY \<or>
        ucast (seq_num (packet_header (wire (th_ep ?a) ! p))) \<noteq> (5 :: u32)"
    using assms(1) by (auto simp: blocked_def)
  note st = flow_step_sender [OF h(2,1) assms(2)]
  obtain base' T' where f0: "flow 1 4194303 n ?b base' 5 T' S" "6 \<le> base'" "base' \<le> max 6 5" using st(1) by blast
  then have f: "flow 1 4194303 n ?b 6 5 T' S" by simp
  have inv: "link_inv 1 n ?b" using link_inv_step [of 1 ?b ?a n] h(1) assms(2,3) by (simp add: link_inv_sym)
  obtain ps where ps: "wire (th_ep n) = wire (th_ep ?a) @ ps"
    "\<forall>p \<in> set ps. (\<exists>rx. ackonly_packet rx p) \<or> (\<exists>i x. 6 \<le> i \<and> i < length (nd_hist n) \<and>
       p = frame_packet (with_ack (snd (nd_hist n ! i)) x) (fst (nd_hist n ! i)))" using st(3) by blast
  have sn: "sender 4194303 n 6" using f by (simp add: flow_def)
  have "ep_wf (th_ep n)" using inv by (simp add: link_inv_def node_inv_def)
  then have len: "length (nd_hist n) \<le> 10" using sender_window(1) [OF sn] by simp
  have new: "frame_type (packet_header p) = TYPE_ACKONLY \<or> ucast (seq_num (packet_header p)) \<noteq> (5 :: u32)"
    if p: "p \<in> set ps" for p
  proof (cases "\<exists>rx. ackonly_packet rx p")
    case True
    then show ?thesis by (auto simp: ackonly_packet_def)
  next
    case False
    then obtain i x where i: "6 \<le> i" "i < length (nd_hist n)"
      "p = frame_packet (with_ack (snd (nd_hist n ! i)) x) (fst (nd_hist n ! i))"
      using bspec [OF ps(2) p] by blast
    have "frame_seq (snd (nd_hist n ! i)) = seq_of (Suc (4194303 + i))"
      using sn i(2) unfolding sender_def key_ok_def by blast
    then have "ucast (seq_num (packet_header p)) = seq_of (Suc (4194303 + i))"
      using i(3) by (simp add: frame_seq_def)
    moreover have "seq_of (Suc (4194303 + i)) \<noteq> 5"
    proof
      assume "seq_of (Suc (4194303 + i)) = 5"
      then have "Suc (4194303 + i) mod 4194304 = 5" by (metis unat_seq_of unat_numeral_5)
      moreover have "Suc (4194303 + i) = i + 4194304" by simp
      then have "Suc (4194303 + i) mod 4194304 = i"
        using i(2) len by (simp only: mod_add_self2) (rule mod_less, linarith)
      ultimately show False using i(1) by linarith
    qed
    ultimately show ?thesis by simp
  qed
  have "frame_type (packet_header (wire (th_ep n) ! p)) = TYPE_ACKONLY \<or>
        ucast (seq_num (packet_header (wire (th_ep n) ! p))) \<noteq> (5 :: u32)"
    if "nd_pos ?b \<le> p" "p < length (wire (th_ep n))" "p \<noteq> L" for p
    using h(5) that new by (cases "p < length (wire (th_ep ?a))") (simp_all add: ps(1) nth_append)
  moreover have "\<exists>K. nd_hist n = (offer_keys True @ [last_key]) @ K" using st(2) h(4) by auto
  moreover have "L < length (wire (th_ep n))" using h(3) ps(1) by simp
  ultimately show ?thesis using inv f by (auto simp: blocked_def)
qed

lemma blocked_right:
  assumes "blocked L l" "node_step (wire (th_ep (left l))) (right l) n" "acks_recent (th_ep n)"
    and "nd_pos n \<noteq> Suc L"
  shows "blocked L (l\<lparr>right := n\<rparr>)"
proof -
  let ?a = "left l" and ?b = "right l"
  obtain T S where h: "link_inv 1 ?a ?b" "flow 1 4194303 ?a ?b 6 5 T S"
    "L < length (wire (th_ep ?a))" "\<exists>K. nd_hist ?a = (offer_keys True @ [last_key]) @ K"
    "\<forall>p. nd_pos ?b \<le> p \<and> p < length (wire (th_ep ?a)) \<and> p \<noteq> L \<longrightarrow>
        frame_type (packet_header (wire (th_ep ?a) ! p)) = TYPE_ACKONLY \<or>
        ucast (seq_num (packet_header (wire (th_ep ?a) ! p))) \<noteq> (5 :: u32)"
    using assms(1) by (auto simp: blocked_def)
  note st = flow_step_receiver [OF h(2,1) assms(2,3)]
  have "next_rx_seq (th_ep ?b) = 5" using h(2) by (simp add: flow_def receiver_def seq_of_def)
  then have "\<not> takes_frame ?a ?b n" using h(5) assms(4) by (auto simp: takes_frame_def)
  then obtain S' where f: "flow 1 4194303 ?a n 6 5 T S'" using st(1) by blast
  have "link_inv 1 ?a n" by (rule link_inv_step [OF h(1) assms(2,3)])
  then show ?thesis using f h(3-5) st(2) by (auto simp: blocked_def)
qed

lemma blocked_steps:
  assumes "(\<lambda>l l'. link_step l l' \<and> nd_pos (right l') \<noteq> Suc L)\<^sup>*\<^sup>* l l'" "blocked L l"
  shows "blocked L l'"
  using assms
proof (induction rule: rtranclp_induct)
  case (step l1 l2)
  from step.hyps(2) have st: "link_step l1 l2" "nd_pos (right l2) \<noteq> Suc L" by simp_all
  have b: "blocked L l1" by (rule step.IH [OF step.prems])
  from st(1) show ?case
  proof cases
    case (left n)
    then show ?thesis using blocked_left [OF b] by simp
  next
    case (right n)
    then show ?thesis using blocked_right [OF b] st(2) by simp
  qed
qed

lemma blocked_result:
  assumes "blocked L l"
  shows "nd_got (right l) = []" "next_rx_seq (th_ep (right l)) = 5" "length (nd_msgs (left l)) \<le> 4"
    "offer_keys True @ [last_key] @ window_keys (th_ep (left l)) = nd_hist (left l)"
proof -
  let ?a = "left l" and ?H0 = "offer_keys True @ [last_key]"
  obtain T S K where h: "link_inv 1 ?a (right l)" "flow 1 4194303 ?a (right l) 6 5 T S" "nd_hist ?a = ?H0 @ K"
    using assms by (auto simp: blocked_def)
  have len: "length ?H0 = 6" "take 5 ?H0 = offer_keys True" using offer_keys_ok(3) [of 0] by simp_all
  have s: "sender 4194303 ?a 6" and r: "receiver 4194303 (right l) (nd_hist ?a) 5"
    using h(2) by (simp_all add: flow_def)
  show "next_rx_seq (th_ep (right l)) = 5" using r by (simp add: receiver_def seq_of_def)
  have "take 5 (nd_hist ?a) = offer_keys True" using len offer_keys_ok(3) [of 0 True] by (simp add: h(3))
  then show "nd_got (right l) = []" using r offer_keys_ok(2) [of 0 True] by (simp add: receiver_def)
  have w: "window_keys (th_ep ?a) = K" using s len(1) by (simp add: sender_def h(3))
  then show "offer_keys True @ [last_key] @ window_keys (th_ep ?a) = nd_hist ?a" using h(3) by simp
  have blocks: "length (concat (map key_blocks ks)) \<le> length ks" if "\<forall>k \<in> set ks. length (key_blocks k) \<le> 1"
    for ks :: "frame_key list"
    using that by (induction ks) force+
  have "\<forall>i < length (nd_hist ?a). length (key_blocks (nd_hist ?a ! i)) \<le> 1"
    using s by (simp add: sender_def key_ok_def)
  then have "\<forall>k \<in> set (nd_hist ?a). length (key_blocks k) \<le> 1" by (metis in_set_conv_nth)
  then have "length (concat (map key_blocks K)) \<le> length K" by (intro blocks) (simp add: h(3))
  moreover have "length K \<le> 4"
    using window_bound [of "th_ep ?a"] h(1) w by (auto simp: link_inv_def node_inv_def window_keys_def)
  moreover have "concat (map key_blocks (nd_hist ?a)) = concat (map key_blocks K)"
    using offer_keys_ok(2) [of 0 True] last_key_ok(2) by (simp add: h(3))
  then have "map Block (nd_msgs ?a) = concat (map key_blocks K)" using s by (simp add: sender_def)
  then have "length (nd_msgs ?a) = length (concat (map key_blocks K))" by (metis length_map)
  ultimately show "length (nd_msgs (left l)) \<le> 4" by linarith
qed

section \<open>Two programs\<close>

lemma session_begins:
  assumes "main_start True True opts_m = Inr m" "main_start True True opts_s = Inr s"
    and "master (th_ep m) = TYPE_MASTER" "master (th_ep s) = TYPE_SLAVE"
    and "polls (cmd_events env_s) (offer True (th_ep m))"
    and "offerings False (cmd_start env_s) True 0 (cmd_events env_s) \<noteq> []"
  obtains s' where "handle_user_input env_s (th_ep s) (th_mem s) CHR ''c'' 0 0 0 fab ms = Inr (s', th_mem s, 0)"
    "polls (cmd_events env_m) (take 5 (drop (length (wire (th_ep s))) (wire s'))) \<Longrightarrow>
     \<exists>m'. handle_user_input env_m (th_ep m) (th_mem m) CHR ''c'' 0 0 0 fab' ms' = Inr (m', th_mem m, 0) \<and>
       take 5 (drop (length (wire (th_ep m))) (wire m')) = offer True (th_ep m) \<and>
       last (wire m') = conn_packet last_header \<and> length (wire (th_ep m)) + 5 < length (wire m') \<and>
       session_began m m' s s'"
proof -
  obtain ks where ks: "offerings False (cmd_start env_s) True 0 (cmd_events env_s) = ks" "ks \<noteq> []"
    using assms(6) by blast
  have ks5: "set ks \<subseteq> {..<5}" using offerings_less [of 0] ks(1) by fastforce
  obtain k ks' where k: "ks = k # ks'" using ks(2) by (cases ks) auto
  have len: "length (offer opn e) = 5" for opn e by (simp add: offer_def)
  obtain s' where s': "handle_user_input env_s (th_ep s) (th_mem s) CHR ''c'' 0 0 0 fab ms = Inr (s', th_mem s, 0)"
    "opened (th_ep s) s'" "next_tx_seq s' = 5"
    "wire s' = wire (th_ep s) @ rounds False (th_ep s) ks @ [conn_packet (closing_header 5)]"
    by (rule slave_connects [OF assms(2,4,5) ks])
  let ?P = "offer False ((th_ep s)\<lparr>next_rx_seq := of_nat k\<rparr>)"
  have w: "wire s' = wire (th_ep s) @ ?P @ rounds False (th_ep s) ks' @ [conn_packet (closing_header 5)]"
    using s'(4) by (simp add: k rounds_def)
  have "\<exists>m'. handle_user_input env_m (th_ep m) (th_mem m) CHR ''c'' 0 0 0 fab' ms' = Inr (m', th_mem m, 0) \<and>
       take 5 (drop (length (wire (th_ep m))) (wire m')) = offer True (th_ep m) \<and>
       last (wire m') = conn_packet last_header \<and> length (wire (th_ep m)) + 5 < length (wire m') \<and>
       session_began m m' s s'"
    if "polls (cmd_events env_m) (take 5 (drop (length (wire (th_ep s))) (wire s')))"
  proof -
    have "polls (cmd_events env_m) ?P" using that len by (simp add: w)
    then obtain m' js where m': "handle_user_input env_m (th_ep m) (th_mem m) CHR ''c'' 0 0 0 fab' ms' =
        Inr (m', th_mem m, 0)" "opened (th_ep m) m'" "next_tx_seq m' = 6" "set js \<subseteq> {..<5}"
      "wire m' = wire (th_ep m) @ offer True (th_ep m) @ rounds True (th_ep m) js @ [conn_packet last_header]"
      by (rule master_connects [OF assms(1,3)])
    have "set ks' \<subseteq> {..<5}" using ks5 k by simp
    then have "session_began m m' s s'"
      unfolding session_began_def using assms(1,2) m'(2-5) s'(2,3) w len by blast
    then show ?thesis using m'(1,5) len by auto
  qed
  then show thesis using s'(1) that by blast
qed

lemma session_link_inv:
  assumes "session_began m m' s s'" "link_step\<^sup>*\<^sup>* (session m m' s s') l"
  shows "prefix (nd_got (right l)) (map Block (nd_msgs (left l))) \<and>
    prefix (nd_got (left l)) (map Block (nd_msgs (right l)))"
proof -
  have "link_inv 1 (left (with_hists (session m m' s s'))) (right (with_hists (session m m' s s')))"
    using session_flows(2) [OF assms(1)] by simp
  from link_inv_prefix [OF link_inv_steps [OF link_steps_with_hists [OF assms(2)] this]] show ?thesis by simp
qed

text \<open>In front of the last frame the session is blocked.\<close>

lemma session_blocked:
  assumes "session_began m m' s s'"
  shows "blocked (length (wire m') - 1) (with_hists (session m m' s s'))"
proof -
  obtain js P where w: "set js \<subseteq> {..<5}" "length P = 5"
    "wire m' = wire (th_ep m) @ P @ rounds True (th_ep m) js @ [conn_packet last_header]"
    using assms unfolding session_began_def by blast
  let ?n = "length (wire (th_ep m)) + 5" and ?L = "length (wire m') - 1"
  have ses: "th_ep (left (session m m' s s')) = m'" "nd_pos (right (session m m' s s')) = ?n"
    "nd_hist (left (session m m' s s')) = []"
    by (simp_all add: session_def session_node_def)
  have "ucast (seq_num (packet_header (wire m' ! p))) \<noteq> (5 :: u32)"
    if p: "?n \<le> p" "p < length (wire m')" "p \<noteq> ?L" for p
  proof -
    obtain q where q: "p = ?n + q" using p(1) le_Suc_ex by blast
    then have "q < length (rounds True (th_ep m) js)" using p w(2) by (simp add: w(3))
    moreover have "wire m' ! p = (rounds True (th_ep m) js @ [conn_packet last_header]) ! q"
      using w(2) nth_append_length_plus [of "wire (th_ep m) @ P" _ q] by (simp add: w(3) q)
    ultimately have "wire m' ! p = rounds True (th_ep m) js ! q" "q < length (rounds True (th_ep m) js)"
      by (simp_all add: nth_append)
    then have "wire m' ! p \<in> set (rounds True (th_ep m) js)" by simp
    from rounds_on_wire(1) [OF this w(1)] obtain i where
      i: "i < 5" "ucast (seq_num (packet_header (wire m' ! p))) = (of_nat i :: u32)" by blast
    have "unat (of_nat i :: u32) = i" using i(1) by (simp add: unat_of_nat take_bit_nat_eq_self)
    then show ?thesis using i by (metis less_irrefl unat_numeral_5)
  qed
  moreover have "?L < length (wire m')" using w(3) by simp
  ultimately show ?thesis
    using session_flows [OF assms] by (simp add: blocked_def ses)
qed

lemma blocked_run:
  assumes "session_began m m' s s'"
    "(\<lambda>l l'. link_step l l' \<and> nd_pos (right l') \<noteq> length (wire m'))\<^sup>*\<^sup>* (session m m' s s') l"
  shows "nd_got (right l) = [] \<and> next_rx_seq (th_ep (right l)) = 5 \<and>
    window_keys (th_ep (left l)) = nd_hist (left l) \<and> length (nd_msgs (left l)) \<le> 4"
proof -
  have ne: "wire m' \<noteq> []" using assms(1) by (auto simp: session_began_def)
  have "(\<lambda>l l'. link_step l l' \<and> nd_pos (right l') \<noteq> Suc (length (wire m') - 1))\<^sup>*\<^sup>*
      (with_hists (session m m' s s')) (with_hists l)"
    using assms(2)
  proof (induction rule: rtranclp_induct)
    case (step l1 l2)
    have "link_step (with_hists l1) (with_hists l2)" by (rule link_step_with_hists) (use step.hyps(2) in simp)
    moreover have "nd_pos (right (with_hists l2)) \<noteq> Suc (length (wire m') - 1)" using step.hyps(2) ne by simp
    ultimately show ?case using step.IH by (simp add: rtranclp.rtrancl_into_rtrancl)
  qed simp
  then have "blocked (length (wire m') - 1) (with_hists l)"
    using blocked_steps session_blocked [OF assms(1)] by blast
  from blocked_result [OF this] show ?thesis by simp
qed

text \<open>Two programs on message queues, and what their loops receive.\<close>

definition session_env :: "byte list list \<Rightarrow> cmd_env" where
  "session_env ps = \<lparr>cmd_wde = False, cmd_events = map example_event ps, cmd_start = late,
     cmd_mem_alloc = True, cmd_msg_alloc = True\<rparr>"

lemma example_session:
  obtains m s and env_s env_m :: cmd_env where "main_start True True [Opt_m, Opt_p ''q''] = Inr m"
    "main_start True True [Opt_s, Opt_p ''q''] = Inr s" "master (th_ep m) = TYPE_MASTER"
    "master (th_ep s) = TYPE_SLAVE" "polls (cmd_events env_s) (offer True (th_ep m))"
    "offerings False (cmd_start env_s) True 0 (cmd_events env_s) \<noteq> []"
    "\<forall>s' fab ms. handle_user_input env_s (th_ep s) (th_mem s) CHR ''c'' 0 0 0 fab ms = Inr (s', th_mem s, 0) \<longrightarrow>
       polls (cmd_events env_m) (take 5 (drop (length (wire (th_ep s))) (wire s')))"
proof -
  obtain am as where a: "parse_arguments [Opt_m, Opt_p ''q''] = Some am" "arg_master am = 1"
    "parse_arguments [Opt_s, Opt_p ''q''] = Some as" "arg_master as = 0"
    by (simp add: parse_arguments_def copy_arg_def)
  obtain m where m: "main_start True True [Opt_m, Opt_p ''q''] = Inr m" "master (th_ep m) = TYPE_MASTER"
    by (rule main_start_ok [OF a(1), of True]) (use a(2) in simp)
  obtain s where s: "main_start True True [Opt_s, Opt_p ''q''] = Inr s" "master (th_ep s) = TYPE_SLAVE"
    by (rule main_start_ok [OF a(3), of True]) (use a(4) in simp)
  let ?pm = "offer True (th_ep m)" and ?ps = "offer False ((th_ep s)\<lparr>next_rx_seq := of_nat 1\<rparr>)"
  have len: "length (offer opn e) = 5" for opn e by (simp add: offer_def)
  have polls: "polls (cmd_events (session_env (offer opn e))) (offer opn e)" for opn e
  proof -
    obtain hs where hs: "offer opn e = map conn_packet hs" using offer_packets by blast
    show ?thesis
      using receives_polls [OF example_receives, of hs] by (simp add: session_env_def hs)
  qed
  have o: "offerings False (cmd_start (session_env ?pm)) True 0 (cmd_events (session_env ?pm)) = [1]"
    using example_offerings [OF len, of True "th_ep m"] by (simp add: session_env_def)
  have "polls (cmd_events (session_env ?ps)) (take 5 (drop (length (wire (th_ep s))) (wire s')))"
    if "handle_user_input (session_env ?pm) (th_ep s) (th_mem s) CHR ''c'' 0 0 0 fab ms = Inr (s', th_mem s, 0)"
    for s' fab ms
  proof -
    obtain s1 where "handle_user_input (session_env ?pm) (th_ep s) (th_mem s) CHR ''c'' 0 0 0 fab ms =
        Inr (s1, th_mem s, 0)"
      "wire s1 = wire (th_ep s) @ rounds False (th_ep s) [1] @ [conn_packet (closing_header 5)]"
      by (rule slave_connects [OF s polls o]) auto
    then show ?thesis using that polls len by simp
  qed
  then show thesis using m s polls o by (intro that [of m s "session_env ?pm" "session_env ?ps"]) auto
qed

section \<open>Properties\<close>

text \<open>C3: A whole session.  Two started programs, the master and the slave, are given the command \<open>c\<close>.  The
  slave's loop receives, in whatever iterations, the first five packets that the master sends, and
  its timer runs out at least once in time; the master's loop receives, in whatever iterations, the
  first five packets that the slave sends.  Then both commands return, and whatever the two threads and
  their users do afterwards, over a network that loses packets and keeps their order (repeated offers,
  the master's last frame and the slave's ACKONLY frame are still on their way, and may arrive or be
  lost), the messages of either side reach the handler of the other in order, without gap, duplicate or
  change.\<close>

theorem session_in_order:
  assumes "main_start True True opts_m = Inr m" "main_start True True opts_s = Inr s"
    and "master (th_ep m) = TYPE_MASTER" "master (th_ep s) = TYPE_SLAVE"
    and "polls (cmd_events env_s) (offer True (th_ep m))"
    and "offerings False (cmd_start env_s) True 0 (cmd_events env_s) \<noteq> []"
  shows "\<exists>s'. handle_user_input env_s (th_ep s) (th_mem s) CHR ''c'' 0 0 0 fab ms = Inr (s', th_mem s, 0) \<and>
    (polls (cmd_events env_m) (take 5 (drop (length (wire (th_ep s))) (wire s'))) \<longrightarrow>
     (\<exists>m'. handle_user_input env_m (th_ep m) (th_mem m) CHR ''c'' 0 0 0 fab' ms' = Inr (m', th_mem m, 0) \<and>
       take 5 (drop (length (wire (th_ep m))) (wire m')) = offer True (th_ep m) \<and>
       (\<forall>l. link_step\<^sup>*\<^sup>* \<lparr>left = session_node m m' (length (wire (th_ep s)) + 5),
                          right = session_node s s' (length (wire (th_ep m)) + 5)\<rparr> l \<longrightarrow>
          prefix (nd_got (right l)) (map Block (nd_msgs (left l))) \<and>
          prefix (nd_got (left l)) (map Block (nd_msgs (right l))))))"
  by (rule session_begins [OF assms, of fab ms env_m fab' ms'])
    (use session_link_inv [unfolded session_def] in blast)

text \<open>The slave also takes the master's last frame.\<close>

theorem session_in_order_witness:
  "\<exists>m s env_m env_s m' s' l. main_start True True [Opt_m, Opt_p ''q''] = Inr m \<and>
     main_start True True [Opt_s, Opt_p ''q''] = Inr s \<and>
     handle_user_input env_m (th_ep m) (th_mem m) CHR ''c'' 0 0 0 1 1 = Inr (m', th_mem m, 0) \<and>
     handle_user_input env_s (th_ep s) (th_mem s) CHR ''c'' 0 0 0 1 0 = Inr (s', th_mem s, 0) \<and>
     link_step\<^sup>*\<^sup>* (session m m' s s') l \<and> next_rx_seq (th_ep (right l)) = 6 \<and>
     prefix (nd_got (right l)) (map Block (nd_msgs (left l)))"
proof -
  obtain m s and env_s env_m :: cmd_env where h: "main_start True True [Opt_m, Opt_p ''q''] = Inr m"
    "main_start True True [Opt_s, Opt_p ''q''] = Inr s" "master (th_ep m) = TYPE_MASTER"
    "master (th_ep s) = TYPE_SLAVE" "polls (cmd_events env_s) (offer True (th_ep m))"
    "offerings False (cmd_start env_s) True 0 (cmd_events env_s) \<noteq> []"
    "\<forall>s' fab ms. handle_user_input env_s (th_ep s) (th_mem s) CHR ''c'' 0 0 0 fab ms = Inr (s', th_mem s, 0) \<longrightarrow>
       polls (cmd_events env_m) (take 5 (drop (length (wire (th_ep s))) (wire s')))"
    by (rule example_session)
  obtain m' s' where c: "handle_user_input env_s (th_ep s) (th_mem s) CHR ''c'' 0 0 0 1 0 = Inr (s', th_mem s, 0)"
    "handle_user_input env_m (th_ep m) (th_mem m) CHR ''c'' 0 0 0 1 1 = Inr (m', th_mem m, 0)"
    "\<forall>l. link_step\<^sup>*\<^sup>* (session m m' s s') l \<longrightarrow> prefix (nd_got (right l)) (map Block (nd_msgs (left l)))"
    using session_in_order [OF h(1-6), of 1 0 env_m 1 1] h(7) unfolding session_def by blast
  obtain s1 m1 where b: "handle_user_input env_s (th_ep s) (th_mem s) CHR ''c'' 0 0 0 1 0 = Inr (s1, th_mem s, 0)"
    "handle_user_input env_m (th_ep m) (th_mem m) CHR ''c'' 0 0 0 1 1 = Inr (m1, th_mem m, 0)"
    "last (wire m1) = conn_packet last_header" "length (wire (th_ep m)) + 5 < length (wire m1)"
    "session_began m m1 s s1"
    by (rule session_begins [OF h(1-6), of 1 0 env_m 1 1]) (use h(7) in blast)
  have [simp]: "s1 = s'" "m1 = m'" using b(1,2) c(1,2) by simp_all
  have o: "opened (th_ep s) s'" using b(5) by (simp add: session_began_def)
  note rs = opened_ready [OF o h(2)]
  have hd: "seq_num last_header = ucast (next_rx_seq s')" "frame_type last_header = 0" "ack last_header = 1"
    "chan last_header = 0" by (simp_all add: conn_header_def rs(3))
  obtain e where e: "RX True (int (length (conn_packet last_header)), conn_packet last_header @ []) s' = Inr e"
    "next_rx_seq e = tloe_seqnum_next (next_rx_seq s')" "ack_buffer e = ack_buffer s'"
    by (rule RX_conn_packet [OF rs(1,2) hd])
  let ?l = "session m m' s s'" and ?j = "length (wire m') - 1"
  have "wire m' \<noteq> []" using b(4) by auto
  then have j: "?j < length (wire m')" "wire m' ! ?j = conn_packet last_header"
    using b(3) by (simp_all add: last_conv_nth)
  have l: "left ?l = session_node m m' (length (wire (th_ep s)) + 5)"
    "right ?l = session_node s s' (length (wire (th_ep m)) + 5)" by (simp_all add: session_def)
  have "node_step (wire m') (right ?l) (received (right ?l) ?j e)"
    unfolding received_def
    by (rule node_step.receive [where junk = "[]"])
      (use b(4) j e(1) in \<open>simp_all add: l session_node_def\<close>)
  then have "link_step ?l (?l\<lparr>right := received (right ?l) ?j e\<rparr>)"
    using link_step.right [of ?l "received (right ?l) ?j e"] e(3) rs(5) l(1)
    by (simp add: acks_recent_def session_node_def)
  then have "link_step\<^sup>*\<^sup>* ?l (?l\<lparr>right := received (right ?l) ?j e\<rparr>)" by blast
  moreover have "next_rx_seq (th_ep (right (?l\<lparr>right := received (right ?l) ?j e\<rparr>))) = 6"
    using e(2) seq_4_5_6 by (simp add: rs(3))
  ultimately show ?thesis using h(1,2) c by blast
qed

text \<open>C31: The last frame of the handshake is sent once and kept nowhere.  In a session as in C3, as long
  as the slave has not received the last packet that the master's command \<open>c\<close> sent, and in every run in
  which it never does, because the network lost it, the slave expects the number 5 forever and
  delivers nothing at all; the window of the master never slides, so that no more than four messages
  are ever taken from its user and nothing tells either side.\<close>

theorem lost_last_frame_blocks:
  assumes "main_start True True opts_m = Inr m" "main_start True True opts_s = Inr s"
    and "master (th_ep m) = TYPE_MASTER" "master (th_ep s) = TYPE_SLAVE"
    and "polls (cmd_events env_s) (offer True (th_ep m))"
    and "offerings False (cmd_start env_s) True 0 (cmd_events env_s) \<noteq> []"
  shows "\<exists>s'. handle_user_input env_s (th_ep s) (th_mem s) CHR ''c'' 0 0 0 fab ms = Inr (s', th_mem s, 0) \<and>
    (polls (cmd_events env_m) (take 5 (drop (length (wire (th_ep s))) (wire s'))) \<longrightarrow>
     (\<exists>m'. handle_user_input env_m (th_ep m) (th_mem m) CHR ''c'' 0 0 0 fab' ms' = Inr (m', th_mem m, 0) \<and>
       last (wire m') = conn_packet (conn_header TYPE_NORMAL 5 4 0 0) \<and>
       (\<forall>l. (\<lambda>l l'. link_step l l' \<and> nd_pos (right l') \<noteq> length (wire m'))\<^sup>*\<^sup>*
              \<lparr>left = session_node m m' (length (wire (th_ep s)) + 5),
               right = session_node s s' (length (wire (th_ep m)) + 5)\<rparr> l \<longrightarrow>
          nd_got (right l) = [] \<and> next_rx_seq (th_ep (right l)) = 5 \<and>
          window_keys (th_ep (left l)) = nd_hist (left l) \<and> length (nd_msgs (left l)) \<le> 4)))"
  by (rule session_begins [OF assms, of fab ms env_m fab' ms'])
    (use blocked_run [unfolded session_def] in blast)

theorem lost_last_frame_blocks_witness:
  "\<exists>m s env_m env_s m' s'. main_start True True [Opt_m, Opt_p ''q''] = Inr m \<and>
     main_start True True [Opt_s, Opt_p ''q''] = Inr s \<and>
     handle_user_input env_m (th_ep m) (th_mem m) CHR ''c'' 0 0 0 1 1 = Inr (m', th_mem m, 0) \<and>
     handle_user_input env_s (th_ep s) (th_mem s) CHR ''c'' 0 0 0 1 0 = Inr (s', th_mem s, 0) \<and>
     next_rx_seq (th_ep (right (session m m' s s'))) = 5 \<and>
     window_keys (th_ep (left (session m m' s s'))) = []"
proof -
  obtain m s and env_s env_m :: cmd_env where h: "main_start True True [Opt_m, Opt_p ''q''] = Inr m"
    "main_start True True [Opt_s, Opt_p ''q''] = Inr s" "master (th_ep m) = TYPE_MASTER"
    "master (th_ep s) = TYPE_SLAVE" "polls (cmd_events env_s) (offer True (th_ep m))"
    "offerings False (cmd_start env_s) True 0 (cmd_events env_s) \<noteq> []"
    "\<forall>s' fab ms. handle_user_input env_s (th_ep s) (th_mem s) CHR ''c'' 0 0 0 fab ms = Inr (s', th_mem s, 0) \<longrightarrow>
       polls (cmd_events env_m) (take 5 (drop (length (wire (th_ep s))) (wire s')))"
    by (rule example_session)
  obtain m' s' where c: "handle_user_input env_s (th_ep s) (th_mem s) CHR ''c'' 0 0 0 1 0 = Inr (s', th_mem s, 0)"
    "handle_user_input env_m (th_ep m) (th_mem m) CHR ''c'' 0 0 0 1 1 = Inr (m', th_mem m, 0)"
    "\<forall>l. (\<lambda>l l'. link_step l l' \<and> nd_pos (right l') \<noteq> length (wire m'))\<^sup>*\<^sup>* (session m m' s s') l \<longrightarrow>
       nd_got (right l) = [] \<and> next_rx_seq (th_ep (right l)) = 5 \<and>
       window_keys (th_ep (left l)) = nd_hist (left l)"
    using lost_last_frame_blocks [OF h(1-6), of 1 0 env_m 1 1] h(7) unfolding session_def [symmetric] by blast
  have "nd_hist (left (session m m' s s')) = []" by (simp add: session_def session_node_def)
  then have "next_rx_seq (th_ep (right (session m m' s s'))) = 5 \<and>
      window_keys (th_ep (left (session m m' s s'))) = []"
    using c(3) [rule_format, OF rtranclp.rtrancl_refl] by simp
  then show ?thesis using h(1,2) c(1,2) by blast
qed

end
