(* ===== verification/Progress.thy ===== *)
theory Progress
  imports Link
begin

text \<open>
  The link never gets stuck: from every reachable state in which a message is outstanding, the next
  message can still be delivered, by a timeout, the retransmission it causes and a reception.
\<close>

section \<open>Invariants of the run\<close>

text \<open>What the link invariant leaves open: a node is not ahead of its peer's wire, and its ack buffer is
  recent.\<close>

definition in_range :: "node \<Rightarrow> node \<Rightarrow> bool" where
  "in_range a b \<longleftrightarrow> nd_pos b \<le> length (wire (th_ep a)) \<and> acks_recent (th_ep b)"

lemma step_wire:
  assumes "link_inv 0 a b" "node_step (wire (th_ep a)) b b'"
  shows "(\<exists>ps. wire (th_ep b') = wire (th_ep b) @ ps) \<and>
    (nd_pos b' = nd_pos b \<or> nd_pos b' \<le> length (wire (th_ep a)))"
proof -
  have inv: "node_inv b" using assms(1) by (simp add: link_inv_def)
  from assms(2) show ?thesis
  proof cases
    case (select c e r)
    then show ?thesis using select_returned(1) [OF inv select(3)] by (simp add: same_link_def)
  next
    case (transmit env e r)
    have "ep_wf (th_ep b)" "pred_option deliverable (th_request b)" using inv by (simp_all add: node_inv_def)
    from TX_returned(2) [OF transmit(2,3) this transmit(4)] show ?thesis
      using transmit(1) by (auto simp: tx_frame_def)
  next
    case (receive j junk e)
    obtain m m' where d: "direction 0 m a b" "direction 0 m' b a" using assms(1) by (auto simp: link_inv_def)
    obtain t where t: "data_packet (nd_hist a) t (wire (th_ep a) ! j)"
      "\<And>i. i < length (nd_hist a) \<Longrightarrow> key_ok (Suc (m + i)) (nd_hist a ! i)"
      by (rule direction_packet [OF d(1) receive(2,3)]) blast
    obtain f where "header f = packet_header (wire (th_ep a) ! j)"
      "rx_result (th_ep b) f (int (length (wire (th_ep a) ! j))) e"
      by (rule packet_received [OF inv t receive(4)]) blast+
    from direction_receive_acks(2) [OF d(2) inv receive(2,3) this] show ?thesis
      using receive(1,3) by simp
  next
    case (serve e mem)
    then show ?thesis using serve_step_returned(1) [OF inv serve(2)] by (simp add: same_link_def)
  next
    case (user m e ok)
    then show ?thesis using user_returned(1) [OF inv user(2,3)] by (simp add: same_link_def)
  qed simp
qed

lemma in_range_step:
  assumes "link_inv 0 a b" "in_range a b" "in_range b a" "node_step (wire (th_ep a)) b b'"
    and "acks_recent (th_ep b')"
  shows "in_range a b'" "in_range b' a"
  using step_wire [OF assms(1,4)] assms(2,3,5) by (auto simp: in_range_def)

lemma in_range_run:
  assumes "link_step\<^sup>*\<^sup>* l0 l" "link_start l0"
  shows "in_range (left l) (right l) \<and> in_range (right l) (left l)"
  using assms
proof (induction rule: rtranclp_induct)
  case base
  then show ?case by (auto simp: link_start_def node_start_def in_range_def acks_recent_def)
next
  case (step l l')
  have inv: "link_inv 0 (left l) (right l)" by (rule link_inv_run [OF step.hyps(1) step.prems])
  have rg: "in_range (left l) (right l)" "in_range (right l) (left l)" using step.IH step.prems by simp_all
  from step.hyps(2) show ?case
  proof cases
    case (left n)
    have "link_inv 0 (right l) (left l)" using inv by (simp add: link_inv_sym)
    from in_range_step [OF this rg(2,1) left(2,3)] show ?thesis by (simp add: left(1))
  next
    case (right n)
    from in_range_step [OF inv rg right(2,3)] show ?thesis by (simp add: right(1))
  qed
qed

section \<open>One frame\<close>

lemma overdue_some_time:
  assumes "fabric_up e" "cq_inv (retransmit_buffer e)" "cq_list (retransmit_buffer e) \<noteq> []"
  shows "\<exists>t. overdue (e\<lparr>iteration_ts := t\<rparr>)"
proof -
  obtain el where el: "getfront (retransmit_buffer e) = Some el"
    using getfront_eq [OF assms(2)] assms(3) by (cases "cq_list (retransmit_buffer e)") auto
  have "is_timeout_tx \<lparr>tv_sec = \<bar>send_time el\<bar> + 1, tv_nsec = 0\<rparr> (send_time el)"
    by (simp add: is_timeout_tx_def get_current_timestamp_def)
  then show ?thesis using assms(1) el by (auto simp: overdue_def fabric_up_def)
qed

text \<open>A bound on the age of the entries of the ack buffer.\<close>

definition acks_within :: "nat \<Rightarrow> endpoint \<Rightarrow> bool" where
  "acks_within k e \<longleftrightarrow> list_all (\<lambda>g. (unat (next_rx_seq e) + 4194304 - unat (frame_seq_ack g)) mod 4194304
     \<le> k) (cq_list (ack_buffer e))"

lemma acks_within_recent: "acks_within k e \<Longrightarrow> k \<le> 1048576 \<Longrightarrow> acks_recent e"
  by (auto simp: acks_within_def acks_recent_def list_all_iff intro: order_trans)

text \<open>Every accepted frame makes the entries of the ack buffer one frame older.\<close>

lemma acks_within_next:
  assumes "acks_within k e" "next_rx_seq e' = tloe_seqnum_next (next_rx_seq e)"
    and "ack_buffer e' = ack_buffer e"
  shows "acks_within (Suc k) e'"
proof -
  have "((x + 1) mod 4194304 + 4194304 - y) mod 4194304 \<le> Suc ((x + 4194304 - y) mod 4194304)"
    if y: "y < 4194304" for x y :: nat
  proof -
    have "(x + 1) mod 4194304 + 4194304 - y = (x + 1) mod 4194304 + (4194304 - y)" using y by linarith
    then have "((x + 1) mod 4194304 + 4194304 - y) mod 4194304 = (x + 1 + (4194304 - y)) mod 4194304"
      by (simp only: mod_add_left_eq)
    also have "x + 1 + (4194304 - y) = Suc (x + 4194304 - y)" using y by linarith
    finally show ?thesis by (simp only: mod_Suc) simp
  qed
  moreover have "unat (frame_seq_ack g) < 4194304" for g
    using seq_ok_unat [of "frame_seq_ack g"] by simp
  ultimately have "(unat (next_rx_seq e') + 4194304 - unat (frame_seq_ack g)) mod 4194304 \<le>
      Suc ((unat (next_rx_seq e) + 4194304 - unat (frame_seq_ack g)) mod 4194304)" for g
    unfolding assms(2) next_unat by blast
  then show ?thesis
    using assms(1,3) by (auto simp: acks_within_def list_all_iff intro: order_trans)
qed

text \<open>The state of a round: frame \<open>R\<close> is the next one that \<open>b\<close> expects, and it is in the window of \<open>a\<close>.\<close>

definition awaits :: "nat \<Rightarrow> nat \<Rightarrow> node \<Rightarrow> node \<Rightarrow> nat \<Rightarrow> bool" where
  "awaits m base a b R \<longleftrightarrow> link_inv 0 a b \<and> in_range a b \<and> in_range b a \<and> sender m a base \<and>
     receiver m b (nd_hist a) R \<and> base \<le> R \<and> R < length (nd_hist a)"

text \<open>\<open>a\<close> looks at the clock when the oldest frame is overdue and calls \<open>TX\<close>: the frame is on the wire.\<close>

lemma sender_round:
  assumes "awaits m base a b R"
  obtains a1 a2 j x where "node_step (wire (th_ep b)) a a1" "acks_recent (th_ep a1)"
    "node_step (wire (th_ep b)) a1 a2" "acks_recent (th_ep a2)" "sender m a2 base"
    "link_inv 0 a2 b" "in_range a2 b" "in_range b a2"
    "\<exists>K. nd_hist a2 = nd_hist a @ K" "\<exists>ms. nd_msgs a2 = nd_msgs a @ ms"
    "nd_pos b \<le> j" "j < length (wire (th_ep a2))"
    "wire (th_ep a2) ! j = frame_packet (with_ack (snd (nd_hist a ! R)) x) (fst (nd_hist a ! R))"
proof -
  have inv: "link_inv 0 a b" "node_inv a" and s: "sender m a base"
    and rg: "in_range a b" "in_range b a" and R: "base \<le> R" "R < length (nd_hist a)"
    using assms by (simp_all add: awaits_def link_inv_def)
  let ?k = "nd_hist a ! R"
  have "?k \<in> set (drop base (nd_hist a))"
    using R by (auto simp: in_set_conv_nth intro!: exI [of _ "R - base"])
  then have k: "?k \<in> set (window_keys (th_ep a))" using s by (simp add: sender_def)
  then have "cq_list (retransmit_buffer (th_ep a)) \<noteq> []" by (auto simp: window_keys_def)
  moreover have wf: "ep_wf (th_ep a)" "fabric_up (th_ep a)" using inv(2) by (simp_all add: node_inv_def)
  ultimately obtain t where t: "overdue ((th_ep a)\<lparr>iteration_ts := t\<rparr>)"
    using overdue_some_time [OF _ ep_wfD(1)] by blast
  let ?a1 = "a\<lparr>th_ep := (th_ep a)\<lparr>iteration_ts := t\<rparr>\<rparr>"
  have s1: "node_step (wire (th_ep b)) a ?a1" by (rule node_step.clock)
  have r1: "acks_recent (th_ep ?a1)" using rg(2) by (simp add: in_range_def acks_recent_def)
  have inv': "link_inv 0 b a" using inv(1) by (simp add: link_inv_sym)
  have i1: "link_inv 0 b ?a1" by (rule link_inv_step [OF inv' s1 r1])
  note g1 = in_range_step [OF inv' rg(2,1) s1 r1]
  have n1: "node_inv ?a1" "sender m ?a1 base"
    using i1 s by (simp_all add: link_inv_def sender_def window_keys_def)
  have wf1: "ep_wf (th_ep ?a1)" "pred_option deliverable (th_request ?a1)"
    using n1(1) by (simp_all add: node_inv_def)
  have "\<And>x. th_request ?a1 = Some x \<Longrightarrow> msg_ok x" using wf1(2) by (simp add: deliverable_def)
  then obtain e r where tx: "TX example_env (th_ep ?a1) (th_request ?a1) = Inr (e, r)"
    "tx_frame (th_ep ?a1) e" "tx_result (th_ep ?a1) (th_request ?a1) e r"
    using TX_ok [OF example_env_ok wf1(1)] by metis
  let ?a2 = "transmitted ?a1 e r"
  have s2: "node_step (wire (th_ep b)) ?a1 ?a2"
    unfolding transmitted_def by (rule node_step.transmit [OF example_env_ok tx(1)])
  have "next_rx_seq e = next_rx_seq (th_ep ?a1)" using tx(2) by (simp add: tx_frame_def)
  moreover have "cq_list (ack_buffer e) = cq_list (ack_buffer (th_ep ?a1)) \<or>
      cq_list (ack_buffer e) = tl (cq_list (ack_buffer (th_ep ?a1)))"
    using TX_returned(3) [OF example_env_ok wf1 tx(1)] by (auto simp: tx_idle_def tx_sent_def)
  then have "set (cq_list (ack_buffer e)) \<subseteq> set (cq_list (ack_buffer (th_ep ?a1)))"
    by (cases "cq_list (ack_buffer (th_ep ?a1))") auto
  ultimately have r2: "acks_recent (th_ep ?a2)"
    using r1 by (auto simp: acks_recent_def list_all_iff transmitted_def)
  have i2: "link_inv 0 b ?a2" by (rule link_inv_step [OF i1 s2 r2])
  note g2 = in_range_step [OF i1 g1 s2 r2]
  obtain ps where ps: "wire e = wire (th_ep ?a1) @ ps" "resent (th_ep ?a1) (window_keys (th_ep ?a1)) ps"
    using tx(2) t by (auto simp: tx_frame_def)
  have "window_keys (th_ep ?a1) = window_keys (th_ep a)" by (simp add: window_keys_def)
  then obtain x where "frame_packet (with_ack (snd ?k) x) (fst ?k) \<in> set ps"
    using ps(2) k by (fastforce simp: resent_def)
  then obtain i where i: "i < length ps" "ps ! i = frame_packet (with_ack (snd ?k) x) (fst ?k)"
    by (auto simp: in_set_conv_nth)
  let ?j = "length (wire (th_ep a)) + i"
  have "nd_pos b \<le> ?j" using rg(1) by (simp add: in_range_def)
  moreover have "th_ep ?a2 = e" by (simp add: transmitted_def)
  then have "?j < length (wire (th_ep ?a2))" "wire (th_ep ?a2) ! ?j = ps ! i"
    using ps(1) i(1) by (simp_all add: nth_append)
  ultimately show thesis
    using s1 r1 s2 r2 sender_transmit(1) [OF n1(2,1) example_env_ok tx(1)] i2 g2 i(2)
    by (intro that [of ?a1 ?a2 ?j x]) (simp_all add: link_inv_sym transmitted_def)
qed

text \<open>\<open>b\<close> receives the frame it awaits.\<close>

lemma receiver_round:
  assumes "awaits m base a b R" "acks_within k (th_ep b)" "k < 1048576"
    and "nd_pos b \<le> j" "j < length (wire (th_ep a))"
    and "wire (th_ep a) ! j = frame_packet (with_ack (snd (nd_hist a ! R)) x) (fst (nd_hist a ! R))"
    and "length (cq_list (tl_msg_buffer (th_ep b))) + length (key_blocks (nd_hist a ! R)) \<le>
      cq_cap (tl_msg_buffer (th_ep b))"
  obtains b' where "node_step (wire (th_ep a)) b b'" "acks_within (Suc k) (th_ep b')"
    "link_inv 0 a b'" "in_range a b'" "in_range b' a" "receiver m b' (nd_hist a) (Suc R)"
    "nd_got b' = nd_got b @ key_blocks (nd_hist a ! R)"
    "cq_list (tl_msg_buffer (th_ep b')) = cq_list (tl_msg_buffer (th_ep b)) @ key_blocks (nd_hist a ! R)"
    "cq_cap (tl_msg_buffer (th_ep b')) = cq_cap (tl_msg_buffer (th_ep b))"
proof -
  let ?k = "nd_hist a ! R"
  let ?f = "with_ack (snd ?k) x"
  have inv: "link_inv 0 a b" and rg: "in_range a b" "in_range b a" and s: "sender m a base"
    and rc: "receiver m b (nd_hist a) R" and R: "R < length (nd_hist a)"
    using assms(1) by (simp_all add: awaits_def)
  have b: "ep_wf (th_ep b)" "fabric_up (th_ep b)" using inv by (simp_all add: link_inv_def node_inv_def)
  have ok: "key_ok (Suc (m + R)) ?k" using s R by (simp add: sender_def)
  note rx = key_received(1) [OF ok, where a = x and junk = "[]"] key_received(2) [OF ok, where a = x]
  have f: "frame_readable ?f (fst ?k)" "\<not> is_ackonly_frame ?f" "frame_seq ?f = seq_of (Suc (m + R))"
    using ok by (simp_all add: key_ok_def is_ackonly_frame_def)
  then have ty: "tloe_rx_get_req_type (th_ep b) ?f = REQ_NORMAL"
    using rc unfolding rx_normal_seq by (simp add: receiver_def)
  then have "rx_room (th_ep b) ?f (fst ?k)"
    using assms(7) by (simp add: rx_room_def key_blocks_def)
  then obtain e where e: "RX True (fst ?k, frame_packet ?f (fst ?k) @ []) (th_ep b) = Inr e"
    "rx_result (th_ep b) ?f (fst ?k) e"
    using RX_ok [OF b rx(1)] f(1) by metis
  then have tk: "rx_takes (th_ep b) ?f (fst ?k) e"
    using f(2) ty by (simp add: rx_result_def rx_kind_def)
  then have w: "acks_within (Suc k) e"
    using acks_within_next [OF assms(2)] by (simp add: rx_takes_def)
  then have rec: "acks_recent e" by (rule acks_within_recent) (rule Suc_leI [OF assms(3)])
  let ?b = "received b j e"
  have step: "node_step (wire (th_ep a)) b ?b"
    unfolding received_def
    by (rule node_step.receive [OF assms(4,5), where junk = "[]"]) (use e(1) in \<open>simp only: assms(6) rx(2)\<close>)
  have rec': "acks_recent (th_ep ?b)" using rec by simp
  note acc = receiver_accepts(1,3) [OF rc R refl refl tk rec, where j = j]
    receiver_accepts(2) [OF rc R refl refl tk rec]
  show thesis
    using that [OF step _ link_inv_step [OF inv step rec'] in_range_step [OF inv rg step rec'] acc(1,2)]
      w acc(3) tk by (simp add: rx_takes_def)
qed

section \<open>Every message can be delivered\<close>

text \<open>What a delivery does: the blocks go to the end of the queue for the handler.\<close>

definition takes_blocks :: "node \<Rightarrow> tl_block list \<Rightarrow> node \<Rightarrow> bool" where
  "takes_blocks b bs b' \<longleftrightarrow> nd_got b' = nd_got b @ bs \<and>
     cq_list (tl_msg_buffer (th_ep b')) = cq_list (tl_msg_buffer (th_ep b)) @ bs \<and>
     cq_cap (tl_msg_buffer (th_ep b')) = cq_cap (tl_msg_buffer (th_ep b))"

text \<open>The two halves of a round, from the left to the right.\<close>

lemma frame_round:
  assumes "awaits m base (left l) (right l) R" "acks_within k (th_ep (right l))" "k < 1048576"
    and "length (cq_list (tl_msg_buffer (th_ep (right l)))) + length (key_blocks (nd_hist (left l) ! R)) \<le>
      cq_cap (tl_msg_buffer (th_ep (right l)))"
  obtains l' K ms where "link_step\<^sup>*\<^sup>* l l'" "nd_hist (left l') = nd_hist (left l) @ K"
    "nd_msgs (left l') = nd_msgs (left l) @ ms" "acks_within (Suc k) (th_ep (right l'))"
    "takes_blocks (right l) (key_blocks (nd_hist (left l) ! R)) (right l')"
    "Suc R < length (nd_hist (left l')) \<Longrightarrow> awaits m base (left l') (right l') (Suc R)"
proof -
  let ?a = "left l" and ?b = "right l"
  have R: "R < length (nd_hist ?a)" "base \<le> R" using assms(1) by (simp_all add: awaits_def)
  obtain a1 a2 j x K ms where a: "node_step (wire (th_ep ?b)) ?a a1" "acks_recent (th_ep a1)"
    "node_step (wire (th_ep ?b)) a1 a2" "acks_recent (th_ep a2)" "sender m a2 base"
    "link_inv 0 a2 ?b" "in_range a2 ?b" "in_range ?b a2"
    "nd_hist a2 = nd_hist ?a @ K" "nd_msgs a2 = nd_msgs ?a @ ms"
    "nd_pos ?b \<le> j" "j < length (wire (th_ep a2))"
    "wire (th_ep a2) ! j = frame_packet (with_ack (snd (nd_hist ?a ! R)) x) (fst (nd_hist ?a ! R))"
    by (rule sender_round [OF assms(1)]) blast
  have same: "nd_hist a2 ! R = nd_hist ?a ! R" using a(9) R(1) by (simp add: nth_append)
  have aw: "awaits m base a2 ?b R"
    using assms(1) a(5-9) R by (auto simp: awaits_def receiver_def)
  obtain b' where b: "node_step (wire (th_ep a2)) ?b b'" "acks_within (Suc k) (th_ep b')"
    "link_inv 0 a2 b'" "in_range a2 b'" "in_range b' a2" "receiver m b' (nd_hist a2) (Suc R)"
    "takes_blocks ?b (key_blocks (nd_hist ?a ! R)) b'"
    by (rule receiver_round [OF aw assms(2,3) a(11,12), unfolded same, OF a(13) assms(4)])
      (simp add: takes_blocks_def)
  have rec: "acks_recent (th_ep b')" by (rule acks_within_recent [OF b(2) Suc_leI [OF assms(3)]])
  let ?l1 = "l\<lparr>left := a1\<rparr>" and ?l2 = "l\<lparr>left := a2\<rparr>" and ?l3 = "l\<lparr>left := a2, right := b'\<rparr>"
  have "link_step l ?l1" by (rule link_step.left [OF a(1,2)])
  moreover have "link_step ?l1 ?l2" using link_step.left [of ?l1 a2] a(3,4) by simp
  moreover have "link_step ?l2 ?l3" using link_step.right [of ?l2 b'] b(1) rec by simp
  ultimately have "link_step\<^sup>*\<^sup>* l ?l3" by (meson r_into_rtranclp rtranclp_trans)
  then show thesis
    using a(5,9,10) b(2-7) R(2) by (intro that [of ?l3 K ms]) (simp_all add: awaits_def)
qed

text \<open>The frames up to \<open>t\<close>, the first that carries a message, are delivered one after the other.\<close>

lemma deliver_next:
  assumes "awaits m base (left l) (right l) R" "R + d < length (nd_hist (left l))"
    and "\<And>i. i < d \<Longrightarrow> key_blocks (nd_hist (left l) ! (R + i)) = []"
    and "key_blocks (nd_hist (left l) ! (R + d)) = [x]"
    and "acks_within k (th_ep (right l))" "k + d < 1048576"
    and "length (cq_list (tl_msg_buffer (th_ep (right l)))) < cq_cap (tl_msg_buffer (th_ep (right l)))"
  shows "\<exists>l'. link_step\<^sup>*\<^sup>* l l' \<and> nd_got (right l') = nd_got (right l) @ [x] \<and>
    (\<exists>ms. nd_msgs (left l') = nd_msgs (left l) @ ms)"
  using assms
proof (induction d arbitrary: l R k)
  case (0 l R k)
  then have "key_blocks (nd_hist (left l) ! R) = [x]" by simp
  then show ?case
    using frame_round [OF "0.prems"(1,5)] "0.prems"(6,7) by (auto simp: takes_blocks_def)
next
  case (Suc d l R k)
  have none: "key_blocks (nd_hist (left l) ! R) = []" using Suc.prems(3) [of 0] by simp
  obtain l1 K ms where l1: "link_step\<^sup>*\<^sup>* l l1" "nd_hist (left l1) = nd_hist (left l) @ K"
    "nd_msgs (left l1) = nd_msgs (left l) @ ms" "acks_within (Suc k) (th_ep (right l1))"
    "takes_blocks (right l) [] (right l1)"
    "Suc R < length (nd_hist (left l1)) \<Longrightarrow> awaits m base (left l1) (right l1) (Suc R)"
    using frame_round [OF Suc.prems(1,5)] Suc.prems(6,7) unfolding none by auto
  have hist: "nd_hist (left l1) ! i = nd_hist (left l) ! i" if "i \<le> R + Suc d" for i
    using l1(2) Suc.prems(2) that by (simp add: nth_append)
  have "\<exists>l'. link_step\<^sup>*\<^sup>* l1 l' \<and> nd_got (right l') = nd_got (right l1) @ [x] \<and>
      (\<exists>ms. nd_msgs (left l') = nd_msgs (left l1) @ ms)"
  proof (rule Suc.IH [OF l1(6)])
    show "key_blocks (nd_hist (left l1) ! (Suc R + i)) = []" if "i < d" for i
      using Suc.prems(3) [of "Suc i"] hist [of "Suc R + i"] that by simp
    show "key_blocks (nd_hist (left l1) ! (Suc R + d)) = [x]"
      using Suc.prems(4) hist [of "Suc R + d"] by simp
    show "acks_within (Suc k) (th_ep (right l1))" by (rule l1(4))
    show "Suc k + d < 1048576" using Suc.prems(6) by (simp only: add_Suc add_Suc_right)
    have "cq_list (tl_msg_buffer (th_ep (right l1))) = cq_list (tl_msg_buffer (th_ep (right l)))"
      "cq_cap (tl_msg_buffer (th_ep (right l1))) = cq_cap (tl_msg_buffer (th_ep (right l)))"
      using l1(5) by (simp_all add: takes_blocks_def)
    then show "length (cq_list (tl_msg_buffer (th_ep (right l1)))) < cq_cap (tl_msg_buffer (th_ep (right l1)))"
      using Suc.prems(7) by (simp only:)
  qed (use Suc.prems(2) l1(2) in simp_all)
  then show ?case using l1(1,3,5) by (auto simp: takes_blocks_def intro: rtranclp_trans)
qed

text \<open>The first frame that carries a message, of those that the receiver has not accepted.\<close>

lemma first_block:
  assumes "length (concat (map key_blocks (take R H))) < length (concat (map key_blocks H))"
    and "\<And>i. i < length H \<Longrightarrow> length (key_blocks (H ! i)) \<le> 1"
  obtains d x where "R + d < length H" "\<And>i. i < d \<Longrightarrow> key_blocks (H ! (R + i)) = []"
    "key_blocks (H ! (R + d)) = [x]"
proof -
  let ?P = "\<lambda>d. R + d < length H \<and> key_blocks (H ! (R + d)) \<noteq> []"
  have "concat (map key_blocks H) = concat (map key_blocks (take R H)) @ concat (map key_blocks (drop R H))"
    by (metis append_take_drop_id concat_append map_append)
  then have "concat (map key_blocks (drop R H)) \<noteq> []" using assms(1) by auto
  then obtain k where "k \<in> set (drop R H)" "key_blocks k \<noteq> []" by auto
  then obtain i where "i < length H - R" "key_blocks (H ! (R + i)) \<noteq> []" by (auto simp: in_set_conv_nth)
  then have "?P i" by simp
  then obtain d where d: "?P d" "\<forall>i < d. \<not> ?P i" using exists_least_iff [of ?P] by blast
  then obtain x where "key_blocks (H ! (R + d)) = [x]"
    using assms(2) [of "R + d"] by (cases "key_blocks (H ! (R + d))") simp_all
  moreover have "key_blocks (H ! (R + i)) = []" if "i < d" for i
    using d that by (metis add_strict_left_mono less_trans)
  ultimately show thesis using that d(1) by blast
qed

section \<open>Properties\<close>

text \<open>C2: The link never gets stuck.  In every state that two connected endpoints reach over the lossy
  network, whatever was lost before, if the left one has taken over a message that the right one has not
  yet accepted, and the right one has room for a message and no acknowledgement waiting that is more
  than 1048572 frames old, then further steps exist that deliver exactly the next message in order to
  the right one.  The proof takes them: the oldest frame times out, its retransmission puts the window
  on the wire again, and the receiver accepts the frames up to the one with the message.\<close>

theorem link_not_stuck:
  assumes "link_start l0" "link_step\<^sup>*\<^sup>* l0 l"
    and "length (nd_got (right l)) < length (nd_msgs (left l))"
    and "acks_within 1048572 (th_ep (right l))"
    and "length (cq_list (tl_msg_buffer (th_ep (right l)))) < cq_cap (tl_msg_buffer (th_ep (right l)))"
  shows "\<exists>l'. link_step\<^sup>*\<^sup>* l l' \<and>
    nd_got (right l') = nd_got (right l) @ [Block (nd_msgs (left l) ! length (nd_got (right l)))]"
proof -
  let ?a = "left l" and ?b = "right l"
  have inv: "link_inv 0 ?a ?b" by (rule link_inv_run [OF assms(2,1)])
  have rg: "in_range ?a ?b" "in_range ?b ?a" using in_range_run [OF assms(2,1)] by simp_all
  obtain m base R where d: "sender m ?a base" "receiver m ?b (nd_hist ?a) R" "base \<le> R"
    using inv by (auto simp: link_inv_def direction_def flow_def)
  have s: "concat (map key_blocks (nd_hist ?a)) = map Block (nd_msgs ?a)"
    "\<And>i. i < length (nd_hist ?a) \<Longrightarrow> length (key_blocks (nd_hist ?a ! i)) \<le> 1"
    using d(1) by (simp_all add: sender_def key_ok_def)
  have "length (concat (map key_blocks (take R (nd_hist ?a)))) < length (concat (map key_blocks (nd_hist ?a)))"
    using assms(3) d(2) by (simp add: receiver_def s(1))
  from first_block [OF this s(2)] obtain n x where x: "R + n < length (nd_hist ?a)"
    "\<And>i. i < n \<Longrightarrow> key_blocks (nd_hist ?a ! (R + i)) = []" "key_blocks (nd_hist ?a ! (R + n)) = [x]"
    by blast
  have "length (nd_hist ?a) \<le> base + 4"
    using sender_window(1) [OF d(1)] inv by (simp add: link_inv_def node_inv_def)
  then have n: "1048572 + n < 1048576" using x(1) d(3) by simp
  have "awaits m base ?a ?b R" using inv rg d x(1) by (simp add: awaits_def)
  from deliver_next [OF this x assms(4) n assms(5)] obtain l' ms where
    l': "link_step\<^sup>*\<^sup>* l l'" "nd_got (right l') = nd_got ?b @ [x]" "nd_msgs (left l') = nd_msgs ?a @ ms"
    by blast
  have "link_inv 0 (left l') (right l')" by (rule link_inv_run [OF rtranclp_trans [OF assms(2) l'(1)] assms(1)])
  then have "prefix (nd_got ?b @ [x]) (map Block (nd_msgs ?a @ ms))"
    unfolding l'(2,3) [symmetric] link_inv_def by (elim conjE exE) (rule direction_prefix)
  then obtain zs where "map Block (nd_msgs ?a @ ms) = (nd_got ?b @ [x]) @ zs" by (rule prefixE)
  then have "map Block (nd_msgs ?a @ ms) ! length (nd_got ?b) = x" by (simp only:) simp
  then have "x = Block (nd_msgs ?a ! length (nd_got ?b))" using assms(3) by (simp add: nth_append)
  then show ?thesis using l'(1,2) by blast
qed

theorem link_not_stuck_witness:
  "\<exists>l l'. link_step\<^sup>*\<^sup>* example_link l \<and> nd_got (right l) = [] \<and> link_step\<^sup>*\<^sup>* l l' \<and>
     nd_got (right l') = [Block example_write]"
proof -
  obtain n where n: "link_step\<^sup>*\<^sup>* example_link (example_link\<lparr>left := n\<rparr>)" "nd_msgs n = [example_write]"
    by (rule example_delivery)
  let ?l = "example_link\<lparr>left := n\<rparr>"
  have r: "right ?l = example_node" "left ?l = n" by (simp_all add: example_link_def)
  have "acks_within 1048572 (th_ep example_node)" "nd_got example_node = []"
    "cq_list (tl_msg_buffer (th_ep example_node)) = []" "cq_cap (tl_msg_buffer (th_ep example_node)) > 0"
    by (simp_all add: acks_within_def example_node_def)
  then show ?thesis
    using link_not_stuck [OF example_link_start n(1)] n r by auto
qed

end
