(* ===== verification/Mq.thy ===== *)
theory Mq
  imports Endpoint
begin

text \<open>
  The message queue fabric, \<open>tloe_mq.c\<close>.  The kernel's answers are arguments: \<open>mq_open\<close> is a function
  from the name of a queue and the creation flag to a descriptor, \<open>-1\<close> when it fails; \<open>mq_send\<close> and
  \<open>mq_receive\<close> deliver their results.
\<close>

record tloe_mq =
  mq_tx :: int
  mq_rx :: int

abbreviation (input) "TLOE_MQ_MSG_SIZE \<equiv> (1600 :: int)"
abbreviation (input) "TLOE_MQ_MAX_QUEUE_NAME_SIZE \<equiv> (256 :: nat)"

type_synonym mq_opener = "string \<Rightarrow> bool \<Rightarrow> int"

text \<open>The suffixes of the queue to send to and the queue to receive from; \<open>strncmp\<close> over the size of
  the literal compares the terminating null character as well.\<close>

definition mq_suffixes :: "string \<Rightarrow> string \<times> string" where
  "mq_suffixes role = (if role = ''-master'' then (''-a'', ''-b'') else (''-b'', ''-a''))"

text \<open>The name is put together in a buffer of 256 characters.\<close>

definition create_message_queue :: "mq_opener \<Rightarrow> string \<Rightarrow> string \<Rightarrow> bool \<Rightarrow> int result" where
  "create_message_queue mq_open queue_name suffix create =
     (if TLOE_MQ_MAX_QUEUE_NAME_SIZE \<le> length (queue_name @ suffix) then Inl Out_Of_Bounds
      else let mq = mq_open (queue_name @ suffix) create
           in if mq = -1 then Inl Exited else Inr mq)"

definition tloe_mq_alloc_and_init :: "bool \<Rightarrow> tloe_mq result" where
  "tloe_mq_alloc_and_init alloc = (if alloc then Inr \<lparr>mq_tx = -1, mq_rx = -1\<rparr> else Inl Null_Deref)"

definition tloe_mq_open :: "mq_opener \<Rightarrow> bool \<Rightarrow> string \<Rightarrow> string \<Rightarrow> bool \<Rightarrow> tloe_mq result" where
  "tloe_mq_open mq_open alloc queue_name role create =
     bindR (tloe_mq_alloc_and_init alloc) (\<lambda>ether.
     case mq_suffixes role of
       (tx_suffix, rx_suffix) \<Rightarrow>
         bindR (create_message_queue mq_open queue_name tx_suffix create) (\<lambda>tx.
         bindR (create_message_queue mq_open queue_name rx_suffix create) (\<lambda>rx.
           Inr (ether\<lparr>mq_tx := tx, mq_rx := rx\<rparr>))))"

text \<open>The descriptors that are closed, and whether the structure is freed.\<close>

definition tloe_mq_close :: "tloe_mq option \<Rightarrow> int list \<times> bool" where
  "tloe_mq_close ether =
     (case ether of
        None \<Rightarrow> ([], False)
      | Some q \<Rightarrow> ((if mq_tx q \<noteq> -1 then [mq_tx q] else []) @ (if mq_rx q \<noteq> -1 then [mq_rx q] else []),
                   True))"

text \<open>The result of \<open>mq_send\<close>, as a \<open>size_t\<close>.\<close>

definition tloe_mq_send :: "int \<Rightarrow> u64" where
  "tloe_mq_send ret = word_of_int ret"

text \<open>\<open>mq_receive\<close> is told that the buffer has 1600 bytes, whatever its size \<open>n\<close> is.\<close>

definition tloe_mq_recv :: "int \<Rightarrow> recv_event \<Rightarrow> recv_event result" where
  "tloe_mq_recv n ev = (if n < fst ev then Inl Out_Of_Bounds else Inr ev)"

section \<open>Lemmas\<close>

lemma tloe_mq_open_Inr:
  "tloe_mq_open mq_open alloc name role create = Inr q \<longleftrightarrow>
     alloc \<and> length name \<le> 253 \<and>
     mq_tx q = mq_open (name @ fst (mq_suffixes role)) create \<and> mq_tx q \<noteq> -1 \<and>
     mq_rx q = mq_open (name @ snd (mq_suffixes role)) create \<and> mq_rx q \<noteq> -1"
  by (cases q) (auto simp: tloe_mq_open_def create_message_queue_def tloe_mq_alloc_and_init_def
      mq_suffixes_def Let_def bindR_Inr_iff split: if_splits)

text \<open>No result of \<open>mq_send\<close> is negative as a \<open>size_t\<close>.\<close>

lemma tloe_mq_send_not_negative: "\<not> uint (tloe_mq_send ret) < 0"
  by simp

lemma tloe_mq_close_open:
  "tloe_mq_open mq_open alloc name role create = Inr q \<Longrightarrow> tloe_mq_close (Some q) = ([mq_tx q, mq_rx q], True)"
  by (simp add: tloe_mq_open_Inr tloe_mq_close_def)

end
