(* ===== verification/Ns_Thread.thy ===== *)
theory Ns_Thread
  imports Mq
begin

text \<open>
  The relay of the network simulator, \<open>tloe_ns_thread.c\<close>: a thread that passes the packets of two
  message queue ports on to each other and drops as many of them as it was told to, and the functions
  that start, stop and flush it.
\<close>

section \<open>State\<close>

text \<open>Where the thread is: there is none, it has been created and has not opened its ports yet, it is at
  the test of its loop.\<close>

datatype ns_pc = Ns_None | Ns_Created | Ns_Loop

text \<open>The static variables of the file.  The last fields are ghosts: the packets handed to \<open>mq_send\<close> for
  each port, whether the kernel takes them or not, and the descriptors that were closed.\<close>

record relay =
  ns_is_done :: bool
  ep_port_a :: "tloe_mq option"
  ep_port_b :: "tloe_mq option"
  drop_count_a_to_b :: int
  drop_count_b_to_a :: int
  ns_thread :: ns_pc
  sent_a :: "byte list list"
  sent_b :: "byte list list"
  ns_closed :: "int list"

definition ns_initial :: relay where
  "ns_initial = \<lparr>ns_is_done = True, ep_port_a = None, ep_port_b = None, drop_count_a_to_b = 0,
     drop_count_b_to_a = 0, ns_thread = Ns_None, sent_a = [], sent_b = [], ns_closed = []\<rparr>"

abbreviation (input) "BUFFER_SIZE \<equiv> (1024 :: int)"
abbreviation (input) "MAX_QUEUE_NAME \<equiv> (64 :: nat)"

text \<open>What a step of the thread takes from outside: the kernel's queues, the two allocations, what the two
  ports receive.\<close>

record relay_env =
  re_open :: mq_opener
  re_alloc_a :: bool
  re_alloc_b :: bool
  re_recv_a :: recv_event
  re_recv_b :: recv_event

section \<open>The thread\<close>

text \<open>\<open>snprintf\<close> into a buffer of 64 characters.\<close>

definition port_name :: "string \<Rightarrow> string \<Rightarrow> string" where
  "port_name queue_name suffix = take (MAX_QUEUE_NAME - 1) (queue_name @ suffix)"

text \<open>\<open>tloe_mq_open\<close> does not return NULL, so \<open>thread_init\<close> does not fail.\<close>

definition thread_init :: "relay_env \<Rightarrow> string \<Rightarrow> relay \<Rightarrow> relay result" where
  "thread_init env queue_name st =
     bindR (tloe_mq_open (re_open env) (re_alloc_a env) (port_name queue_name ''-a'') ''-slave'' True) (\<lambda>a.
     bindR (tloe_mq_open (re_open env) (re_alloc_b env) (port_name queue_name ''-b'') ''-master'' True) (\<lambda>b.
       Inr (st\<lparr>ep_port_a := Some a, ep_port_b := Some b\<rparr>)))"

definition thread_close :: "relay \<Rightarrow> relay" where
  "thread_close st =
     (let st = (if ep_port_a st \<noteq> None
                then st\<lparr>ns_closed := ns_closed st @ fst (tloe_mq_close (ep_port_a st)), ep_port_a := None\<rparr>
                else st)
      in if ep_port_b st \<noteq> None
         then st\<lparr>ns_closed := ns_closed st @ fst (tloe_mq_close (ep_port_b st)), ep_port_b := None\<rparr>
         else st)"

text \<open>What becomes of what was received, given the drop counter: the new counter, and the packet to send on.\<close>

definition relay_packet :: "recv_event \<Rightarrow> int \<Rightarrow> int \<times> byte list option" where
  "relay_packet ev count =
     (case ev of
        (n, buffer) \<Rightarrow>
          if n > 0 then
            if count > 0 then (count - 1, None) else (count, Some (take (nat n) buffer))
          else (count, None))"

definition relay_a_to_b :: "recv_event \<Rightarrow> relay \<Rightarrow> relay result" where
  "relay_a_to_b ev st =
     (if ep_port_a st = None then Inl Null_Deref
      else bindR (tloe_mq_recv BUFFER_SIZE ev) (\<lambda>ev.
        case relay_packet ev (drop_count_a_to_b st) of
          (count, None) \<Rightarrow> Inr (st\<lparr>drop_count_a_to_b := count\<rparr>)
        | (count, Some p) \<Rightarrow>
            if ep_port_b st = None then Inl Null_Deref
            else Inr (st\<lparr>drop_count_a_to_b := count, sent_b := sent_b st @ [p]\<rparr>)))"

definition relay_b_to_a :: "recv_event \<Rightarrow> relay \<Rightarrow> relay result" where
  "relay_b_to_a ev st =
     (if ep_port_b st = None then Inl Null_Deref
      else bindR (tloe_mq_recv BUFFER_SIZE ev) (\<lambda>ev.
        case relay_packet ev (drop_count_b_to_a st) of
          (count, None) \<Rightarrow> Inr (st\<lparr>drop_count_b_to_a := count\<rparr>)
        | (count, Some p) \<Rightarrow>
            if ep_port_a st = None then Inl Null_Deref
            else Inr (st\<lparr>drop_count_b_to_a := count, sent_a := sent_a st @ [p]\<rparr>)))"

definition thread_fn_step :: "relay_env \<Rightarrow> string \<Rightarrow> relay \<Rightarrow> relay result" where
  "thread_fn_step env queue_name st =
     (case ns_thread st of
        Ns_None \<Rightarrow> Inr st
      | Ns_Created \<Rightarrow> bindR (thread_init env queue_name st) (\<lambda>st. Inr (st\<lparr>ns_thread := Ns_Loop\<rparr>))
      | Ns_Loop \<Rightarrow>
          if ns_is_done st then Inr ((thread_close st)\<lparr>ns_thread := Ns_None\<rparr>)
          else bindR (relay_a_to_b (re_recv_a env) st) (relay_b_to_a (re_recv_b env)))"

text \<open>The thread over several steps.\<close>

fun thread_fn :: "relay_env list \<Rightarrow> string \<Rightarrow> relay \<Rightarrow> relay result" where
  "thread_fn [] queue_name st = Inr st"
| "thread_fn (env # envs) queue_name st =
     bindR (thread_fn_step env queue_name st) (thread_fn envs queue_name)"

section \<open>Control\<close>

definition tloe_ns_set_drop_count_a_to_b :: "int \<Rightarrow> relay \<Rightarrow> relay" where
  "tloe_ns_set_drop_count_a_to_b count st = st\<lparr>drop_count_a_to_b := count\<rparr>"

definition tloe_ns_set_drop_count_b_to_a :: "int \<Rightarrow> relay \<Rightarrow> relay" where
  "tloe_ns_set_drop_count_b_to_a count st = st\<lparr>drop_count_b_to_a := count\<rparr>"

definition tloe_ns_set_drop_count_bidirectional :: "int \<Rightarrow> relay \<Rightarrow> relay" where
  "tloe_ns_set_drop_count_bidirectional count st =
     st\<lparr>drop_count_a_to_b := count, drop_count_b_to_a := count\<rparr>"

text \<open>\<open>created\<close>: whether \<open>pthread_create\<close> succeeds.\<close>

definition tloe_ns_thread_start :: "bool \<Rightarrow> relay \<Rightarrow> relay" where
  "tloe_ns_thread_start created st =
     (if \<not> ns_is_done st then st
      else let st = st\<lparr>ns_is_done := False\<rparr>
           in if \<not> created then st else st\<lparr>ns_thread := Ns_Created\<rparr>)"

text \<open>\<open>pthread_join\<close> runs the thread to its end: \<open>env\<close> is for the opening of its ports, if that is still
  to come.  There has to be a thread.\<close>

definition ns_join :: "relay_env \<Rightarrow> string \<Rightarrow> relay \<Rightarrow> relay result" where
  "ns_join env queue_name st =
     (case ns_thread st of
        Ns_None \<Rightarrow> Inl Undefined
      | Ns_Created \<Rightarrow> bindR (thread_fn_step env queue_name st) (thread_fn_step env queue_name)
      | Ns_Loop \<Rightarrow> thread_fn_step env queue_name st)"

definition tloe_ns_thread_stop :: "relay_env \<Rightarrow> string \<Rightarrow> relay \<Rightarrow> relay result" where
  "tloe_ns_thread_stop env queue_name st =
     (if ns_is_done st then Inr st else ns_join env queue_name (st\<lparr>ns_is_done := True\<rparr>))"

definition tloe_ns_thread_is_done :: "relay \<Rightarrow> bool" where
  "tloe_ns_thread_is_done st = ns_is_done st"

text \<open>The kernel's answers to \<open>mq_getattr\<close>, \<open>mq_setattr\<close>, the calls of \<open>mq_receive\<close>, and the second
  \<open>mq_setattr\<close>.\<close>

record flush_env =
  fl_getattr :: int
  fl_setattr :: int
  fl_receive :: "int list"
  fl_restore :: int

text \<open>The result, and the sizes of the messages taken out.\<close>

definition flush_message_queue :: "flush_env \<Rightarrow> int \<times> int list" where
  "flush_message_queue env =
     (if fl_getattr env = -1 then (-1, [])
      else if fl_setattr env = -1 then (-1, [])
      else let flushed = takeWhile (\<lambda>n. n \<ge> 0) (fl_receive env)
           in (if fl_restore env = -1 then -1 else 0, flushed))"

text \<open>Both queues of a port; the second only if the first went well.  The result tells whether success is
  reported.\<close>

definition flush_port :: "flush_env \<Rightarrow> flush_env \<Rightarrow> bool" where
  "flush_port tx rx \<longleftrightarrow> fst (flush_message_queue tx) = 0 \<and> fst (flush_message_queue rx) = 0"

record flush_envs =
  fl_a_tx :: flush_env
  fl_a_rx :: flush_env
  fl_b_tx :: flush_env
  fl_b_rx :: flush_env

definition tloe_ns_flush_ports :: "flush_envs \<Rightarrow> relay \<Rightarrow> (bool \<times> bool) result" where
  "tloe_ns_flush_ports env st =
     (if ns_is_done st then Inr (False, False)
      else if ep_port_a st = None then Inl Null_Deref
      else let a = flush_port (fl_a_tx env) (fl_a_rx env) in
        if ep_port_b st = None then Inl Null_Deref
        else Inr (a, flush_port (fl_b_tx env) (fl_b_rx env)))"

section \<open>Lemmas\<close>

lemmas ns_control_defs = tloe_ns_thread_start_def tloe_ns_set_drop_count_a_to_b_def
  tloe_ns_set_drop_count_b_to_a_def tloe_ns_set_drop_count_bidirectional_def

text \<open>The packets among the things received.\<close>

definition packets :: "recv_event list \<Rightarrow> byte list list" where
  "packets evs = map (\<lambda>(n, buffer). take (nat n) buffer) (filter (\<lambda>(n, buffer). 0 < n) evs)"

lemma packets_simps [simp]:
  "packets [] = []"
  "packets (ev # evs) = (if 0 < fst ev then [take (nat (fst ev)) (snd ev)] else []) @ packets evs"
  "packets (evs @ evs') = packets evs @ packets evs'"
  by (simp_all add: packets_def split: prod.splits)

text \<open>The thread is relaying.\<close>

definition relaying :: "relay \<Rightarrow> bool" where
  "relaying st \<longleftrightarrow> ns_thread st = Ns_Loop \<and> \<not> ns_is_done st \<and> ep_port_a st \<noteq> None \<and> ep_port_b st \<noteq> None"

text \<open>What one direction does with what was received, in general.\<close>

definition passed :: "int \<Rightarrow> recv_event list \<Rightarrow> byte list list" where
  "passed count evs = drop (nat count) (packets evs)"

definition drops_left :: "int \<Rightarrow> recv_event list \<Rightarrow> int" where
  "drops_left count evs = (if count \<le> 0 then count else max 0 (count - int (length (packets evs))))"

lemma relay_packet_eq:
  "relay_packet ev count = (drops_left count [ev],
     if 0 < fst ev \<and> count \<le> 0 then Some (take (nat (fst ev)) (snd ev)) else None)"
  by (cases ev) (auto simp: relay_packet_def drops_left_def)

lemma passed_Cons:
  "passed count (ev # evs) = passed count [ev] @ passed (drops_left count [ev]) evs"
proof (cases "0 < fst ev \<and> 0 < count")
  case True
  then have "nat count = Suc (nat (count - 1))" by linarith
  then show ?thesis using True by (simp add: passed_def drops_left_def)
qed (auto simp: passed_def drops_left_def)

lemma drops_left_Cons: "drops_left count (ev # evs) = drops_left (drops_left count [ev]) evs"
  by (auto simp: drops_left_def)

lemma relay_one:
  assumes "relaying st" "fst ev \<le> 1024"
  shows "relay_a_to_b ev st = Inr (st\<lparr>drop_count_a_to_b := drops_left (drop_count_a_to_b st) [ev],
      sent_b := sent_b st @ passed (drop_count_a_to_b st) [ev]\<rparr>)"
    "relay_b_to_a ev st = Inr (st\<lparr>drop_count_b_to_a := drops_left (drop_count_b_to_a st) [ev],
      sent_a := sent_a st @ passed (drop_count_b_to_a st) [ev]\<rparr>)"
  using assms
  by (auto simp: relay_a_to_b_def relay_b_to_a_def tloe_mq_recv_def relay_packet_eq relaying_def passed_def)

lemma relaying_step:
  assumes "relaying st" "fst (re_recv_a env) \<le> 1024" "fst (re_recv_b env) \<le> 1024"
  shows "thread_fn_step env q st =
    Inr (st\<lparr>drop_count_a_to_b := drops_left (drop_count_a_to_b st) [re_recv_a env],
      sent_b := sent_b st @ passed (drop_count_a_to_b st) [re_recv_a env],
      drop_count_b_to_a := drops_left (drop_count_b_to_a st) [re_recv_b env],
      sent_a := sent_a st @ passed (drop_count_b_to_a st) [re_recv_b env]\<rparr>)"
proof -
  let ?st = "st\<lparr>drop_count_a_to_b := drops_left (drop_count_a_to_b st) [re_recv_a env],
      sent_b := sent_b st @ passed (drop_count_a_to_b st) [re_recv_a env]\<rparr>"
  have "thread_fn_step env q st = relay_b_to_a (re_recv_b env) ?st"
    using assms(1) relay_one(1) [OF assms(1,2)] by (simp add: thread_fn_step_def relaying_def)
  moreover have "relaying ?st" using assms(1) by (simp add: relaying_def)
  ultimately show ?thesis using relay_one(2) [OF _ assms(3), of ?st] by simp
qed

lemma relay_run:
  assumes "relaying st" "\<forall>env \<in> set envs. fst (re_recv_a env) \<le> 1024 \<and> fst (re_recv_b env) \<le> 1024"
  shows "thread_fn envs q st =
    Inr (st\<lparr>drop_count_a_to_b := drops_left (drop_count_a_to_b st) (map re_recv_a envs),
      sent_b := sent_b st @ passed (drop_count_a_to_b st) (map re_recv_a envs),
      drop_count_b_to_a := drops_left (drop_count_b_to_a st) (map re_recv_b envs),
      sent_a := sent_a st @ passed (drop_count_b_to_a st) (map re_recv_b envs)\<rparr>)"
  using assms
proof (induction envs arbitrary: st)
  case Nil
  then show ?case by (cases st) (simp add: drops_left_def passed_def)
next
  case (Cons env envs)
  note step = relaying_step [OF Cons.prems(1), of env q]
  have "relaying (st\<lparr>drop_count_a_to_b := c, sent_b := sb, drop_count_b_to_a := d, sent_a := sa\<rparr>)" for c sb d sa
    using Cons.prems(1) by (simp add: relaying_def)
  then show ?case
    using step Cons.IH Cons.prems(2)
    by (simp add: passed_Cons [of _ "re_recv_a env" "map re_recv_a envs"]
        passed_Cons [of _ "re_recv_b env" "map re_recv_b envs"]
        drops_left_Cons [of _ "re_recv_a env" "map re_recv_a envs"]
        drops_left_Cons [of _ "re_recv_b env" "map re_recv_b envs"])
qed

text \<open>A packet of more than 1024 bytes, which the queues admit, overruns the buffer.\<close>

lemma relay_large_packet_overflows:
  assumes "relaying st" "1024 < fst (re_recv_a env)"
  shows "thread_fn_step env q st = Inl Out_Of_Bounds"
  using assms by (simp add: thread_fn_step_def relaying_def relay_a_to_b_def tloe_mq_recv_def)

section \<open>Properties\<close>

text \<open>C20: While it runs, the relay is a lossy network that keeps the order: with the two drop counters at
  \<open>m\<close> and \<open>n\<close>, the packets handed to port B are those received from port A without the first \<open>m\<close>,
  unchanged and in order, and those handed to port A are those received from port B without the first
  \<open>n\<close>; the counters go down by one for each packet they swallow and never below zero.\<close>

theorem relay_forwards:
  assumes "relaying st" "\<forall>env \<in> set envs. fst (re_recv_a env) \<le> 1024 \<and> fst (re_recv_b env) \<le> 1024"
    and "0 \<le> drop_count_a_to_b st" "0 \<le> drop_count_b_to_a st"
  shows "\<exists>st'. thread_fn envs q st = Inr st' \<and> relaying st' \<and>
    sent_b st' = sent_b st @ drop (nat (drop_count_a_to_b st)) (packets (map re_recv_a envs)) \<and>
    sent_a st' = sent_a st @ drop (nat (drop_count_b_to_a st)) (packets (map re_recv_b envs)) \<and>
    drop_count_a_to_b st' = max 0 (drop_count_a_to_b st - int (length (packets (map re_recv_a envs)))) \<and>
    drop_count_b_to_a st' = max 0 (drop_count_b_to_a st - int (length (packets (map re_recv_b envs))))"
  unfolding relay_run [OF assms(1,2)] using assms(1,3,4)
  by (auto simp: relaying_def passed_def drops_left_def)

definition example_relay :: relay where
  "example_relay = ns_initial\<lparr>ns_is_done := False, ns_thread := Ns_Loop, drop_count_a_to_b := 1,
     ep_port_a := Some \<lparr>mq_tx = 3, mq_rx = 4\<rparr>, ep_port_b := Some \<lparr>mq_tx = 5, mq_rx = 6\<rparr>\<rparr>"

definition example_relay_env :: "recv_event \<Rightarrow> recv_event \<Rightarrow> relay_env" where
  "example_relay_env a b = \<lparr>re_open = (\<lambda>name c. int (length name)), re_alloc_a = True, re_alloc_b = True,
     re_recv_a = a, re_recv_b = b\<rparr>"

theorem relay_forwards_witness:
  "\<exists>st'. thread_fn [example_relay_env (2, [1, 2]) (-1, []), example_relay_env (1, [3]) (2, [7, 8])] ''q''
      example_relay = Inr st' \<and> sent_b st' = [[3]] \<and> sent_a st' = [[7, 8]]"
proof -
  let ?envs = "[example_relay_env (2, [1, 2]) (-1, []), example_relay_env (1, [3]) (2, [7, 8])]"
  have "relaying example_relay" "0 \<le> drop_count_a_to_b example_relay" "0 \<le> drop_count_b_to_a example_relay"
    "\<forall>env \<in> set ?envs. fst (re_recv_a env) \<le> 1024 \<and> fst (re_recv_b env) \<le> 1024"
    by (simp_all add: relaying_def example_relay_def example_relay_env_def ns_initial_def)
  from relay_forwards [OF this(1,4,2,3), of "''q''"] show ?thesis
    by (auto simp: example_relay_def example_relay_env_def ns_initial_def)
qed

text \<open>C24: The queues match up.  With a queue name of at most 61 characters, as the master of the name with
  \<open>-a\<close> and the slave of the name with \<open>-b\<close> use them, port A receives what the master sends and sends what
  it receives, port B likewise with the slave.  With a longer name both ports lose their suffix to the
  buffer of 64 characters and open the same two queues: what port A receives is what port B sends, and
  the other way round, so that the relay is fed by itself.\<close>

theorem relay_ports:
  assumes "thread_init env q st = Inr st'" "\<And>name. re_open env name True = re_open env name False"
    and "tloe_mq_open (re_open env) True (q @ ''-a'') ''-master'' False = Inr m"
    and "tloe_mq_open (re_open env) True (q @ ''-b'') ''-slave'' False = Inr s"
  shows "\<exists>a b. ep_port_a st' = Some a \<and> ep_port_b st' = Some b \<and>
    (if length q \<le> 61
     then mq_rx a = mq_tx m \<and> mq_tx a = mq_rx m \<and> mq_rx b = mq_tx s \<and> mq_tx b = mq_rx s
     else mq_rx a = mq_tx b \<and> mq_tx a = mq_rx b)"
proof -
  obtain a b where ab: "ep_port_a st' = Some a" "ep_port_b st' = Some b"
    "tloe_mq_open (re_open env) (re_alloc_a env) (port_name q ''-a'') ''-slave'' True = Inr a"
    "tloe_mq_open (re_open env) (re_alloc_b env) (port_name q ''-b'') ''-master'' True = Inr b"
    using assms(1) by (auto simp: thread_init_def bindR_Inr_iff)
  have "port_name q ''-a'' = q @ ''-a''" "port_name q ''-b'' = q @ ''-b''" if "length q \<le> 61"
    using that by (simp_all add: port_name_def)
  moreover have "port_name q ''-a'' = port_name q ''-b''" if "\<not> length q \<le> 61"
  proof -
    have "63 - length q \<le> 1" using that by simp
    then have "take (63 - length q) ''-a'' = take (63 - length q) ''-b''" 
      by (cases "63 - length q") auto
    then show ?thesis by (simp add: port_name_def)
  qed
  ultimately show ?thesis
    using ab assms(2-4) by (auto simp: tloe_mq_open_Inr mq_suffixes_def)
qed

theorem relay_ports_witness:
  "let env = (example_relay_env (0, []) (0, []))\<lparr>re_open := (\<lambda>name c. if name = ''q-a-a'' then 3 else
         if name = ''q-a-b'' then 4 else if name = ''q-b-a'' then 5 else 6)\<rparr>
   in \<exists>st' a b. thread_init env ''q'' ns_initial = Inr st' \<and> ep_port_a st' = Some a \<and> ep_port_b st' = Some b \<and>
      mq_rx a = 3 \<and> mq_tx a = 4 \<and> mq_rx b = 6 \<and> mq_tx b = 5"
proof -
  let ?f = "\<lambda>name (c::bool). if name = ''q-a-a'' then (3::int) else
         if name = ''q-a-b'' then 4 else if name = ''q-b-a'' then 5 else 6"
  let ?env = "(example_relay_env (0, []) (0, []))\<lparr>re_open := ?f\<rparr>"
  have o: "tloe_mq_open (re_open ?env) True (''q'' @ ''-a'') ''-master'' False = Inr \<lparr>mq_tx = 3, mq_rx = 4\<rparr>"
    "tloe_mq_open (re_open ?env) True (''q'' @ ''-b'') ''-slave'' False = Inr \<lparr>mq_tx = 6, mq_rx = 5\<rparr>"
    by (simp_all add: tloe_mq_open_Inr mq_suffixes_def)
  have i: "thread_init ?env ''q'' ns_initial = Inr (ns_initial\<lparr>ep_port_a := Some \<lparr>mq_tx = 4, mq_rx = 3\<rparr>,
      ep_port_b := Some \<lparr>mq_tx = 5, mq_rx = 6\<rparr>\<rparr>)"
    by (simp add: thread_init_def port_name_def example_relay_env_def tloe_mq_open_def
        tloe_mq_alloc_and_init_def create_message_queue_def mq_suffixes_def)
  from relay_ports [OF i _ o] show ?thesis using i unfolding Let_def by auto
qed

end
