(* ===== verification/Ns_Link.thy ===== *)
theory Ns_Link
  imports Progress Ns_Thread
begin

text \<open>
  Two endpoints joined by the network simulator: what one of them sends goes through a kernel queue to
  the relay, which drops packets as its user tells it to at any moment, and through another queue to
  the other.  The whole is shown to be an instance of the link over a lossy network, so that
  what holds there holds for the simulated network.
\<close>

section \<open>The composed system\<close>

text \<open>The nodes run as in the link, but receive from the relay.  \<open>nl_pos_a\<close> and \<open>nl_pos_b\<close> count what of
  each node's packets is gone past the relay, \<open>nl_in_a\<close> and \<open>nl_in_b\<close> what of the relay's packets is
  gone past each node.\<close>

record ns_link =
  nl_left :: node
  nl_right :: node
  nl_relay :: relay
  nl_pos_a :: nat
  nl_pos_b :: nat
  nl_in_a :: nat
  nl_in_b :: nat

text \<open>What a non-blocking read of a queue delivers that carries the packets \<open>W\<close> in order: nothing, or one
  of those behind the position, the ones before it having found the queue full or flushed.\<close>

definition from_wire :: "byte list list \<Rightarrow> nat \<Rightarrow> recv_event \<Rightarrow> nat \<Rightarrow> bool" where
  "from_wire W p ev p' \<longleftrightarrow> fst ev \<le> 0 \<and> p' = p \<or>
     (\<exists>j junk. p \<le> j \<and> j < length W \<and> ev = (int (length (W ! j)), W ! j @ junk) \<and> p' = Suc j)"

text \<open>What the user of the simulator can do at any moment, except to end it.\<close>

inductive ns_control :: "string \<Rightarrow> relay \<Rightarrow> relay \<Rightarrow> bool" for q where
  drop_a: "ns_control q r (tloe_ns_set_drop_count_a_to_b c r)"
| drop_b: "ns_control q r (tloe_ns_set_drop_count_b_to_a c r)"
| drop_both: "ns_control q r (tloe_ns_set_drop_count_bidirectional c r)"
| start: "ns_control q r (tloe_ns_thread_start created r)"
| stop: "tloe_ns_thread_stop env q r = Inr r' \<Longrightarrow> ns_control q r r'"

text \<open>The node after it received the packet \<open>p\<close>, with the ghosts of the link.\<close>

definition takes :: "node \<Rightarrow> endpoint \<Rightarrow> node" where
  "takes s e = s\<lparr>th_ep := e,
     nd_got := nd_got s @ drop (length (cq_list (tl_msg_buffer (th_ep s)))) (cq_list (tl_msg_buffer e))\<rparr>"

inductive ns_link_step :: "string \<Rightarrow> ns_link \<Rightarrow> ns_link \<Rightarrow> bool" for q where
  left: "node_step [] (nl_left s) n \<Longrightarrow> acks_recent (th_ep n) \<Longrightarrow> ns_link_step q s (s\<lparr>nl_left := n\<rparr>)"
| right: "node_step [] (nl_right s) n \<Longrightarrow> acks_recent (th_ep n) \<Longrightarrow> ns_link_step q s (s\<lparr>nl_right := n\<rparr>)"
| relay: "thread_fn_step env q (nl_relay s) = Inr r \<Longrightarrow>
    from_wire (wire (th_ep (nl_left s))) (nl_pos_a s) (re_recv_a env) pa \<Longrightarrow>
    from_wire (wire (th_ep (nl_right s))) (nl_pos_b s) (re_recv_b env) pb \<Longrightarrow>
    ns_link_step q s (s\<lparr>nl_relay := r, nl_pos_a := pa, nl_pos_b := pb\<rparr>)"
| control: "ns_control q (nl_relay s) r \<Longrightarrow> ns_link_step q s (s\<lparr>nl_relay := r\<rparr>)"
| left_receives: "nl_in_a s \<le> i \<Longrightarrow> i < length (sent_a (nl_relay s)) \<Longrightarrow>
    RX True (int (length (sent_a (nl_relay s) ! i)), sent_a (nl_relay s) ! i @ junk) (th_ep (nl_left s)) = Inr e \<Longrightarrow>
    acks_recent e \<Longrightarrow>
    ns_link_step q s (s\<lparr>nl_left := takes (nl_left s) e, nl_in_a := Suc i\<rparr>)"
| right_receives: "nl_in_b s \<le> i \<Longrightarrow> i < length (sent_b (nl_relay s)) \<Longrightarrow>
    RX True (int (length (sent_b (nl_relay s) ! i)), sent_b (nl_relay s) ! i @ junk) (th_ep (nl_right s)) = Inr e \<Longrightarrow>
    acks_recent e \<Longrightarrow>
    ns_link_step q s (s\<lparr>nl_right := takes (nl_right s) e, nl_in_b := Suc i\<rparr>)"

definition nl_link :: "ns_link \<Rightarrow> link" where
  "nl_link s = \<lparr>left = nl_left s, right = nl_right s\<rparr>"

definition ns_link_start :: "ns_link \<Rightarrow> bool" where
  "ns_link_start s \<longleftrightarrow> link_start (nl_link s) \<and>
     nl_pos_a s = length (wire (th_ep (nl_left s))) \<and> nl_pos_b s = length (wire (th_ep (nl_right s))) \<and>
     nl_in_a s = length (sent_a (nl_relay s)) \<and> nl_in_b s = length (sent_b (nl_relay s))"

section \<open>The relay\<close>

text \<open>One call of the thread's body, in whatever phase the thread is, hands on at most what it received.\<close>

definition hands_on :: "recv_event \<Rightarrow> byte list list \<Rightarrow> bool" where
  "hands_on ev ps \<longleftrightarrow> ps = [] \<or> 0 < fst ev \<and> ps = [take (nat (fst ev)) (snd ev)]"

lemma relay_direction:
  "relay_a_to_b ev r = Inr r' \<Longrightarrow> \<exists>ps. sent_b r' = sent_b r @ ps \<and> hands_on ev ps \<and> sent_a r' = sent_a r"
  "relay_b_to_a ev r = Inr r' \<Longrightarrow> \<exists>ps. sent_a r' = sent_a r @ ps \<and> hands_on ev ps \<and> sent_b r' = sent_b r"
  by (auto simp: relay_a_to_b_def relay_b_to_a_def tloe_mq_recv_def relay_packet_eq bindR_Inr_iff
      hands_on_def split: if_splits)

text \<open>Outside of its loop it sends nothing.\<close>

lemma thread_fn_step_quiet:
  assumes "thread_fn_step env q r = Inr r'" "ns_thread r = Ns_Loop \<Longrightarrow> ns_is_done r"
  shows "sent_a r' = sent_a r" "sent_b r' = sent_b r" "ns_is_done r' = ns_is_done r"
proof -
  have "sent_a r' = sent_a r \<and> sent_b r' = sent_b r \<and> ns_is_done r' = ns_is_done r"
    using assms
    by (cases "ns_thread r")
      (auto simp: thread_fn_step_def thread_init_def thread_close_def Let_def bindR_Inr_iff)
  then show "sent_a r' = sent_a r" "sent_b r' = sent_b r" "ns_is_done r' = ns_is_done r" by simp_all
qed

lemma thread_fn_step_sent:
  assumes "thread_fn_step env q r = Inr r'"
  shows "\<exists>ps qs. sent_b r' = sent_b r @ ps \<and> hands_on (re_recv_a env) ps \<and>
    sent_a r' = sent_a r @ qs \<and> hands_on (re_recv_b env) qs"
proof (cases "ns_thread r = Ns_Loop \<and> \<not> ns_is_done r")
  case True
  then obtain r1 where r1: "relay_a_to_b (re_recv_a env) r = Inr r1" "relay_b_to_a (re_recv_b env) r1 = Inr r'"
    using assms by (auto simp: thread_fn_step_def bindR_Inr_iff)
  then show ?thesis using relay_direction(1) [OF r1(1)] relay_direction(2) [OF r1(2)] by auto
next
  case False
  then show ?thesis using thread_fn_step_quiet [OF assms] by (simp add: hands_on_def)
qed

lemma ns_join_sent:
  assumes "ns_join env q r = Inr r'" "ns_is_done r"
  shows "sent_a r' = sent_a r \<and> sent_b r' = sent_b r"
proof (cases "ns_thread r")
  case Ns_Created
  then obtain r1 where r1: "thread_fn_step env q r = Inr r1" "thread_fn_step env q r1 = Inr r'"
    using assms(1) by (auto simp: ns_join_def bindR_Inr_iff)
  note q1 = thread_fn_step_quiet [OF r1(1) assms(2)]
  show ?thesis using q1 thread_fn_step_quiet [OF r1(2)] assms(2) by simp
next
  case Ns_Loop
  then show ?thesis using assms thread_fn_step_quiet [of env q r r'] by (simp add: ns_join_def)
qed (use assms(1) in \<open>simp add: ns_join_def\<close>)

lemma ns_control_sent:
  assumes "ns_control q r r'"
  shows "sent_a r' = sent_a r" "sent_b r' = sent_b r"
proof -
  from assms have "sent_a r' = sent_a r \<and> sent_b r' = sent_b r"
  proof cases
    case (stop env)
    then show ?thesis
      using ns_join_sent [of env q "r\<lparr>ns_is_done := True\<rparr>" r']
      by (cases "ns_is_done r") (simp_all add: tloe_ns_thread_stop_def)
  qed (simp_all add: ns_control_defs Let_def)
  then show "sent_a r' = sent_a r" "sent_b r' = sent_b r" by simp_all
qed

section \<open>The simulation\<close>

text \<open>The packets \<open>ps\<close> that the relay holds for a node are some of those that the peer has sent, in order:
  \<open>n\<close> is how far the node is in the link, \<open>p\<close> how far the relay.\<close>

definition carried :: "byte list list \<Rightarrow> nat \<Rightarrow> nat \<Rightarrow> byte list list \<Rightarrow> bool" where
  "carried W n p ps \<longleftrightarrow> n \<le> p \<and> p \<le> length W \<and>
     (\<exists>js. sorted_wrt (<) js \<and> (\<forall>j \<in> set js. n \<le> j \<and> j < p) \<and> ps = map ((!) W) js)"

lemma carried_wire:
  assumes "carried W n p ps"
  shows "carried (W @ V) n p ps"
proof -
  obtain js where js: "n \<le> p" "p \<le> length W" "sorted_wrt (<) js" "\<forall>j \<in> set js. n \<le> j \<and> j < p"
    "ps = map ((!) W) js" using assms by (auto simp: carried_def)
  then have "ps = map ((!) (W @ V)) js" by (auto simp: nth_append)
  then show ?thesis using js(1-4) unfolding carried_def by (intro conjI exI [of _ js]) simp_all
qed

lemma carried_read:
  assumes "carried W n p ps" "from_wire W p ev p'" "hands_on ev qs"
  shows "carried W n p' (ps @ qs)"
proof -
  obtain js where js: "n \<le> p" "p \<le> length W" "sorted_wrt (<) js" "\<forall>j \<in> set js. n \<le> j \<and> j < p"
    "ps = map ((!) W) js" using assms(1) by (auto simp: carried_def)
  from assms(2) consider (none) "fst ev \<le> 0" "p' = p"
    | (packet) j junk where "p \<le> j" "j < length W" "ev = (int (length (W ! j)), W ! j @ junk)" "p' = Suc j"
    unfolding from_wire_def by blast
  then show ?thesis
  proof cases
    case none
    then show ?thesis using assms(1,3) by (simp add: hands_on_def)
  next
    case packet
    have w: "n \<le> p'" "p' \<le> length W" using js(1) packet by simp_all
    from assms(3) consider "qs = []" | "qs = [W ! j]" using packet(3) by (auto simp: hands_on_def)
    then show ?thesis
    proof cases
      case 1
      then show ?thesis using js w packet(1,4) unfolding carried_def
        by (intro conjI exI [of _ js]) auto
    next
      case 2
      then show ?thesis using js w packet(1,4) unfolding carried_def
        by (intro conjI exI [of _ "js @ [j]"]) (auto simp: sorted_wrt_append)
    qed
  qed
qed

lemma carried_receive:
  assumes "carried W n p ps" "i < length ps"
  obtains j where "n \<le> j" "j < length W" "W ! j = ps ! i" "carried W (Suc j) p (drop (Suc i) ps)"
proof -
  obtain js where js: "p \<le> length W" "sorted_wrt (<) js" "\<forall>j \<in> set js. n \<le> j \<and> j < p"
    "ps = map ((!) W) js" using assms(1) by (auto simp: carried_def)
  have i: "i < length js" using assms(2) js(4) by simp
  then have j: "n \<le> js ! i" "js ! i < p" using js(3) by simp_all
  have "sorted_wrt (<) (drop (Suc i) js)" by (rule sorted_wrt_drop [OF js(2)])
  moreover have "Suc (js ! i) \<le> k \<and> k < p" if "k \<in> set (drop (Suc i) js)" for k
  proof -
    obtain x where "x < length js - Suc i" "k = js ! (Suc i + x)"
      using \<open>k \<in> _\<close> by (auto simp: in_set_conv_nth)
    then have "js ! i < k" using sorted_wrt_nth_less [OF js(2), of i "Suc i + x"] by simp
    moreover have "k < p" using that js(3) in_set_dropD by fastforce
    ultimately show ?thesis by simp
  qed
  moreover have "drop (Suc i) ps = map ((!) W) (drop (Suc i) js)" by (simp add: js(4) drop_map)
  ultimately have "carried W (Suc (js ! i)) p (drop (Suc i) ps)"
    using j js(1) unfolding carried_def by (intro conjI exI [of _ "drop (Suc i) js"]) auto
  then show thesis using j js(1,4) i by (intro that [of "js ! i"]) simp_all
qed

text \<open>A local step of a node is one of the link, wherever the node is in the packets of its peer.\<close>

lemma local_step:
  assumes "node_step [] a a'"
  shows "node_step W (a\<lparr>nd_pos := n\<rparr>) (a'\<lparr>nd_pos := n\<rparr>)"
  using assms
proof cases
  case (select c e r)
  then show ?thesis using node_step.select [of "a\<lparr>nd_pos := n\<rparr>" c e r W] by (cases a) simp
next
  case (clock t)
  then show ?thesis using node_step.clock [of W "a\<lparr>nd_pos := n\<rparr>" t] by (cases a) simp
next
  case (transmit env e r)
  then show ?thesis using node_step.transmit [of env "a\<lparr>nd_pos := n\<rparr>" e r W] by (cases a) simp
next
  case (serve e mem)
  then show ?thesis using node_step.serve [of "a\<lparr>nd_pos := n\<rparr>" e mem W] by (cases a) simp
next
  case (user m e ok)
  then show ?thesis using node_step.user [of m "a\<lparr>nd_pos := n\<rparr>" e ok W] by (cases a) simp
qed simp

lemma received_takes: "received (a\<lparr>nd_pos := n\<rparr>) j e = (takes a e)\<lparr>nd_pos := Suc j\<rparr>"
  by (simp add: received_def takes_def)

text \<open>A packet of the relay is received.\<close>

lemma carried_step:
  assumes "link_inv 0 b (a\<lparr>nd_pos := n\<rparr>)" "wire (th_ep b) = W" "carried W n p (drop i ps)" "i \<le> k"
    and "k < length ps" "RX True (int (length (ps ! k)), ps ! k @ junk) (th_ep a) = Inr e"
  obtains j V where "node_step W (a\<lparr>nd_pos := n\<rparr>) ((takes a e)\<lparr>nd_pos := Suc j\<rparr>)"
    "carried W (Suc j) p (drop (Suc k) ps)" "wire e = wire (th_ep a) @ V"
proof -
  have k: "k - i < length (drop i ps)" "drop i ps ! (k - i) = ps ! k"
    "drop (Suc (k - i)) (drop i ps) = drop (Suc k) ps" using assms(4,5) by simp_all
  obtain j where j: "n \<le> j" "j < length W" "W ! j = ps ! k" "carried W (Suc j) p (drop (Suc k) ps)"
    by (rule carried_receive [OF assms(3) k(1), unfolded k(2,3)])
  have "node_step W (a\<lparr>nd_pos := n\<rparr>) (received (a\<lparr>nd_pos := n\<rparr>) j e)"
    unfolding received_def
    by (rule node_step.receive [where junk = junk]) (use j(1-3) assms(6) in simp_all)
  then have st: "node_step W (a\<lparr>nd_pos := n\<rparr>) ((takes a e)\<lparr>nd_pos := Suc j\<rparr>)"
    by (simp only: received_takes)
  obtain V where "wire e = wire (th_ep a) @ V"
    using step_wire [OF assms(1) st [folded assms(2)]] by (auto simp: takes_def)
  with st j(4) show thesis by (rule that)
qed

text \<open>The link that the composed system stands for, with the left node at \<open>m\<close>, the right one at \<open>n\<close>.\<close>

definition ns_abs :: "ns_link \<Rightarrow> nat \<Rightarrow> nat \<Rightarrow> link" where
  "ns_abs s m n = \<lparr>left = (nl_left s)\<lparr>nd_pos := m\<rparr>, right = (nl_right s)\<lparr>nd_pos := n\<rparr>\<rparr>"

definition ns_sim :: "ns_link \<Rightarrow> link \<Rightarrow> bool" where
  "ns_sim s l \<longleftrightarrow> (\<exists>m n. l = ns_abs s m n \<and>
     nl_in_a s \<le> length (sent_a (nl_relay s)) \<and> nl_in_b s \<le> length (sent_b (nl_relay s)) \<and>
     carried (wire (th_ep (nl_left s))) n (nl_pos_a s) (drop (nl_in_b s) (sent_b (nl_relay s))) \<and>
     carried (wire (th_ep (nl_right s))) m (nl_pos_b s) (drop (nl_in_a s) (sent_a (nl_relay s))))"

lemma ns_abs_simps [simp]:
  "left (ns_abs s m n) = (nl_left s)\<lparr>nd_pos := m\<rparr>" "right (ns_abs s m n) = (nl_right s)\<lparr>nd_pos := n\<rparr>"
  "(ns_abs s m n)\<lparr>left := a\<lparr>nd_pos := k\<rparr>\<rparr> = ns_abs (s\<lparr>nl_left := a\<rparr>) k n"
  "(ns_abs s m n)\<lparr>right := a\<lparr>nd_pos := k\<rparr>\<rparr> = ns_abs (s\<lparr>nl_right := a\<rparr>) m k"
  "ns_abs (s\<lparr>nl_relay := r\<rparr>) m n = ns_abs s m n"
  "ns_abs (s\<lparr>nl_pos_a := p\<rparr>) m n = ns_abs s m n" "ns_abs (s\<lparr>nl_pos_b := p\<rparr>) m n = ns_abs s m n"
  "ns_abs (s\<lparr>nl_in_a := i\<rparr>) m n = ns_abs s m n" "ns_abs (s\<lparr>nl_in_b := i\<rparr>) m n = ns_abs s m n"
  by (simp_all add: ns_abs_def)

text \<open>Every step of the composed system is a step of the link or none, and the relation is kept.\<close>

lemma ns_sim_step:
  assumes "ns_sim s l" "link_inv 0 (left l) (right l)" "ns_link_step q s s'"
  shows "\<exists>l'. link_step\<^sup>*\<^sup>* l l' \<and> ns_sim s' l'"
proof -
  obtain m n where l: "l = ns_abs s m n"
    and i: "nl_in_a s \<le> length (sent_a (nl_relay s))" "nl_in_b s \<le> length (sent_b (nl_relay s))"
    and c: "carried (wire (th_ep (nl_left s))) n (nl_pos_a s) (drop (nl_in_b s) (sent_b (nl_relay s)))"
      "carried (wire (th_ep (nl_right s))) m (nl_pos_b s) (drop (nl_in_a s) (sent_a (nl_relay s)))"
    using assms(1) by (auto simp: ns_sim_def)
  have inv: "link_inv 0 (left l) (right l)" "link_inv 0 (right l) (left l)"
    using assms(2) by (simp_all add: link_inv_sym)
  from assms(3) show ?thesis
  proof cases
    case (left a)
    have st: "node_step (wire (th_ep (right l))) (left l) (a\<lparr>nd_pos := m\<rparr>)"
      using local_step [OF left(2)] by (simp add: l)
    obtain V where "wire (th_ep a) = wire (th_ep (nl_left s)) @ V"
      using step_wire [OF inv(2) st] by (auto simp: l)
    then have "carried (wire (th_ep a)) n (nl_pos_a s) (drop (nl_in_b s) (sent_b (nl_relay s)))"
      using carried_wire [OF c(1)] by simp
    then have "ns_sim s' (ns_abs s' m n)" using i c(2) left(1) unfolding ns_sim_def by auto
    moreover have "link_step l (ns_abs s' m n)" using link_step.left [OF st] left(1,3) by (simp add: l)
    ultimately show ?thesis by blast
  next
    case (right a)
    have st: "node_step (wire (th_ep (left l))) (right l) (a\<lparr>nd_pos := n\<rparr>)"
      using local_step [OF right(2)] by (simp add: l)
    obtain V where "wire (th_ep a) = wire (th_ep (nl_right s)) @ V"
      using step_wire [OF inv(1) st] by (auto simp: l)
    then have "carried (wire (th_ep a)) m (nl_pos_b s) (drop (nl_in_a s) (sent_a (nl_relay s)))"
      using carried_wire [OF c(2)] by simp
    then have "ns_sim s' (ns_abs s' m n)" using i c(1) right(1) unfolding ns_sim_def by auto
    moreover have "link_step l (ns_abs s' m n)" using link_step.right [OF st] right(1,3) by (simp add: l)
    ultimately show ?thesis by blast
  next
    case (relay env r pa pb)
    obtain ps qs where pq: "sent_b r = sent_b (nl_relay s) @ ps" "hands_on (re_recv_a env) ps"
      "sent_a r = sent_a (nl_relay s) @ qs" "hands_on (re_recv_b env) qs"
      using thread_fn_step_sent [OF relay(2)] by auto
    have "ns_sim s' (ns_abs s' m n)"
      using i carried_read [OF c(1) relay(3) pq(2)] carried_read [OF c(2) relay(4) pq(4)]
      unfolding ns_sim_def relay(1) by (intro exI [of _ m] exI [of _ n]) (simp add: pq(1,3))
    then show ?thesis by (auto simp: relay(1) l)
  next
    case (control r)
    then have "ns_sim s' (ns_abs s' m n)"
      using i c ns_control_sent [OF control(2)] unfolding ns_sim_def by auto
    then show ?thesis by (auto simp: control(1) l)
  next
    case (left_receives k junk e)
    obtain j V where j: "node_step (wire (th_ep (nl_right s))) ((nl_left s)\<lparr>nd_pos := m\<rparr>)
        ((takes (nl_left s) e)\<lparr>nd_pos := Suc j\<rparr>)"
      "carried (wire (th_ep (nl_right s))) (Suc j) (nl_pos_b s) (drop (Suc k) (sent_a (nl_relay s)))"
      "wire e = wire (th_ep (nl_left s)) @ V"
      using carried_step [OF inv(2) [unfolded l ns_abs_simps] _ c(2) left_receives(2-4)] by auto
    have "carried (wire e) n (nl_pos_a s) (drop (nl_in_b s) (sent_b (nl_relay s)))"
      unfolding j(3) by (rule carried_wire [OF c(1)])
    then have "ns_sim s' (ns_abs s' (Suc j) n)"
      using i(2) j(2) left_receives(1,3) unfolding ns_sim_def by (auto simp: takes_def)
    moreover have "link_step l (ns_abs s' (Suc j) n)"
      using link_step.left [of l "(takes (nl_left s) e)\<lparr>nd_pos := Suc j\<rparr>"] j(1) left_receives(1,5)
      by (simp add: l takes_def)
    ultimately show ?thesis by blast
  next
    case (right_receives k junk e)
    obtain j V where j: "node_step (wire (th_ep (nl_left s))) ((nl_right s)\<lparr>nd_pos := n\<rparr>)
        ((takes (nl_right s) e)\<lparr>nd_pos := Suc j\<rparr>)"
      "carried (wire (th_ep (nl_left s))) (Suc j) (nl_pos_a s) (drop (Suc k) (sent_b (nl_relay s)))"
      "wire e = wire (th_ep (nl_right s)) @ V"
      using carried_step [OF inv(1) [unfolded l ns_abs_simps] _ c(1) right_receives(2-4)] by auto
    have "carried (wire e) m (nl_pos_b s) (drop (nl_in_a s) (sent_a (nl_relay s)))"
      unfolding j(3) by (rule carried_wire [OF c(2)])
    then have "ns_sim s' (ns_abs s' m (Suc j))"
      using i(1) j(2) right_receives(1,3) unfolding ns_sim_def by (auto simp: takes_def)
    moreover have "link_step l (ns_abs s' m (Suc j))"
      using link_step.right [of l "(takes (nl_right s) e)\<lparr>nd_pos := Suc j\<rparr>"] j(1) right_receives(1,5)
      by (simp add: l takes_def)
    ultimately show ?thesis by blast
  qed
qed

lemma ns_sim_run:
  assumes "(ns_link_step q)\<^sup>*\<^sup>* s0 s" "ns_link_start s0"
  shows "\<exists>l. link_step\<^sup>*\<^sup>* (nl_link s0) l \<and> ns_sim s l"
  using assms
proof (induction rule: rtranclp_induct)
  case base
  have "carried W (length W) (length W) []" for W by (auto simp: carried_def)
  moreover have "nl_link s0 = ns_abs s0 (nd_pos (nl_left s0)) (nd_pos (nl_right s0))"
    by (simp add: nl_link_def ns_abs_def)
  moreover have "nd_pos (nl_left s0) = length (wire (th_ep (nl_right s0)))"
    "nd_pos (nl_right s0) = length (wire (th_ep (nl_left s0)))"
    using base by (simp_all add: ns_link_start_def link_start_def node_start_def nl_link_def)
  ultimately have "ns_sim s0 (nl_link s0)"
    using base unfolding ns_sim_def ns_link_start_def
    by (intro exI [of _ "nd_pos (nl_left s0)"] exI [of _ "nd_pos (nl_right s0)"]) simp
  then show ?case by blast
next
  case (step s s')
  then obtain l where l: "link_step\<^sup>*\<^sup>* (nl_link s0) l" "ns_sim s l" by blast
  have "link_inv 0 (left l) (right l)"
    using link_inv_run [OF l(1)] step.prems by (simp add: ns_link_start_def)
  from ns_sim_step [OF l(2) this step.hyps(2)] show ?case using l(1) by (meson rtranclp_trans)
qed

section \<open>Properties\<close>

text \<open>C4: The simulated network.  Two connected endpoints are joined by the network simulator, whose user
  sets drop counters, starts and stops the relay at any moment, while the queues of the kernel may lose
  packets as well.  Every run of the three programs is a run of the two endpoints over the lossy network,
  so the messages that either side hands to its handler are, in order and without a gap, the first of
  those that the other side's transmitter took.\<close>

theorem simulated_network_in_order:
  assumes "ns_link_start s0" "(ns_link_step q)\<^sup>*\<^sup>* s0 s"
  shows "(\<exists>m n. link_step\<^sup>*\<^sup>* (nl_link s0) (ns_abs s m n)) \<and>
    prefix (nd_got (nl_right s)) (map Block (nd_msgs (nl_left s))) \<and>
    prefix (nd_got (nl_left s)) (map Block (nd_msgs (nl_right s)))"
proof -
  obtain m n where run: "link_step\<^sup>*\<^sup>* (nl_link s0) (ns_abs s m n)"
    using ns_sim_run [OF assms(2,1)] by (auto simp: ns_sim_def)
  have "link_inv 0 (left (ns_abs s m n)) (right (ns_abs s m n))"
    using link_inv_run [OF run] assms(1) by (simp add: ns_link_start_def)
  from link_inv_prefix [OF this] show ?thesis using run by (auto simp del: ns_abs_simps(3-))
qed

definition example_ns_link :: ns_link where
  "example_ns_link = \<lparr>nl_left = example_node, nl_right = example_node,
     nl_relay = example_relay\<lparr>drop_count_a_to_b := 0\<rparr>, nl_pos_a = 0, nl_pos_b = 0, nl_in_a = 0, nl_in_b = 0\<rparr>"

lemma example_ns_link_start: "ns_link_start example_ns_link" "nl_link example_ns_link = example_link"
proof -
  show l: "nl_link example_ns_link = example_link"
    by (simp add: nl_link_def example_ns_link_def example_link_def)
  show "ns_link_start example_ns_link"
    using example_link_start unfolding ns_link_start_def l
    by (simp add: example_ns_link_def example_node_def example_relay_def ns_initial_def)
qed

lemma quiet_left:
  assumes "quiet_step\<^sup>*\<^sup>* a a'" "nl_left s = a"
  shows "(ns_link_step q)\<^sup>*\<^sup>* s (s\<lparr>nl_left := a'\<rparr>)"
  using assms
proof (induction rule: rtranclp_induct)
  case base
  then show ?case by (cases s) simp
next
  case (step b c)
  have "ns_link_step q (s\<lparr>nl_left := b\<rparr>) (s\<lparr>nl_left := c\<rparr>)"
    using ns_link_step.left [of "s\<lparr>nl_left := b\<rparr>" c q] step.hyps(2) by simp
  then show ?case using step.IH [OF step.prems] by simp
qed

theorem simulated_network_in_order_witness:
  "\<exists>s. (ns_link_step ''q'')\<^sup>*\<^sup>* example_ns_link s \<and> nd_got (nl_right s) = [Block example_write] \<and>
     prefix (nd_got (nl_right s)) (map Block (nd_msgs (nl_left s)))"
proof -
  obtain n j e where n: "quiet_step\<^sup>*\<^sup>* example_node n" "j < length (wire (th_ep n))"
      "0 < length (wire (th_ep n) ! j)" "length (wire (th_ep n) ! j) \<le> 528"
    and e: "RX True (int (length (wire (th_ep n) ! j)), wire (th_ep n) ! j @ []) example_endpoint = Inr e"
      "cq_list (tl_msg_buffer e) = [Block example_write]" "cq_list (ack_buffer e) = []"
    by (rule example_delivery)
  let ?p = "wire (th_ep n) ! j"
  let ?s1 = "example_ns_link\<lparr>nl_left := n\<rparr>"
  let ?env = "example_relay_env (int (length ?p), ?p @ []) (-1, [])"
  let ?r = "nl_relay example_ns_link"
  have r: "relaying ?r" "drop_count_a_to_b ?r = 0" "drop_count_b_to_a ?r = 0" "sent_b ?r = []" "sent_a ?r = []"
    by (simp_all add: example_ns_link_def relaying_def example_relay_def ns_initial_def)
  have "thread_fn_step ?env ''q'' ?r = Inr (?r\<lparr>sent_b := [?p]\<rparr>)"
    using relaying_step [OF r(1), of ?env "''q''"] n(3,4) r(2-5)
    by (cases ?r) (simp add: example_relay_env_def passed_def drops_left_def)
  moreover have "from_wire (wire (th_ep (nl_left ?s1))) (nl_pos_a ?s1) (re_recv_a ?env) (Suc j)"
    "from_wire (wire (th_ep (nl_right ?s1))) (nl_pos_b ?s1) (re_recv_b ?env) 0"
    using n(2) by (auto simp: from_wire_def example_relay_env_def example_ns_link_def)
  ultimately have s2: "ns_link_step ''q'' ?s1 (?s1\<lparr>nl_relay := ?r\<lparr>sent_b := [?p]\<rparr>, nl_pos_a := Suc j, nl_pos_b := 0\<rparr>)"
    using ns_link_step.relay [of ?env "''q''" ?s1] by simp
  let ?s2 = "?s1\<lparr>nl_relay := ?r\<lparr>sent_b := [?p]\<rparr>, nl_pos_a := Suc j, nl_pos_b := 0\<rparr>"
  have x: "nl_right ?s2 = example_node" "nl_in_b ?s2 = 0" by (simp_all add: example_ns_link_def)
  have s3: "ns_link_step ''q'' ?s2 (?s2\<lparr>nl_right := takes example_node e, nl_in_b := Suc 0\<rparr>)"
    using ns_link_step.right_receives [of ?s2 0 "[]" e "''q''"] e(1,3) unfolding x
    by (simp add: example_acks_recent) (simp add: example_node_def)
  let ?s3 = "?s2\<lparr>nl_right := takes example_node e, nl_in_b := Suc 0\<rparr>"
  have "(ns_link_step ''q'')\<^sup>*\<^sup>* example_ns_link ?s1"
    by (rule quiet_left [OF n(1)]) (simp add: example_ns_link_def)
  then have run: "(ns_link_step ''q'')\<^sup>*\<^sup>* example_ns_link ?s3"
    using s2 s3 by (meson rtranclp.rtrancl_into_rtrancl)
  have "nd_got (nl_right ?s3) = [Block example_write]"
    using e(2) by (simp add: takes_def example_node_def)
  then show ?thesis using run simulated_network_in_order [OF example_ns_link_start(1) run] by blast
qed

end
