(* ===== verification/Ether.thy ===== *)
theory Ether
  imports Endpoint
begin

text \<open>
  The Ethernet fabric, \<open>tloe_ether.c\<close>, on a raw socket.  The answers of the kernel and of \<open>sscanf\<close> are
  arguments; the bytes that the code leaves unset are arguments as well.  Addresses have six bytes.
\<close>

record sockaddr_ll =
  sll_ifindex :: int
  sll_halen :: int
  sll_addr :: "byte list"

record tloe_ether =
  sock :: int
  sll :: sockaddr_ll
  dest_mac :: "byte list"
  src_mac :: "byte list"
  ether_type :: "byte list"

abbreviation (input) "ETHER_HDR_LEN \<equiv> (14 :: int)"
abbreviation (input) "ETHER_MIN_LEN \<equiv> (64 :: int)"
abbreviation (input) "ETHER_MAX_LEN \<equiv> (1518 :: int)"
abbreviation (input) "ETHERMTU \<equiv> (1500 :: int)"

text \<open>\<open>0xAAAA\<close>, in either byte order.\<close>

abbreviation (input) "TLOE_ETHER_TYPE \<equiv> ([0xAA, 0xAA] :: byte list)"

section \<open>Sending\<close>

text \<open>The packet that goes to \<open>sendto\<close>; \<open>stack\<close> is the buffer of 1518 bytes before the call.\<close>

definition tloe_ether_send :: "byte list \<Rightarrow> tloe_ether \<Rightarrow> byte list \<Rightarrow> int \<Rightarrow> byte list result" where
  "tloe_ether_send stack eth payload payload_size =
     (let payload_size = (if payload_size \<ge> ETHERMTU then ETHERMTU else payload_size);
          head = dest_mac eth @ src_mac eth @ ether_type eth;
          send_size = ETHER_HDR_LEN + payload_size;
          send_size = (if send_size < ETHER_MIN_LEN then ETHER_MIN_LEN
                       else if send_size \<ge> ETHER_MAX_LEN then ETHER_MAX_LEN else send_size)
      in if int (length payload) < payload_size then Inl Out_Of_Bounds
         else let used = head @ take (nat payload_size) payload
              in Inr (take (nat send_size) (used @ drop (length used) stack)))"

text \<open>The loop around \<open>sendto\<close>: it is tried again while the kernel says \<open>EAGAIN\<close>.  The argument lists
  the results, \<open>None\<close> standing for \<open>EAGAIN\<close>.\<close>

fun send_retry :: "int option list \<Rightarrow> int result" where
  "send_retry [] = Inl Blocked"
| "send_retry (None # rs) = send_retry rs"
| "send_retry (Some n # rs) = Inr n"

section \<open>Receiving\<close>

text \<open>What \<open>recvfrom\<close> returns, and its buffer of 1518 bytes afterwards.  The comparison of \<open>copy_size\<close>
  with \<open>payload_size\<close> is one of unsigned numbers, so a negative \<open>copy_size\<close> counts as large.\<close>

definition tloe_ether_recv :: "int \<Rightarrow> byte list \<Rightarrow> int \<Rightarrow> int \<times> byte list" where
  "tloe_ether_recv n buffer payload_size =
     (if n < 0 then (n, [])
      else if take 2 (drop 12 buffer) \<noteq> TLOE_ETHER_TYPE then (-1, [])
      else let copy_size = n - ETHER_HDR_LEN;
               copy_size = (if copy_size < 0 \<or> copy_size > payload_size then payload_size else copy_size)
           in (copy_size, take (nat copy_size) (drop 14 buffer)))"

section \<open>Opening and closing\<close>

definition tloe_ether_alloc_and_init :: "bool \<Rightarrow> byte list \<Rightarrow> byte list \<Rightarrow> tloe_ether result" where
  "tloe_ether_alloc_and_init alloc dest src =
     (if \<not> alloc then Inl Null_Deref
      else Inr \<lparr>sock = -1, sll = \<lparr>sll_ifindex = 0, sll_halen = 0, sll_addr = replicate 8 0\<rparr>,
                dest_mac = dest, src_mac = src, ether_type = TLOE_ETHER_TYPE\<rparr>)"

text \<open>The answers: of \<open>socket\<close>; of \<open>sscanf\<close> on the address, with the array of six bytes as it leaves
  it; of \<open>ioctl\<close> for the hardware address; of \<open>malloc\<close>; of \<open>fcntl\<close>; of \<open>ioctl\<close> for the index; of
  \<open>if_nametoindex\<close>; of \<open>bind\<close>.\<close>

record ether_env =
  en_socket :: int
  en_scan :: "string \<Rightarrow> int \<times> byte list"
  en_hwaddr :: "byte list option"
  en_alloc :: bool
  en_setfl :: int
  en_ifindex :: "int option"
  en_nametoindex :: "string \<Rightarrow> int"
  en_bind :: int

definition tloe_mac_str2bytes :: "ether_env \<Rightarrow> string \<Rightarrow> byte list \<times> int" where
  "tloe_mac_str2bytes env mac_str =
     (case en_scan env mac_str of (n, bs) \<Rightarrow> (bs, if n \<noteq> 6 then -1 else 0))"

definition tloe_ether_open :: "ether_env \<Rightarrow> string \<Rightarrow> string \<Rightarrow> tloe_ether result" where
  "tloe_ether_open env ifname dest_mac_str =
     (let sockfd = en_socket env in
      if sockfd < 0 then Inl Exited
      else let (dest, _) = tloe_mac_str2bytes env dest_mac_str in
        case en_hwaddr env of
          None \<Rightarrow> Inl Exited
        | Some src \<Rightarrow>
            bindR (tloe_ether_alloc_and_init (en_alloc env) dest src) (\<lambda>ether.
            if en_setfl env < 0 then Inl Exited
            else case en_ifindex env of
              None \<Rightarrow> Inl Exited
            | Some i \<Rightarrow>
                if en_nametoindex env ifname = 0 then Inl Exited
                else if en_bind env < 0 then Inl Exited
                else Inr (ether\<lparr>sll := \<lparr>sll_ifindex = i, sll_halen = 6, sll_addr = dest @ [0, 0]\<rparr>,
                                sock := sockfd\<rparr>)))"

text \<open>The socket that is closed, and whether the structure is freed.\<close>

definition tloe_ether_close :: "tloe_ether option \<Rightarrow> int option \<times> bool" where
  "tloe_ether_close ether =
     (case ether of
        None \<Rightarrow> (None, False)
      | Some e \<Rightarrow> (if sock e \<noteq> -1 then Some (sock e) else None, True))"

text \<open>Two functions that nothing calls: a header with fixed addresses.\<close>

record tloe_ether_header =
  dest_mac_addr :: "byte list"
  src_mac_addr :: "byte list"
  eth_type :: "16 word"

definition set_tloe_ether ::
    "tloe_ether_header \<Rightarrow> byte list \<Rightarrow> byte list \<Rightarrow> 16 word \<Rightarrow> tloe_ether_header" where
  "set_tloe_ether h dest src t =
     h\<lparr>dest_mac_addr := take 6 dest, src_mac_addr := take 6 src, eth_type := t\<rparr>"

definition get_tloe_ether :: "tloe_ether_header \<Rightarrow> tloe_ether_header" where
  "get_tloe_ether stack =
     set_tloe_ether stack [0xFF, 0xEE, 0xDD, 0xCC, 0xBB, 0xAA] [0x11, 0x22, 0x33, 0x44, 0x55, 0x66] 0xAAAA"

section \<open>Lemmas\<close>

definition ether_ok :: "tloe_ether \<Rightarrow> bool" where
  "ether_ok eth \<longleftrightarrow> length (dest_mac eth) = 6 \<and> length (src_mac eth) = 6 \<and>
     ether_type eth = TLOE_ETHER_TYPE \<and> sock eth \<noteq> -1"

lemma tloe_ether_open_ok:
  assumes "tloe_ether_open env ifname mac = Inr eth" "length (snd (en_scan env mac)) = 6"
    and "\<And>hw. en_hwaddr env = Some hw \<Longrightarrow> length hw = 6"
  shows "ether_ok eth"
  using assms
  by (auto simp: tloe_ether_open_def tloe_mac_str2bytes_def tloe_ether_alloc_and_init_def ether_ok_def
      Let_def bindR_Inr_iff split: if_splits option.splits prod.splits)

text \<open>The packet: 14 bytes of header, the payload, and what was on the stack up to 64 bytes.\<close>

lemma ether_send_eq:
  assumes "ether_ok eth" "0 \<le> n" "n \<le> 1500" "n \<le> int (length payload)" "length stack = 1518"
  shows "tloe_ether_send stack eth payload n =
    Inr (dest_mac eth @ src_mac eth @ TLOE_ETHER_TYPE @ take (nat n) payload @
         take (50 - nat n) (drop (14 + nat n) stack))"
proof -
  let ?h = "dest_mac eth @ src_mac eth @ TLOE_ETHER_TYPE"
  let ?p = "take (nat n) payload"
  define A where "A = ?h @ ?p"
  have A: "length A = 14 + nat n" using assms(1,2,4) by (simp add: A_def ether_ok_def)
  define z :: nat where "z = (if nat n < 50 then 64 else 14 + nat n)"
  have z: "nat (if 14 + n < 64 then 64 else if 14 + n \<ge> 1518 then 1518 else 14 + n) = z"
    using assms(2,3) by (auto simp: z_def nat_add_distrib)
  have n: "(if n \<ge> 1500 then 1500 else n) = n" using assms(3) by simp
  have t: "ether_type eth = TLOE_ETHER_TYPE" using assms(1) by (simp add: ether_ok_def)
  have "\<not> int (length payload) < n" using assms(4) by simp
  then have "tloe_ether_send stack eth payload n = Inr (take z (A @ drop (length A) stack))"
    unfolding tloe_ether_send_def Let_def n z t A_def by (simp only: if_False append_assoc)
  also have "take z (A @ drop (length A) stack) = A @ take (z - length A) (drop (length A) stack)"
    by (simp add: A) (simp add: z_def)
  also have "z - length A = 50 - nat n" by (simp add: A z_def)
  finally show ?thesis unfolding A by (simp only: A_def append_assoc)
qed

section \<open>Properties\<close>

text \<open>C21: A payload of up to 1500 bytes comes out of the receiving driver as it went into the sending one.
  Payloads of fewer than 50 bytes arrive with a length of 50, the rest being whatever was on the
  sender's stack; all others, and so every TLoE frame, arrive with their length.\<close>

theorem ether_roundtrip:
  assumes "ether_ok eth" "0 \<le> n" "n \<le> 1500" "n \<le> int (length payload)" "length stack = 1518"
  shows "\<exists>pkt. tloe_ether_send stack eth payload n = Inr pkt \<and> length pkt \<le> 1518 \<and>
    (case tloe_ether_recv (int (length pkt)) (pkt @ junk) 1500 of (m, bs) \<Rightarrow>
       m = max n 50 \<and> int (length bs) = m \<and> take (nat n) bs = take (nat n) payload)"
proof -
  let ?pad = "take (50 - nat n) (drop (14 + nat n) stack)"
  let ?b = "take (nat n) payload @ ?pad"
  let ?pkt = "dest_mac eth @ src_mac eth @ TLOE_ETHER_TYPE @ ?b"
  have l: "length ?b = nat (max n 50)"
  proof -
    have "length (take (nat n) payload) = nat n" using assms(2,4) by simp
    moreover have "length ?pad = 50 - nat n" using assms(3,5) by (simp add: min_def)
    ultimately have "length ?b = nat n + (50 - nat n)" by simp
    also have "\<dots> = nat (max n 50)" using assms(2) by linarith
    finally show ?thesis .
  qed
  have h: "length (dest_mac eth) = 6" "length (src_mac eth) = 6" using assms(1) by (simp_all add: ether_ok_def)
  have d: "drop 12 (?pkt @ junk) = TLOE_ETHER_TYPE @ ?b @ junk" "drop 14 (?pkt @ junk) = ?b @ junk"
    using h by simp_all
  have len: "length ?pkt = 14 + nat (max n 50)" using h l by simp
  have "0 \<le> max n 50" using assms(2) by simp
  then have c: "int (length ?pkt) - 14 = max n 50" unfolding len by simp
  have "tloe_ether_recv (int (length ?pkt)) (?pkt @ junk) 1500 = (max n 50, take (nat (max n 50)) (?b @ junk))"
    unfolding tloe_ether_recv_def d Let_def c using assms(3) by (simp add: max_def)
  also have "take (nat (max n 50)) (?b @ junk) = ?b"
    unfolding l [symmetric] by (rule append_eq_conv_conj [THEN iffD1, THEN conjunct1, symmetric]) simp
  finally have r: "tloe_ether_recv (int (length ?pkt)) (?pkt @ junk) 1500 = (max n 50, ?b)" .
  have t: "take (nat n) ?b = take (nat n) payload" using assms(2,4) by simp
  have m: "int (length ?b) = max n 50" unfolding l using \<open>0 \<le> max n 50\<close> by simp
  have "length ?pkt \<le> 1518" unfolding len using assms(3) by simp
  moreover have "case tloe_ether_recv (int (length ?pkt)) (?pkt @ junk) 1500 of (m, bs) \<Rightarrow>
       m = max n 50 \<and> int (length bs) = m \<and> take (nat n) bs = take (nat n) payload"
    unfolding r prod.case by (intro conjI m t refl)
  ultimately show ?thesis using ether_send_eq [OF assms] by (intro exI [of _ ?pkt] conjI)
qed

theorem ether_roundtrip_witness:
  "let eth = \<lparr>sock = 3, sll = \<lparr>sll_ifindex = 2, sll_halen = 6, sll_addr = replicate 8 1\<rparr>,
         dest_mac = replicate 6 1, src_mac = replicate 6 2, ether_type = [0xAA, 0xAA]\<rparr>
   in \<exists>pkt. tloe_ether_send (replicate 1518 9) eth (replicate 56 7) 56 = Inr pkt \<and>
        take 56 (snd (tloe_ether_recv (int (length pkt)) (pkt @ []) 1500)) = replicate 56 7"
proof -
  let ?eth = "\<lparr>sock = 3, sll = \<lparr>sll_ifindex = 2, sll_halen = 6, sll_addr = replicate 8 1\<rparr>,
         dest_mac = replicate 6 1, src_mac = replicate 6 2, ether_type = [0xAA, 0xAA]\<rparr>"
  have "ether_ok ?eth" by (simp add: ether_ok_def)
  from ether_roundtrip [OF this, of 56 "replicate 56 7" "replicate 1518 9" "[]"] obtain pkt where
    p: "tloe_ether_send (replicate 1518 9) ?eth (replicate 56 7) 56 = Inr pkt"
    "case tloe_ether_recv (int (length pkt)) (pkt @ []) 1500 of (m, bs) \<Rightarrow>
       m = max 56 50 \<and> int (length bs) = m \<and> take (nat 56) bs = take (nat 56) (replicate 56 7)"
    by (simp only: length_replicate) auto
  then have "take 56 (snd (tloe_ether_recv (int (length pkt)) (pkt @ []) 1500)) = replicate 56 7"
    by (simp add: split_beta)
  with p(1) show ?thesis unfolding Let_def by blast
qed

end
