(* ===== verification/Drivers.thy ===== *)
theory Drivers
  imports Ether Mq Receiver
begin

text \<open>
  The two drivers behind the fabric, \<open>tloe_fabric.c\<close>: the wrapper functions that the tables of function
  pointers hold, the calls through these pointers, and the way of a result from a driver through
  \<open>size_t\<close> to the \<open>int\<close> of the caller.  What the drivers promise the endpoint is the locale
  \<open>packet_driver\<close>.
\<close>

section \<open>Handles and results\<close>

text \<open>What the \<open>void *\<close> of the fabric points to.  A wrapper casts it to the structure of its own driver.\<close>

datatype fabric_handle = Ether_Handle tloe_ether | Mq_Handle tloe_mq

text \<open>The conversions of C from \<open>int\<close> to \<open>size_t\<close> and back.\<close>

definition size_t_of_int :: "int \<Rightarrow> u64" where
  "size_t_of_int n = word_of_int n"

definition int_of_size_t :: "u64 \<Rightarrow> int" where
  "int_of_size_t w = sint (ucast w :: 32 word)"

section \<open>The wrappers\<close>

text \<open>Sending: the result is the packet that the kernel is given.\<close>

definition ether_send_wrapper :: "byte list \<Rightarrow> fabric_handle \<Rightarrow> byte list \<Rightarrow> int \<Rightarrow> byte list result" where
  "ether_send_wrapper stack handle data len =
     (case handle of
        Ether_Handle eth \<Rightarrow> tloe_ether_send stack eth data len
      | Mq_Handle q \<Rightarrow> Inl Undefined)"

definition mq_send_wrapper :: "fabric_handle \<Rightarrow> byte list \<Rightarrow> int \<Rightarrow> byte list result" where
  "mq_send_wrapper handle data len =
     (case handle of
        Ether_Handle eth \<Rightarrow> Inl Undefined
      | Mq_Handle q \<Rightarrow> if int (length data) < len then Inl Out_Of_Bounds else Inr (take (nat len) data))"

text \<open>Receiving: \<open>ev\<close> is what the kernel delivers; the result is a \<open>size_t\<close> and the caller's buffer.\<close>

definition ether_recv_wrapper :: "recv_event \<Rightarrow> fabric_handle \<Rightarrow> int \<Rightarrow> (u64 \<times> byte list) result" where
  "ether_recv_wrapper ev handle len =
     (case handle of
        Ether_Handle eth \<Rightarrow>
          Inr (case tloe_ether_recv (fst ev) (snd ev) len of (n, data) \<Rightarrow> (size_t_of_int n, data))
      | Mq_Handle q \<Rightarrow> Inl Undefined)"

definition mq_recv_wrapper :: "recv_event \<Rightarrow> fabric_handle \<Rightarrow> int \<Rightarrow> (u64 \<times> byte list) result" where
  "mq_recv_wrapper ev handle len =
     (case handle of
        Ether_Handle eth \<Rightarrow> Inl Undefined
      | Mq_Handle q \<Rightarrow> bindR (tloe_mq_recv len ev) (\<lambda>(n, data). Inr (size_t_of_int n, data)))"

definition ether_open_wrapper :: "ether_env \<Rightarrow> string \<Rightarrow> string \<Rightarrow> fabric_handle result" where
  "ether_open_wrapper env name opt = bindR (tloe_ether_open env name opt) (\<lambda>eth. Inr (Ether_Handle eth))"

definition mq_open_wrapper :: "mq_opener \<Rightarrow> bool \<Rightarrow> string \<Rightarrow> string \<Rightarrow> bool \<Rightarrow> fabric_handle result" where
  "mq_open_wrapper mq_open alloc name opt create =
     bindR (tloe_mq_open mq_open alloc name opt create) (\<lambda>q. Inr (Mq_Handle q))"

text \<open>Closing: the descriptors that are closed.\<close>

definition ether_close_wrapper :: "fabric_handle \<Rightarrow> int list result" where
  "ether_close_wrapper handle =
     (case handle of
        Ether_Handle eth \<Rightarrow> Inr (case fst (tloe_ether_close (Some eth)) of None \<Rightarrow> [] | Some fd \<Rightarrow> [fd])
      | Mq_Handle q \<Rightarrow> Inl Undefined)"

definition mq_close_wrapper :: "fabric_handle \<Rightarrow> int list result" where
  "mq_close_wrapper handle =
     (case handle of
        Ether_Handle eth \<Rightarrow> Inl Undefined
      | Mq_Handle q \<Rightarrow> Inr (fst (tloe_mq_close (Some q))))"

section \<open>Calls through the pointers\<close>

text \<open>\<open>stack\<close> is what the 1518 bytes of the Ethernet driver's buffer hold before the call.\<close>

definition fabric_send_packet ::
    "tloe_fabric_type \<Rightarrow> (nat \<Rightarrow> byte) \<Rightarrow> fabric_handle \<Rightarrow> byte list \<Rightarrow> byte list result" where
  "fabric_send_packet ty stack handle p =
     (case ty of
        TLOE_FABRIC_ETHER \<Rightarrow> ether_send_wrapper (map stack [0..<1518]) handle p (int (length p))
      | TLOE_FABRIC_MQ \<Rightarrow> mq_send_wrapper handle p (int (length p)))"

text \<open>The receiving side of the endpoint has a buffer of 1500 bytes and puts the result in an \<open>int\<close>.\<close>

definition fabric_recv_packet ::
    "tloe_fabric_type \<Rightarrow> fabric_handle \<Rightarrow> recv_event \<Rightarrow> recv_event result" where
  "fabric_recv_packet ty handle ev =
     bindR (case ty of
              TLOE_FABRIC_ETHER \<Rightarrow> ether_recv_wrapper ev handle MAX_BUFFER_SIZE
            | TLOE_FABRIC_MQ \<Rightarrow> mq_recv_wrapper ev handle MAX_BUFFER_SIZE)
       (\<lambda>(w, data). Inr (int_of_size_t w, data))"

definition handle_ok :: "tloe_fabric_type \<Rightarrow> fabric_handle \<Rightarrow> bool" where
  "handle_ok ty handle \<longleftrightarrow>
     (case (ty, handle) of
        (TLOE_FABRIC_ETHER, Ether_Handle eth) \<Rightarrow> ether_ok eth
      | (TLOE_FABRIC_MQ, Mq_Handle q) \<Rightarrow> True
      | _ \<Rightarrow> False)"

section \<open>What a driver promises\<close>

text \<open>A packet of 50 to 1500 bytes that was sent and that the kernel delivers is received as it was; when
  the kernel reports an error, so does the driver.\<close>

locale packet_driver =
  fixes send :: "'h \<Rightarrow> byte list \<Rightarrow> byte list result"
    and recv :: "'h \<Rightarrow> recv_event \<Rightarrow> recv_event result"
    and ok :: "'h \<Rightarrow> bool"
  assumes carries: "ok s \<Longrightarrow> ok r \<Longrightarrow> 50 \<le> length p \<Longrightarrow> length p \<le> 1500 \<Longrightarrow>
      \<exists>pkt. send s p = Inr pkt \<and>
        (\<forall>junk. \<exists>junk'. recv r (int (length pkt), pkt @ junk) = Inr (int (length p), p @ junk'))"
    and idle: "ok r \<Longrightarrow> - 2147483648 \<le> n \<Longrightarrow> n < 0 \<Longrightarrow>
      \<exists>buf'. recv r (n, buf) = Inr (n, buf')"
begin

text \<open>What an endpoint behind the driver does when it polls.\<close>

lemma poll_packet:
  assumes "ok s" "ok r" "50 \<le> length p" "length p \<le> 1500"
  shows "\<exists>pkt. send s p = Inr pkt \<and>
    (\<forall>junk. \<exists>junk'. bindR (recv r (int (length pkt), pkt @ junk)) (\<lambda>ev. RX True ev e) =
       RX True (int (length p), p @ junk') e)"
proof -
  obtain pkt where pkt: "send s p = Inr pkt"
    "\<And>junk. \<exists>junk'. recv r (int (length pkt), pkt @ junk) = Inr (int (length p), p @ junk')"
    using carries [OF assms] by blast
  have "\<exists>junk'. bindR (recv r (int (length pkt), pkt @ junk)) (\<lambda>ev. RX True ev e) =
       RX True (int (length p), p @ junk') e" for junk
    using pkt(2) [of junk] by auto
  then show ?thesis using pkt(1) by blast
qed

lemma poll_nothing:
  assumes "ok r" "- 2147483648 \<le> n" "n < 0"
  shows "bindR (recv r (n, buf)) (\<lambda>ev. RX True ev e) = Inr e"
proof -
  have "\<exists>buf'. recv r (n, buf) = Inr (n, buf')" using assms by (rule idle)
  then obtain buf' where "recv r (n, buf) = Inr (n, buf')" ..
  then show ?thesis using assms(3) by (simp add: RX_def tloe_fabric_recv_def)
qed

end

section \<open>Both drivers keep it\<close>

lemma size_t_int:
  assumes "- 2147483648 \<le> n" "n < 2147483648"
  shows "int_of_size_t (size_t_of_int n) = n"
proof -
  have "ucast (word_of_int n :: u64) = (word_of_int n :: 32 word)"
    by (rule bit_word_eqI) (simp add: bit_simps)
  then have "int_of_size_t (size_t_of_int n) = signed_take_bit 31 n"
    by (simp add: int_of_size_t_def size_t_of_int_def signed_of_int)
  then show ?thesis using assms by (simp add: signed_take_bit_int_eq_self)
qed

lemma ether_poll:
  assumes "ether_ok eth" "ether_ok eth'" "50 \<le> length p" "length p \<le> 1500"
  shows "\<exists>pkt. fabric_send_packet TLOE_FABRIC_ETHER stack (Ether_Handle eth) p = Inr pkt \<and>
    fabric_recv_packet TLOE_FABRIC_ETHER (Ether_Handle eth') (int (length pkt), pkt @ junk) =
      Inr (int (length p), p)"
proof -
  have n: "0 \<le> int (length p)" "int (length p) \<le> 1500" "int (length p) \<le> int (length p)"
    "length (map stack [0..<1518]) = 1518" using assms(4) by simp_all
  obtain pkt where pkt: "tloe_ether_send (map stack [0..<1518]) eth p (int (length p)) = Inr pkt"
    "pkt = dest_mac eth @ src_mac eth @ [0xAA, 0xAA] @ p"
    using ether_send_eq [OF assms(1) n] assms(3) by simp
  have l: "length pkt = 14 + length p" using assms(1) by (simp add: pkt(2) ether_ok_def)
  have "drop 12 (pkt @ junk) = [0xAA, 0xAA] @ p @ junk" "drop 14 (pkt @ junk) = p @ junk"
    using assms(1) by (simp_all add: pkt(2) ether_ok_def)
  then have "tloe_ether_recv (int (length pkt)) (pkt @ junk) 1500 = (int (length p), p)"
    using assms(4) by (simp add: tloe_ether_recv_def l)
  then show ?thesis
    using pkt(1) assms(4)
    by (simp add: fabric_send_packet_def ether_send_wrapper_def fabric_recv_packet_def
        ether_recv_wrapper_def size_t_int)
qed

lemma handle_ok_cases:
  assumes "handle_ok ty h"
  obtains (ether) eth where "ty = TLOE_FABRIC_ETHER" "h = Ether_Handle eth" "ether_ok eth"
    | (mq) q where "ty = TLOE_FABRIC_MQ" "h = Mq_Handle q"
  using assms by (cases ty; cases h) (auto simp: handle_ok_def)

interpretation ether_driver: packet_driver "fabric_send_packet TLOE_FABRIC_ETHER stack"
  "fabric_recv_packet TLOE_FABRIC_ETHER" "handle_ok TLOE_FABRIC_ETHER" for stack
proof
  fix s r and p :: "byte list"
  assume h: "handle_ok TLOE_FABRIC_ETHER s" "handle_ok TLOE_FABRIC_ETHER r" "50 \<le> length p" "length p \<le> 1500"
  obtain eth eth' where e: "s = Ether_Handle eth" "ether_ok eth" "r = Ether_Handle eth'" "ether_ok eth'"
    using h(1,2) by (auto elim!: handle_ok_cases)
  obtain pkt where "fabric_send_packet TLOE_FABRIC_ETHER stack s p = Inr pkt"
    using ether_poll [OF e(2,4) h(3,4)] e(1) by blast
  moreover have "fabric_recv_packet TLOE_FABRIC_ETHER r (int (length pkt), pkt @ junk) = Inr (int (length p), p @ [])"
    for junk using ether_poll [OF e(2,4) h(3,4), of stack junk] calculation e(1,3) by auto
  ultimately show "\<exists>pkt. fabric_send_packet TLOE_FABRIC_ETHER stack s p = Inr pkt \<and>
      (\<forall>junk. \<exists>junk'. fabric_recv_packet TLOE_FABRIC_ETHER r (int (length pkt), pkt @ junk) =
         Inr (int (length p), p @ junk'))" by blast
next
  fix r and n :: int and buf :: "byte list"
  assume "handle_ok TLOE_FABRIC_ETHER r" "- 2147483648 \<le> n" "n < 0"
  then show "\<exists>buf'. fabric_recv_packet TLOE_FABRIC_ETHER r (n, buf) = Inr (n, buf')"
    by (auto elim!: handle_ok_cases
        simp: fabric_recv_packet_def ether_recv_wrapper_def tloe_ether_recv_def size_t_int)
qed

interpretation mq_driver: packet_driver "fabric_send_packet TLOE_FABRIC_MQ stack"
  "fabric_recv_packet TLOE_FABRIC_MQ" "handle_ok TLOE_FABRIC_MQ" for stack
proof
  fix s r and p :: "byte list"
  assume "handle_ok TLOE_FABRIC_MQ s" "handle_ok TLOE_FABRIC_MQ r" "50 \<le> length p" "length p \<le> 1500"
  then show "\<exists>pkt. fabric_send_packet TLOE_FABRIC_MQ stack s p = Inr pkt \<and>
      (\<forall>junk. \<exists>junk'. fabric_recv_packet TLOE_FABRIC_MQ r (int (length pkt), pkt @ junk) =
         Inr (int (length p), p @ junk'))"
    by (auto elim!: handle_ok_cases simp: fabric_send_packet_def mq_send_wrapper_def
        fabric_recv_packet_def mq_recv_wrapper_def tloe_mq_recv_def size_t_int)
next
  fix r and n :: int and buf :: "byte list"
  assume "handle_ok TLOE_FABRIC_MQ r" "- 2147483648 \<le> n" "n < 0"
  then show "\<exists>buf'. fabric_recv_packet TLOE_FABRIC_MQ r (n, buf) = Inr (n, buf')"
    by (auto elim!: handle_ok_cases
        simp: fabric_recv_packet_def mq_recv_wrapper_def tloe_mq_recv_def size_t_int)
qed

text \<open>The handles that the wrappers open are good for their driver.\<close>

lemma open_wrapper_ok:
  "mq_open_wrapper mq_open alloc name opt create = Inr h \<Longrightarrow> handle_ok TLOE_FABRIC_MQ h"
  "ether_open_wrapper env name opt = Inr h \<Longrightarrow> length (snd (en_scan env opt)) = 6 \<Longrightarrow>
     (\<And>hw. en_hwaddr env = Some hw \<Longrightarrow> length hw = 6) \<Longrightarrow> handle_ok TLOE_FABRIC_ETHER h"
  using tloe_ether_open_ok
  by (auto simp: mq_open_wrapper_def ether_open_wrapper_def handle_ok_def bindR_Inr_iff)

section \<open>Properties\<close>

text \<open>C22: Whichever driver the fabric was opened with, a packet of 50 to 1500 bytes that one endpoint sends
  and the kernel delivers makes \<open>RX\<close> of the other do what it does for that very packet, although the
  Ethernet driver adds its header and the result comes back as a \<open>size_t\<close>; and when the kernel has
  nothing and says so with a negative result, the sign survives that way and \<open>RX\<close> changes nothing.\<close>

theorem fabric_transparent:
  assumes "handle_ok ty s" "handle_ok ty r" "50 \<le> length p" "length p \<le> 1500"
    and "- 2147483648 \<le> n" "n < 0"
  shows "(\<exists>pkt. fabric_send_packet ty stack s p = Inr pkt \<and>
      (\<forall>junk. \<exists>junk'. bindR (fabric_recv_packet ty r (int (length pkt), pkt @ junk)) (\<lambda>ev. RX True ev e) =
         RX True (int (length p), p @ junk') e)) \<and>
    bindR (fabric_recv_packet ty r (n, buf)) (\<lambda>ev. RX True ev e) = Inr e"
proof (cases ty)
  case TLOE_FABRIC_ETHER
  then show ?thesis
    using ether_driver.poll_packet [of s r p stack e] ether_driver.poll_nothing [of r n buf e] assms by simp
next
  case TLOE_FABRIC_MQ
  then show ?thesis
    using mq_driver.poll_packet [of s r p stack e] mq_driver.poll_nothing [of r n buf e] assms by simp
qed

theorem fabric_transparent_witness:
  "let h = Mq_Handle \<lparr>mq_tx = 3, mq_rx = 4\<rparr>; p = frame_packet (example_frame 0) 56
   in \<exists>pkt junk. fabric_send_packet TLOE_FABRIC_MQ (\<lambda>_. 0) h p = Inr pkt \<and>
     bindR (fabric_recv_packet TLOE_FABRIC_MQ h (int (length pkt), pkt @ [])) (\<lambda>ev. RX True ev example_endpoint) =
       RX True (56, p @ junk) example_endpoint"
proof -
  let ?h = "Mq_Handle \<lparr>mq_tx = 3, mq_rx = 4\<rparr>" and ?p = "frame_packet (example_frame 0) 56"
  have l: "length ?p = 56" by (subst length_frame_packet) (simp_all add: example_frame_def)
  have "handle_ok TLOE_FABRIC_MQ ?h" by (simp add: handle_ok_def)
  from fabric_transparent [OF this this, of ?p "-1" "\<lambda>_. 0" example_endpoint "[]"] obtain pkt where
    pkt: "fabric_send_packet TLOE_FABRIC_MQ (\<lambda>_. 0) ?h ?p = Inr pkt"
      "\<forall>junk. \<exists>junk'. bindR (fabric_recv_packet TLOE_FABRIC_MQ ?h (int (length pkt), pkt @ junk))
         (\<lambda>ev. RX True ev example_endpoint) = RX True (int (length ?p), ?p @ junk') example_endpoint"
    by (auto simp: l)
  show ?thesis using pkt(1) spec [OF pkt(2), of "[]"] unfolding Let_def l by auto
qed

end
