(* ===== verification/C_Input.thy ===== *)
theory C_Input
  imports OX_Prelude
begin

text \<open>
  What the two command line programs use of the C library to read a command: \<open>fgets\<close>, \<open>isspace\<close>,
  \<open>atoi\<close> and the conversions of \<open>sscanf\<close>, on strings without null characters.  A number that does
  not fit into the type of the conversion is undefined behaviour (\<open>Undefined\<close>).
\<close>

section \<open>Lines\<close>

text \<open>The next line with its newline, but at most \<open>n\<close> characters, and what is left.\<close>

fun read_line :: "nat \<Rightarrow> string \<Rightarrow> string \<times> string" where
  "read_line 0 s = ([], s)"
| "read_line (Suc n) [] = ([], [])"
| "read_line (Suc n) (c # s) =
     (if c = CHR 0x0A then ([c], s) else case read_line n s of (l, r) \<Rightarrow> (c # l, r))"

text \<open>\<open>fgets\<close> into a buffer of \<open>n\<close> characters: nothing at the end of the input.\<close>

definition fgets :: "nat \<Rightarrow> string \<Rightarrow> (string \<times> string) option" where
  "fgets n s = (if s = [] then None else Some (read_line (n - 1) s))"

definition isspace :: "char \<Rightarrow> bool" where
  "isspace c \<longleftrightarrow> c = CHR '' '' \<or> c = CHR 0x09 \<or> c = CHR 0x0A \<or> c = CHR 0x0B \<or> c = CHR 0x0C \<or> c = CHR 0x0D"

abbreviation skip_space :: "string \<Rightarrow> string" where
  "skip_space \<equiv> dropWhile isspace"

text \<open>\<open>cmd[strcspn(cmd, "\n")] = 0\<close>.\<close>

definition strip_newline :: "string \<Rightarrow> string" where
  "strip_newline s = takeWhile (\<lambda>c. c \<noteq> CHR 0x0A) s"

section \<open>Numbers\<close>

definition digit :: "nat \<Rightarrow> char \<Rightarrow> nat option" where
  "digit base c =
     (let n = of_char c :: nat;
          v = (if 48 \<le> n \<and> n \<le> 57 then n - 48
               else if 97 \<le> n \<and> n \<le> 122 then n - 87
               else if 65 \<le> n \<and> n \<le> 90 then n - 55 else 36)
      in if v < base then Some v else None)"

text \<open>The value of the digits at the front, how many they are, and the rest.\<close>

fun read_digits :: "nat \<Rightarrow> nat \<Rightarrow> string \<Rightarrow> nat \<times> nat \<times> string" where
  "read_digits base acc [] = (acc, 0, [])"
| "read_digits base acc (c # s) =
     (case digit base c of
        None \<Rightarrow> (acc, 0, c # s)
      | Some d \<Rightarrow> case read_digits base (acc * base + d) s of (v, k, r) \<Rightarrow> (v, Suc k, r))"

definition read_sign :: "string \<Rightarrow> bool \<times> string" where
  "read_sign s =
     (case s of [] \<Rightarrow> (False, [])
      | c # r \<Rightarrow> if c = CHR ''-'' then (True, r) else if c = CHR ''+'' then (False, r) else (False, c # r))"

text \<open>\<open>atoi\<close>: no digits give zero.\<close>

definition atoi :: "string \<Rightarrow> int result" where
  "atoi s =
     (case read_sign (skip_space s) of
        (neg, r) \<Rightarrow>
          let v = int (fst (read_digits 10 0 r)); v = (if neg then - v else v)
          in if v < - 2147483648 \<or> 2147483647 < v then Inl Undefined else Inr v)"

text \<open>\<open>%x\<close> and \<open>%lx\<close> for an unsigned type of \<open>w\<close> bits: the value and the rest, or nothing when the text
  does not match.\<close>

definition read_prefix :: "string \<Rightarrow> string" where
  "read_prefix s =
     (case s of z # x # r \<Rightarrow> if z = CHR ''0'' \<and> (x = CHR ''x'' \<or> x = CHR ''X'') then r else s | _ \<Rightarrow> s)"

definition scan_hex :: "nat \<Rightarrow> string \<Rightarrow> (nat \<times> string) option result" where
  "scan_hex w s =
     (case read_sign (skip_space s) of
        (neg, r) \<Rightarrow>
          case read_digits 16 0 (read_prefix r) of
            (v, k, rest) \<Rightarrow>
              if k = 0 then Inr None
              else if 2 ^ w \<le> v then Inl Undefined
              else Inr (Some (if neg then (2 ^ w - v) mod 2 ^ w else v, rest)))"

section \<open>Lemmas\<close>

lemma read_line_append: "read_line n s = (l, r) \<Longrightarrow> l @ r = s"
  by (induction n s arbitrary: l r rule: read_line.induct) (auto split: if_splits prod.splits)

lemma read_line_length: "read_line n s = (l, r) \<Longrightarrow> length l \<le> n"
  by (induction n s arbitrary: l r rule: read_line.induct) (auto split: if_splits prod.splits)

text \<open>Reading shortens the input, so a finite input ends.\<close>

lemma fgets_shorter:
  assumes "fgets n s = Some (l, r)" "2 \<le> n"
  shows "length r < length s" "length l < n" "l @ r = s"
proof -
  have rl: "s \<noteq> []" "read_line (n - 1) s = (l, r)" using assms(1) by (auto simp: fgets_def split: if_splits)
  show s: "l @ r = s" by (rule read_line_append [OF rl(2)])
  show "length l < n" using read_line_length [OF rl(2)] assms(2) by simp
  obtain m c t where "n - 1 = Suc m" "s = c # t" using rl(1) assms(2) by (cases "n - 1"; cases s) auto
  then have "l \<noteq> []" using rl(2) by (auto split: if_splits prod.splits)
  then show "length r < length s" unfolding s [symmetric] by simp
qed

lemma fgets_end [simp]: "fgets n [] = None"
  by (simp add: fgets_def)

text \<open>A line that fits is read as a whole.\<close>

lemma read_line_whole:
  assumes "CHR 0x0A \<notin> set l" "length l < n"
  shows "read_line n (l @ CHR 0x0A # r) = (l @ [CHR 0x0A], r)"
  using assms
proof (induction l arbitrary: n)
  case Nil
  then show ?case by (cases n) auto
next
  case (Cons c l)
  then obtain m where "n = Suc m" "length l < m" by (cases n) auto
  then show ?case using Cons by auto
qed

lemma fgets_whole:
  assumes "CHR 0x0A \<notin> set l" "Suc (length l) < n"
  shows "fgets n (l @ CHR 0x0A # r) = Some (l @ [CHR 0x0A], r)"
  using read_line_whole [OF assms(1), of "n - 1"] assms(2) by (simp add: fgets_def)

lemma strip_newline_line [simp]: "CHR 0x0A \<notin> set l \<Longrightarrow> strip_newline (l @ CHR 0x0A # r) = l"
  unfolding strip_newline_def by (induction l) auto

text \<open>The decimal digits of a number, and their value.\<close>

fun decimal :: "nat \<Rightarrow> string" where
  "decimal n = (if n < 10 then [] else decimal (n div 10)) @ [char_of (48 + n mod 10)]"

declare decimal.simps [simp del]

lemma digit_decimal [simp]: "d < 10 \<Longrightarrow> digit 10 (char_of (48 + d)) = Some d"
  by (simp add: digit_def Let_def of_char_of)

lemma read_digits_snoc:
  assumes "read_digits base acc s = (v, k, [])" "digit base c = Some d"
  shows "read_digits base acc (s @ [c]) = (v * base + d, Suc k, [])"
  using assms
proof (induction s arbitrary: acc v k)
  case (Cons x s)
  then show ?case by (auto split: option.splits prod.splits)
qed simp

lemma read_digits_decimal: "\<exists>k. read_digits 10 0 (decimal n) = (n, Suc k, [])"
proof (induction n rule: decimal.induct)
  case (1 n)
  show ?case
  proof (cases "n < 10")
    case True
    then show ?thesis by (subst decimal.simps) simp
  next
    case False
    then obtain k where "read_digits 10 0 (decimal (n div 10)) = (n div 10, Suc k, [])" using 1 by blast
    from read_digits_snoc [OF this digit_decimal, of "n mod 10"] False show ?thesis
      by (subst decimal.simps) simp
  qed
qed

lemma decimal_first:
  "\<exists>c s d. decimal n = c # s \<and> digit 10 c = Some d"
proof (induction n rule: decimal.induct)
  case (1 n)
  then show ?case by (cases "n < 10") (subst decimal.simps, auto)+
qed

lemma digit_char:
  assumes "digit 10 c = Some d"
  shows "\<not> isspace c" "c \<noteq> CHR ''-''" "c \<noteq> CHR ''+''"
  using assms by (auto simp: digit_def isspace_def Let_def split: if_splits)

text \<open>\<open>atoi\<close> reads back what \<open>printf\<close> writes.\<close>

lemma atoi_decimal: "n < 2147483648 \<Longrightarrow> atoi (decimal n) = Inr (int n)"
proof -
  assume n: "n < 2147483648"
  obtain c s d where c: "decimal n = c # s" "digit 10 c = Some d" using decimal_first by blast
  then have "read_sign (skip_space (decimal n)) = (False, decimal n)"
    using digit_char [OF c(2)] by (simp add: read_sign_def)
  then show ?thesis using read_digits_decimal [of n] n by (auto simp: atoi_def Let_def)
qed

end
