(* ===== verification/Program.thy ===== *)
theory Program
  imports Endpoint_Main C_Input
begin

text \<open>
  The user's side of \<open>main\<close> in \<open>tloe_endpoint.c\<close>: reading commands until the program ends, and the end of
  the program.
\<close>

section \<open>Reading a command\<close>

text \<open>\<open>sscanf(input_count, " %c %lx %x %x", ...)\<close>: nothing when not even a character is found; arguments that
  are missing keep the zero they were set to.\<close>

definition scan_next :: "nat \<Rightarrow> string option \<Rightarrow> (nat \<times> string option) result" where
  "scan_next w s =
     (case s of None \<Rightarrow> Inr (0, None)
      | Some s \<Rightarrow> bindR (scan_hex w s) (\<lambda>r. case r of None \<Rightarrow> Inr (0, None) | Some (v, s) \<Rightarrow> Inr (v, Some s)))"

definition scan_command :: "string \<Rightarrow> (char \<times> u64 \<times> int \<times> int) option result" where
  "scan_command s =
     (case skip_space s of
        [] \<Rightarrow> Inr None
      | c # s \<Rightarrow>
          bindR (scan_next 64 (Some s)) (\<lambda>(a1, s).
          bindR (scan_next 32 s) (\<lambda>(a2, s).
          bindR (scan_next 32 s) (\<lambda>(a3, s).
            Inr (Some (c, of_nat a1, sint (of_nat a2 :: u32), sint (of_nat a3 :: u32)))))))"

section \<open>The loop\<close>

text \<open>What happens around a command: the iterations of the endpoint thread before it, and the inputs of the
  command itself.\<close>

record main_env =
  me_iterations :: "iter_env list"
  me_command :: cmd_env

text \<open>Without a connection the thread waits in its inner loop.\<close>

definition run_thread :: "iter_env list \<Rightarrow> thread \<Rightarrow> thread result" where
  "run_thread envs st = (if connection (th_ep st) then tloe_endpoint envs st else Inr st)"

text \<open>The loop, for as many rounds as there are inputs; the flag tells whether it has ended.  The result of
  \<open>fgets\<close> is not looked at, so that at the end of the input the buffer keeps the last line.\<close>

fun main_loop ::
    "main_env list \<Rightarrow> int \<Rightarrow> int \<Rightarrow> string \<Rightarrow> string \<Rightarrow> thread \<Rightarrow> (thread \<times> bool) result" where
  "main_loop [] fab ms input_count stdin st = Inr (st, False)"
| "main_loop (env # envs) fab ms input_count stdin st =
     (if is_done (th_ep st) then Inr (st, True)
      else bindR (run_thread (me_iterations env) st) (\<lambda>st.
        let (input_count, stdin) =
              (case fgets 32 stdin of None \<Rightarrow> (input_count, stdin) | Some lr \<Rightarrow> lr)
        in bindR (scan_command input_count) (\<lambda>cmd.
          case cmd of
            None \<Rightarrow> main_loop envs fab ms input_count stdin st
          | Some (input, args1, args2, args3) \<Rightarrow>
              bindR (handle_user_input (me_command env) (th_ep st) (th_mem st) input args1 args2 args3
                       fab ms) (\<lambda>(e, mem, ret).
                let st = st\<lparr>th_ep := e, th_mem := mem\<rparr>
                in if ret \<noteq> 0 then Inr (st, True)
                   else main_loop envs fab ms input_count stdin st))))"

section \<open>The end\<close>

text \<open>What is left, and what was passed to \<open>free\<close>.\<close>

record closed =
  cl_ep :: endpoint
  cl_mem :: storage
  cl_message :: "tl_msg list"
  cl_retransmit :: "retransmit_element list"
  cl_ack :: "tloe_frame list"
  cl_tl_msg :: "tl_block list"
  cl_response :: "tl_msg list"

definition free_queue :: "'a cqueue \<Rightarrow> 'a list result" where
  "free_queue q = loop_result (map_option Inr (delete_queue q))"

text \<open>\<open>waiting\<close>: the thread is in its inner loop, which looks at the connection only.  Then it does not see
  that it is to end, and \<open>pthread_join\<close> waits for ever.\<close>

definition tloe_endpoint_close :: "bool \<Rightarrow> thread \<Rightarrow> closed result" where
  "tloe_endpoint_close waiting st =
     (if waiting \<and> \<not> connection (th_ep st) then Inl Blocked
      else let e = tloe_fabric_close (th_ep st); mem = tl_handler_close (th_mem st)
        in bindR (free_queue (message_buffer e)) (\<lambda>ms.
           bindR (free_queue (retransmit_buffer e)) (\<lambda>rs.
           bindR (free_queue (ack_buffer e)) (\<lambda>as.
           bindR (free_queue (tl_msg_buffer e)) (\<lambda>ts.
           bindR (free_queue (response_buffer e)) (\<lambda>ps.
             Inr \<lparr>cl_ep = e, cl_mem = mem, cl_message = ms, cl_retransmit = rs, cl_ack = as,
                  cl_tl_msg = ts, cl_response = ps\<rparr>))))))"

text \<open>\<open>main\<close> as a whole; without an end of the loop it is \<open>Blocked\<close> when the inputs end.\<close>

definition main_program ::
    "bool \<Rightarrow> bool \<Rightarrow> cmd_opt list \<Rightarrow> main_env list \<Rightarrow> string \<Rightarrow> string \<Rightarrow> bool \<Rightarrow> closed result" where
  "main_program mem_alloc fab_opened opts envs input_count stdin waiting =
     (case parse_arguments opts of
        None \<Rightarrow> Inl Exited
      | Some a \<Rightarrow>
          bindR (main_start mem_alloc fab_opened opts) (\<lambda>st.
          bindR (main_loop envs (arg_fabric a) (arg_master a) input_count stdin st) (\<lambda>(st, ended).
            if ended then tloe_endpoint_close waiting st else Inl Blocked)))"

section \<open>Lemmas\<close>

lemma free_queue_ok: "cq_inv q \<Longrightarrow> free_queue q = Inr (cq_list q)"
  by (simp add: free_queue_def queue_delete_frees_contents)

lemma scan_hex_end: "list_all isspace s \<Longrightarrow> scan_hex w s = Inr None"
  by (simp add: scan_hex_def read_sign_def read_prefix_def dropWhile_eq_Nil_conv [THEN iffD2] list_all_iff)

text \<open>A character alone is a command without arguments.\<close>

lemma scan_command_char:
  assumes "\<not> isspace c" "list_all isspace s"
  shows "scan_command (c # s) = Inr (Some (c, 0, 0, 0))"
  using assms scan_hex_end [OF assms(2)] by (simp add: scan_command_def scan_next_def)

lemma scan_command_blank: "list_all isspace s \<Longrightarrow> scan_command s = Inr None"
  by (simp add: scan_command_def dropWhile_eq_Nil_conv [THEN iffD2] list_all_iff)

lemma run_thread_ok:
  assumes "thread_inv st" "connection (th_ep st) \<Longrightarrow> feeds envs st"
  obtains st' where "run_thread envs st = Inr st'" "thread_inv st'"
    "connection (th_ep st') = connection (th_ep st)" "is_done (th_ep st') = is_done (th_ep st)"
  using assms tloe_endpoint_ok [OF assms(1), of envs]
  by (cases "connection (th_ep st)") (auto simp: run_thread_def)

text \<open>One round that reads the whole line.\<close>

lemma main_loop_line:
  assumes "\<not> is_done (th_ep st)" "run_thread (me_iterations env) st = Inr st'"
    and "CHR 0x0A \<notin> set l" "length l < 31"
  shows "main_loop (env # envs) fab ms buf (l @ CHR 0x0A # rest) st =
    bindR (scan_command (l @ [CHR 0x0A])) (\<lambda>cmd.
      case cmd of
        None \<Rightarrow> main_loop envs fab ms (l @ [CHR 0x0A]) rest st'
      | Some (input, args1, args2, args3) \<Rightarrow>
          bindR (handle_user_input (me_command env) (th_ep st') (th_mem st') input args1 args2 args3 fab ms)
            (\<lambda>(e, mem, ret).
              if ret \<noteq> 0 then Inr (st'\<lparr>th_ep := e, th_mem := mem\<rparr>, True)
              else main_loop envs fab ms (l @ [CHR 0x0A]) rest (st'\<lparr>th_ep := e, th_mem := mem\<rparr>)))"
  using assms fgets_whole [OF assms(3), of 32 rest] by (simp add: Let_def)

text \<open>At the end of the input a buffer with a blank line is read over and over.\<close>

lemma blank_line_repeats:
  assumes "list_all isspace buf" "\<not> is_done (th_ep st)" "\<not> connection (th_ep st)"
  shows "main_loop envs fab ms buf [] st = Inr (st, False)"
  using assms scan_command_blank [OF assms(1)]
  by (induction envs) (simp_all add: run_thread_def)

lemma close_ok:
  assumes "ep_wf (th_ep st)" "\<not> waiting \<or> connection (th_ep st)"
  shows "\<exists>c. tloe_endpoint_close waiting st = Inr c \<and> \<not> fabric_up (cl_ep c) \<and> cl_mem c = None \<and>
    cl_message c = cq_list (message_buffer (th_ep st)) \<and>
    cl_retransmit c = cq_list (retransmit_buffer (th_ep st)) \<and>
    cl_ack c = cq_list (ack_buffer (th_ep st)) \<and> cl_tl_msg c = cq_list (tl_msg_buffer (th_ep st)) \<and>
    cl_response c = cq_list (response_buffer (th_ep st))"
proof -
  let ?e = "tloe_fabric_close (th_ep st)"
  have e: "message_buffer ?e = message_buffer (th_ep st)" "retransmit_buffer ?e = retransmit_buffer (th_ep st)"
    "ack_buffer ?e = ack_buffer (th_ep st)" "tl_msg_buffer ?e = tl_msg_buffer (th_ep st)"
    "response_buffer ?e = response_buffer (th_ep st)" "\<not> fabric_up ?e"
    by (auto simp: tloe_fabric_close_def fabric_up_def)
  have "\<not> (waiting \<and> \<not> connection (th_ep st))" using assms(2) by blast
  then show ?thesis
    using e ep_wfD(1,3-6) [OF assms(1)]
    by (simp add: tloe_endpoint_close_def Let_def free_queue_ok tl_handler_close_def)
qed

section \<open>Properties\<close>

text \<open>C25: The command \<open>q\<close> ends the program.  With a connection the loop is left, the thread ends, the fabric
  and the memory are closed and every element of the five queues is freed once.  Without one the thread
  waits for the connection in a loop that does not look at the flag to end, so that the program hangs in
  \<open>pthread_join\<close>.\<close>

theorem quit_ends_program:
  assumes "thread_inv st" "\<not> is_done (th_ep st)" "connection (th_ep st) \<longrightarrow> feeds (me_iterations env) st"
  shows "\<exists>st'. main_loop (env # envs) fab ms buf (''q'' @ CHR 0x0A # rest) st = Inr (st', True) \<and>
    is_done (th_ep st') \<and>
    (if connection (th_ep st)
     then \<exists>c. tloe_endpoint_close waiting st' = Inr c \<and> \<not> fabric_up (cl_ep c) \<and> cl_mem c = None \<and>
       cl_message c = cq_list (message_buffer (th_ep st')) \<and>
       cl_retransmit c = cq_list (retransmit_buffer (th_ep st')) \<and>
       cl_ack c = cq_list (ack_buffer (th_ep st')) \<and> cl_tl_msg c = cq_list (tl_msg_buffer (th_ep st')) \<and>
       cl_response c = cq_list (response_buffer (th_ep st'))
     else tloe_endpoint_close True st' = Inl Blocked)"
proof -
  obtain st1 where st1: "run_thread (me_iterations env) st = Inr st1" "thread_inv st1"
    "connection (th_ep st1) = connection (th_ep st)"
    using run_thread_ok [OF assms(1)] assms(3) by blast
  let ?st = "st1\<lparr>th_ep := (th_ep st1)\<lparr>is_done := True\<rparr>, th_mem := th_mem st1\<rparr>"
  have "scan_command (''q'' @ [CHR 0x0A]) = Inr (Some (CHR ''q'', 0, 0, 0))"
    using scan_command_char [of "CHR ''q''" "[CHR 0x0A]"] by (simp add: isspace_def)
  then have run: "main_loop (env # envs) fab ms buf (''q'' @ CHR 0x0A # rest) st = Inr (?st, True)"
    by (subst main_loop_line [OF assms(2) st1(1)]) (simp_all add: handle_user_input_def)
  have wf: "ep_wf (th_ep ?st)" using st1(2) by (simp add: thread_inv_def ep_wf_def)
  show ?thesis
  proof (cases "connection (th_ep st)")
    case True
    then show ?thesis using run close_ok [OF wf, of waiting] st1(3) by (intro exI [of _ ?st]) simp
  next
    case False
    then show ?thesis using run st1(3) by (intro exI [of _ ?st]) (simp add: tloe_endpoint_close_def)
  qed
qed

definition example_main_env :: main_env where
  "example_main_env = \<lparr>me_iterations = [example_input], me_command = \<lparr>cmd_wde = False, cmd_events = [],
     cmd_start = \<lparr>tv_sec = 0, tv_nsec = 0\<rparr>, cmd_mem_alloc = True, cmd_msg_alloc = True\<rparr>\<rparr>"

theorem quit_ends_program_witness:
  "\<exists>st' c. main_loop [example_main_env] 1 1 [] (''q'' @ CHR 0x0A # []) example_thread = Inr (st', True) \<and>
     tloe_endpoint_close True st' = Inr c \<and> cl_mem c = None"
proof -
  have "connection (th_ep example_thread)" "\<not> is_done (th_ep example_thread)"
    by (simp_all add: example_thread_def)
  moreover have "feeds (me_iterations example_main_env) example_thread"
    using example_feeds by (simp only: example_main_env_def main_env.simps)
  ultimately show ?thesis
    using quit_ends_program [OF example_thread_inv, where env = example_main_env and envs = "[]" and fab = 1 and ms = 1
        and buf = "[]" and rest = "[]" and waiting = True] by auto
qed

end
