(* ===== verification/Ns_Main.thy ===== *)
theory Ns_Main
  imports Ns_Thread C_Input
begin

text \<open>
  The command line of the network simulator, \<open>tloe_ns.c\<close>.  The program reads lines of at most 31
  characters; between two lines its relay thread runs.
\<close>

section \<open>Arguments\<close>

text \<open>The options as \<open>getopt\<close> delivers them.\<close>

datatype ns_opt = Ns_p string | Ns_h | Ns_other

text \<open>\<open>strncpy\<close> into the buffer of 64 characters, the last of which is cleared.  No result means that the
  usage was printed.\<close>

fun parse_cli_options :: "ns_opt list \<Rightarrow> string \<Rightarrow> string option" where
  "parse_cli_options [] queue_name = Some queue_name"
| "parse_cli_options (Ns_p optarg # opts) queue_name =
     parse_cli_options opts (take (MAX_QUEUE_NAME - 1) optarg)"
| "parse_cli_options (_ # opts) queue_name = None"

definition parse_cli_argument :: "ns_opt list \<Rightarrow> string option" where
  "parse_cli_argument opts =
     (case parse_cli_options opts [] of
        None \<Rightarrow> None
      | Some queue_name \<Rightarrow> if queue_name = [] then None else Some queue_name)"

section \<open>Commands\<close>

definition is_empty_command :: "string \<Rightarrow> bool" where
  "is_empty_command cmd \<longleftrightarrow> list_all isspace cmd"

text \<open>What happens around a command: the steps of the thread before it, whether \<open>pthread_create\<close> succeeds,
  the ports for a thread that is joined before it opened them, the kernel's answers to flushing.\<close>

record ns_round =
  nr_thread :: "relay_env list"
  nr_created :: bool
  nr_join :: relay_env
  nr_flush :: flush_envs

definition set_count :: "(int \<Rightarrow> relay \<Rightarrow> relay) \<Rightarrow> string \<Rightarrow> relay \<Rightarrow> (relay \<times> bool) result" where
  "set_count set_drop_count cmd st =
     bindR (atoi (drop 2 cmd)) (\<lambda>count.
       Inr (if count > 0 then set_drop_count count st else st, False))"

text \<open>One command; the flag tells whether the program ends.\<close>

definition ns_command :: "ns_round \<Rightarrow> string \<Rightarrow> string \<Rightarrow> relay \<Rightarrow> (relay \<times> bool) result" where
  "ns_command r queue_name cmd st =
     (let start = Inr (tloe_ns_thread_start (nr_created r) st, False);
          stop = (\<lambda>st. tloe_ns_thread_stop (nr_join r) queue_name st)
      in if is_empty_command cmd then Inr (st, False)
      else if cmd = ''s'' then
        if tloe_ns_thread_is_done st then start else bindR (stop st) (\<lambda>st. Inr (st, False))
      else if cmd = ''start'' \<or> cmd = ''run'' \<or> cmd = ''r'' then start
      else if cmd = ''stop'' \<or> cmd = ''halt'' \<or> cmd = ''h'' then bindR (stop st) (\<lambda>st. Inr (st, False))
      else if cmd = ''flush'' \<or> cmd = ''f'' then
        bindR (tloe_ns_flush_ports (nr_flush r) st) (\<lambda>_. Inr (st, False))
      else if take 2 cmd = ''a '' then set_count tloe_ns_set_drop_count_a_to_b cmd st
      else if take 2 cmd = ''b '' then set_count tloe_ns_set_drop_count_b_to_a cmd st
      else if take 2 cmd = ''w '' then set_count tloe_ns_set_drop_count_bidirectional cmd st
      else if cmd = ''quit'' \<or> cmd = ''q'' then
        bindR (if \<not> tloe_ns_thread_is_done st then stop st else Inr st) (\<lambda>st. Inr (st, True))
      else Inr (st, False))"

abbreviation (input) "MAX_CMD_LEN \<equiv> (32 :: nat)"

text \<open>The loop of \<open>main\<close> on the input that is left; it ends with the command to quit or at the end of the
  input.\<close>

function ns_loop :: "(nat \<Rightarrow> ns_round) \<Rightarrow> nat \<Rightarrow> string \<Rightarrow> string \<Rightarrow> relay \<Rightarrow> relay result" where
  "ns_loop rounds k queue_name stdin st =
     bindR (thread_fn (nr_thread (rounds k)) queue_name st) (\<lambda>st.
       case fgets MAX_CMD_LEN stdin of
         None \<Rightarrow> Inr st
       | Some (line, rest) \<Rightarrow>
           bindR (ns_command (rounds k) queue_name (strip_newline line) st) (\<lambda>(st, quit).
             if quit then Inr st else ns_loop rounds (Suc k) queue_name rest st))"
  by pat_completeness auto
termination
  by (relation "measure (\<lambda>(rounds, k, queue_name, stdin, st). length stdin)")
    (auto dest: fgets_shorter(1))

declare ns_loop.simps [simp del]

text \<open>\<open>main\<close>: the exit code, or the state at the end.\<close>

definition ns_main :: "ns_opt list \<Rightarrow> (nat \<Rightarrow> ns_round) \<Rightarrow> string \<Rightarrow> relay option result" where
  "ns_main opts rounds stdin =
     (case parse_cli_argument opts of
        None \<Rightarrow> Inr None
      | Some queue_name \<Rightarrow> bindR (ns_loop rounds 0 queue_name stdin ns_initial) (\<lambda>st. Inr (Some st)))"

section \<open>Lemmas\<close>

text \<open>The state of the relay between two commands.\<close>

definition relay_inv :: "relay \<Rightarrow> bool" where
  "relay_inv st \<longleftrightarrow> (ns_is_done st \<longleftrightarrow> ns_thread st = Ns_None) \<and>
     (if ns_thread st = Ns_Loop then ep_port_a st \<noteq> None \<and> ep_port_b st \<noteq> None
      else ep_port_a st = None \<and> ep_port_b st = None)"

lemma relay_inv_initial [simp]: "relay_inv ns_initial"
  by (simp add: relay_inv_def ns_initial_def)

text \<open>What the kernel can do without bringing the relay down.\<close>

definition relay_env_ok :: "relay_env \<Rightarrow> bool" where
  "relay_env_ok env \<longleftrightarrow> (\<forall>name c. re_open env name c \<noteq> -1) \<and> re_alloc_a env \<and> re_alloc_b env \<and>
     fst (re_recv_a env) \<le> 1024 \<and> fst (re_recv_b env) \<le> 1024"

lemma thread_init_ok:
  assumes "relay_env_ok env"
  obtains a b where "thread_init env q st = Inr (st\<lparr>ep_port_a := Some a, ep_port_b := Some b\<rparr>)"
proof -
  have "\<not> 254 \<le> length (port_name q s)" for s by (simp add: port_name_def)
  then have open_ok: "\<exists>p. tloe_mq_open (re_open env) True (port_name q s) role True = Inr p" for s role
    using assms by (auto simp: tloe_mq_open_def tloe_mq_alloc_and_init_def create_message_queue_def
        mq_suffixes_def relay_env_ok_def Let_def)
  obtain a b where "tloe_mq_open (re_open env) True (port_name q ''-a'') ''-slave'' True = Inr a"
    "tloe_mq_open (re_open env) True (port_name q ''-b'') ''-master'' True = Inr b"
    using open_ok by blast
  then show thesis using that [where a = a and b = b] assms by (simp add: thread_init_def relay_env_ok_def)
qed

lemma thread_fn_step_ok:
  assumes "relay_inv st" "relay_env_ok env"
  obtains st' where "thread_fn_step env q st = Inr st'" "relay_inv st'" "ns_is_done st' = ns_is_done st"
    "ns_thread st' \<noteq> Ns_Created"
proof (cases "ns_thread st")
  case Ns_None
  then show thesis using that [of st] assms by (simp add: thread_fn_step_def)
next
  case Ns_Created
  obtain a b where "thread_init env q st = Inr (st\<lparr>ep_port_a := Some a, ep_port_b := Some b\<rparr>)"
    by (rule thread_init_ok [OF assms(2)])
  then show thesis
    using that Ns_Created assms(1) by (simp add: thread_fn_step_def relay_inv_def)
next
  case Ns_Loop
  then have "relaying st" using assms(1) by (simp add: relay_inv_def relaying_def)
  from relaying_step [OF this, of env q] assms(2) show thesis
    using that Ns_Loop assms(1) by (simp add: relay_env_ok_def relay_inv_def)
qed

lemma thread_fn_ok:
  assumes "relay_inv st" "list_all relay_env_ok envs"
  obtains st' where "thread_fn envs q st = Inr st'" "relay_inv st'" "ns_is_done st' = ns_is_done st"
    "envs \<noteq> [] \<or> ns_thread st \<noteq> Ns_Created \<Longrightarrow> ns_thread st' \<noteq> Ns_Created"
proof -
  have "\<exists>st'. thread_fn envs q st = Inr st' \<and> relay_inv st' \<and> ns_is_done st' = ns_is_done st \<and>
      (envs \<noteq> [] \<or> ns_thread st \<noteq> Ns_Created \<longrightarrow> ns_thread st' \<noteq> Ns_Created)"
    using assms
  proof (induction envs arbitrary: st)
    case (Cons env envs)
    obtain st1 where "thread_fn_step env q st = Inr st1" "relay_inv st1" "ns_is_done st1 = ns_is_done st"
      "ns_thread st1 \<noteq> Ns_Created"
      using thread_fn_step_ok [OF Cons.prems(1), of env q] Cons.prems(2) by auto
    with Cons.IH [of st1] Cons.prems(2) show ?case by auto
  qed simp
  then show thesis using that by blast
qed

lemma thread_stop_ok:
  assumes "relay_inv st" "relay_env_ok env"
  obtains st' where "tloe_ns_thread_stop env q st = Inr st'" "relay_inv st'" "ns_is_done st'"
proof (cases "ns_thread st")
  case Ns_None
  then show thesis using that [of st] assms(1) by (simp add: tloe_ns_thread_stop_def relay_inv_def)
next
  case Ns_Created
  obtain a b where "thread_init env q (st\<lparr>ns_is_done := True\<rparr>) =
      Inr (st\<lparr>ns_is_done := True, ep_port_a := Some a, ep_port_b := Some b\<rparr>)"
    by (rule thread_init_ok [OF assms(2)])
  then show thesis
    using that Ns_Created assms(1)
    by (simp add: tloe_ns_thread_stop_def ns_join_def thread_fn_step_def relay_inv_def thread_close_def Let_def)
next
  case Ns_Loop
  then show thesis
    using that assms(1)
    by (simp add: tloe_ns_thread_stop_def ns_join_def thread_fn_step_def relay_inv_def thread_close_def Let_def)
qed

text \<open>A command keeps the state in order; the two ways to go wrong are a number that is too large and
  flushing before the thread opened its ports.\<close>

lemma set_count_ok:
  assumes "relay_inv st" "\<And>n s. relay_inv s \<Longrightarrow> relay_inv (f n s)" "\<And>n s. ns_is_done (f n s) = ns_is_done s"
    and "atoi (drop 2 cmd) = Inr n"
  shows "\<exists>st'. set_count f cmd st = Inr (st', False) \<and> relay_inv st' \<and> ns_is_done st' = ns_is_done st"
  using assms by (simp add: set_count_def)

lemma flush_cases:
  assumes "relay_inv st"
  shows "tloe_ns_flush_ports env st = Inl Null_Deref \<and> ns_thread st = Ns_Created \<or>
    (\<exists>r. tloe_ns_flush_ports env st = Inr r) \<and> ns_thread st \<noteq> Ns_Created"
  using assms by (cases "ns_thread st") (auto simp: relay_inv_def tloe_ns_flush_ports_def Let_def)

lemma relay_inv_control [simp]:
  "relay_inv st \<Longrightarrow> relay_inv (tloe_ns_thread_start True st)"
  "relay_inv st \<Longrightarrow> relay_inv (tloe_ns_set_drop_count_a_to_b n st)"
  "relay_inv st \<Longrightarrow> relay_inv (tloe_ns_set_drop_count_b_to_a n st)"
  "relay_inv st \<Longrightarrow> relay_inv (tloe_ns_set_drop_count_bidirectional n st)"
  by (auto simp: relay_inv_def ns_control_defs Let_def)

definition round_ok :: "ns_round \<Rightarrow> bool" where
  "round_ok r \<longleftrightarrow> list_all relay_env_ok (nr_thread r) \<and> nr_thread r \<noteq> [] \<and> nr_created r \<and>
     relay_env_ok (nr_join r)"

text \<open>The lines of the input as the program reads them.\<close>

function ns_lines :: "string \<Rightarrow> string list" where
  "ns_lines stdin = (case fgets MAX_CMD_LEN stdin of
     None \<Rightarrow> []
   | Some (line, rest) \<Rightarrow> strip_newline line # ns_lines rest)"
  by pat_completeness auto
termination
  by (relation "measure length") (auto dest: fgets_shorter(1))

declare ns_lines.simps [simp del]

text \<open>A line that sets a drop counter has a number that fits.\<close>

definition count_fits :: "string \<Rightarrow> bool" where
  "count_fits cmd \<longleftrightarrow> take 2 cmd \<in> {''a '', ''b '', ''w ''} \<longrightarrow> (\<exists>n. atoi (drop 2 cmd) = Inr n)"

text \<open>What the commands mean for the relay thread: whether it runs after the given lines.\<close>

definition after_command :: "string \<Rightarrow> bool \<Rightarrow> bool" where
  "after_command cmd r =
     (if cmd = ''s'' then \<not> r
      else if cmd \<in> {''start'', ''run'', ''r''} then True
      else if cmd \<in> {''stop'', ''halt'', ''h'', ''quit'', ''q''} then False else r)"

fun running :: "bool \<Rightarrow> string list \<Rightarrow> bool" where
  "running r [] = r"
| "running r (cmd # cmds) =
     (if cmd \<in> {''quit'', ''q''} then False else running (after_command cmd r) cmds)"

lemma ns_command_ok:
  assumes "relay_inv st" "round_ok r" "ns_thread st \<noteq> Ns_Created" "count_fits cmd"
  shows "\<exists>st'. ns_command r q cmd st = Inr (st', cmd \<in> {''quit'', ''q''}) \<and> relay_inv st' \<and>
    ns_is_done st' = (\<not> after_command cmd (\<not> ns_is_done st))"
proof -
  obtain st1 where st1: "tloe_ns_thread_stop (nr_join r) q st = Inr st1" "relay_inv st1" "ns_is_done st1"
    using thread_stop_ok [OF assms(1)] assms(2) by (auto simp: round_ok_def)
  have start: "relay_inv (tloe_ns_thread_start (nr_created r) st)"
    "\<not> ns_is_done (tloe_ns_thread_start (nr_created r) st)"
    using assms(1,2) by (simp_all add: round_ok_def) (simp add: tloe_ns_thread_start_def)
  obtain fl where fl: "tloe_ns_flush_ports (nr_flush r) st = Inr fl"
    using flush_cases [OF assms(1), of "nr_flush r"] assms(3) by blast
  have counts: "\<exists>st'. set_count f cmd st = Inr (st', False) \<and> relay_inv st' \<and> ns_is_done st' = ns_is_done st"
    if f: "f \<in> {tloe_ns_set_drop_count_a_to_b, tloe_ns_set_drop_count_b_to_a, tloe_ns_set_drop_count_bidirectional}"
      and c: "take 2 cmd \<in> {''a '', ''b '', ''w ''}" for f
  proof -
    have "\<exists>n. atoi (drop 2 cmd) = Inr n" using assms(4) c unfolding count_fits_def by blast
    then obtain n where "atoi (drop 2 cmd) = Inr n" by blast
    moreover have "ns_is_done (f n s) = ns_is_done s" "relay_inv s \<Longrightarrow> relay_inv (f n s)" for n s
      using f by (auto simp: ns_control_defs relay_inv_def)
    ultimately show ?thesis by (intro set_count_ok [OF assms(1)])
  qed
  define good :: "(relay \<times> bool) result \<Rightarrow> bool" where
    "good x \<longleftrightarrow> (\<exists>st'. x = Inr (st', cmd \<in> {''quit'', ''q''}) \<and> relay_inv st' \<and>
       ns_is_done st' = (\<not> after_command cmd (\<not> ns_is_done st)))" for x
  have if_good: "(c \<Longrightarrow> good x) \<Longrightarrow> (\<not> c \<Longrightarrow> good y) \<Longrightarrow> good (if c then x else y)" for c x y by simp
  have same: "good x" if "cmd \<notin> {''s'', ''start'', ''run'', ''r'', ''stop'', ''halt'', ''h'', ''quit'', ''q''}"
    "\<exists>st'. x = Inr (st', False) \<and> relay_inv st' \<and> ns_is_done st' = ns_is_done st" for x
  proof -
    have "after_command cmd r = r" "cmd \<notin> {''quit'', ''q''}" for r
      using that(1) by (simp_all add: after_command_def)
    then show ?thesis using that(2) by (simp add: good_def)
  qed
  have plain: "good (Inr (st, False))"
    if "cmd \<notin> {''s'', ''start'', ''run'', ''r'', ''stop'', ''halt'', ''h'', ''quit'', ''q''}"
    using same [OF that] assms(1) by blast
  have "good (ns_command r q cmd st)"
    unfolding ns_command_def Let_def tloe_ns_thread_is_done_def
  proof (intro if_good)
    assume "is_empty_command cmd"
    then have "cmd \<notin> {''s'', ''start'', ''run'', ''r'', ''stop'', ''halt'', ''h'', ''quit'', ''q''}"
      by (auto simp: is_empty_command_def isspace_def)
    then show "good (Inr (st, False))" by (rule plain)
  next
    assume "cmd = ''s''" "ns_is_done st"
    then show "good (Inr (tloe_ns_thread_start (nr_created r) st, False))"
      using start by (simp add: good_def after_command_def)
  next
    assume "cmd = ''s''" "\<not> ns_is_done st"
    then show "good (bindR (tloe_ns_thread_stop (nr_join r) q st) (\<lambda>st. Inr (st, False)))"
      using st1 by (simp add: good_def after_command_def)
  next
    assume "cmd = ''start'' \<or> cmd = ''run'' \<or> cmd = ''r''"
    then show "good (Inr (tloe_ns_thread_start (nr_created r) st, False))"
      using start by (auto simp: good_def after_command_def)
  next
    assume "cmd = ''stop'' \<or> cmd = ''halt'' \<or> cmd = ''h''"
    then show "good (bindR (tloe_ns_thread_stop (nr_join r) q st) (\<lambda>st. Inr (st, False)))"
      using st1 by (auto simp: good_def after_command_def)
  next
    assume "cmd = ''flush'' \<or> cmd = ''f''"
    then have "good (Inr (st, False))" by (intro plain) auto
    then show "good (bindR (tloe_ns_flush_ports (nr_flush r) st) (\<lambda>_. Inr (st, False)))" using fl by simp
  next
    assume "take 2 cmd = ''a ''"
    then show "good (set_count tloe_ns_set_drop_count_a_to_b cmd st)"
      using counts [of tloe_ns_set_drop_count_a_to_b] by (intro same) auto
  next
    assume "take 2 cmd = ''b ''"
    then show "good (set_count tloe_ns_set_drop_count_b_to_a cmd st)"
      using counts [of tloe_ns_set_drop_count_b_to_a] by (intro same) auto
  next
    assume "take 2 cmd = ''w ''"
    then show "good (set_count tloe_ns_set_drop_count_bidirectional cmd st)"
      using counts [of tloe_ns_set_drop_count_bidirectional] by (intro same) auto
  next
    assume "cmd = ''quit'' \<or> cmd = ''q''"
    then show "good (bindR (if \<not> ns_is_done st then tloe_ns_thread_stop (nr_join r) q st else Inr st)
        (\<lambda>st. Inr (st, True)))"
      using st1 assms(1) by (auto simp: good_def after_command_def)
  next
    assume "\<not> cmd = ''s''" "\<not> (cmd = ''start'' \<or> cmd = ''run'' \<or> cmd = ''r'')"
      "\<not> (cmd = ''stop'' \<or> cmd = ''halt'' \<or> cmd = ''h'')" "\<not> (cmd = ''quit'' \<or> cmd = ''q'')"
    then show "good (Inr (st, False))" by (intro plain) auto
  qed
  then show ?thesis by (simp add: good_def)
qed

lemma ns_loop_ok:
  assumes "relay_inv st" "\<And>k. round_ok (rounds k)" "list_all count_fits (ns_lines stdin)"
  shows "\<exists>st'. ns_loop rounds k q stdin st = Inr st' \<and> relay_inv st' \<and>
    ns_is_done st' = (\<not> running (\<not> ns_is_done st) (ns_lines stdin))"
  using assms
proof (induction rounds k q stdin st rule: ns_loop.induct)
  case (1 rounds k q stdin st)
  have r: "round_ok (rounds k)" by (rule "1.prems"(2))
  obtain st1 where st1: "thread_fn (nr_thread (rounds k)) q st = Inr st1" "relay_inv st1"
    "ns_is_done st1 = ns_is_done st" "ns_thread st1 \<noteq> Ns_Created"
    using thread_fn_ok [OF "1.prems"(1), of "nr_thread (rounds k)" q] r by (auto simp: round_ok_def)
  show ?case
  proof (cases "fgets 32 stdin")
    case None
    then show ?thesis using st1 by (subst ns_loop.simps, subst ns_lines.simps) simp
  next
    case (Some lr)
    obtain line rest where lr: "lr = (line, rest)" by (cases lr)
    let ?cmd = "strip_newline line"
    have lines: "ns_lines stdin = ?cmd # ns_lines rest" using Some lr by (subst ns_lines.simps) simp
    then have fits: "count_fits ?cmd" "list_all count_fits (ns_lines rest)" using "1.prems"(3) by simp_all
    from ns_command_ok [OF st1(2) r st1(4) fits(1), of q] obtain st2 where
      st2: "ns_command (rounds k) q ?cmd st1 = Inr (st2, ?cmd \<in> {''quit'', ''q''})" "relay_inv st2"
        "ns_is_done st2 = (\<not> after_command ?cmd (\<not> ns_is_done st1))" by blast
    have run: "ns_loop rounds k q stdin st =
        (if ?cmd \<in> {''quit'', ''q''} then Inr st2 else ns_loop rounds (Suc k) q rest st2)"
      using Some lr st1(1) st2(1) by (subst ns_loop.simps) simp
    show ?thesis
    proof (cases "?cmd \<in> {''quit'', ''q''}")
      case True
      then show ?thesis unfolding run lines using st2(2,3) by (auto simp: after_command_def)
    next
      case False
      then show ?thesis
        using "1.IH" [OF st1(1) Some lr [symmetric] st2(1) refl _ st2(2) "1.prems"(2) fits(2)] st1(3) st2(3)
        unfolding run lines by simp
    qed
  qed
qed

text \<open>A line with a count sets the counter.\<close>

lemma drop_command:
  assumes "0 < n" "n < 2147483648"
  shows "ns_command r q (''a '' @ decimal n) st = Inr (tloe_ns_set_drop_count_a_to_b (int n) st, False)"
    "ns_command r q (''b '' @ decimal n) st = Inr (tloe_ns_set_drop_count_b_to_a (int n) st, False)"
    "ns_command r q (''w '' @ decimal n) st = Inr (tloe_ns_set_drop_count_bidirectional (int n) st, False)"
  using atoi_decimal [OF assms(2)] assms(1)
  by (simp_all add: ns_command_def Let_def set_count_def is_empty_command_def isspace_def)

text \<open>Flushing right after the start follows a null pointer.\<close>

lemma flush_before_init:
  assumes "ns_is_done st" "ep_port_a st = None"
  shows "ns_command r q ''f'' (tloe_ns_thread_start True st) = Inl Null_Deref"
  using assms
  by (simp add: ns_command_def Let_def is_empty_command_def isspace_def tloe_ns_flush_ports_def
      tloe_ns_thread_start_def)

section \<open>Properties\<close>

text \<open>C23: A session of the simulator's command line.  For every input, as long as no number after \<open>a\<close>, \<open>b\<close>
  or \<open>w\<close> is too large for an \<open>int\<close>, the queues can be opened and threads can be created and get to run between
  the commands, the loop ends in order, whatever the sequence of the commands: no null pointer is
  followed and no thread is joined that is not there; and the relay runs at the end exactly if the
  meaning of the lines, up to the command to quit, says so, with its ports open.\<close>

theorem ns_session:
  assumes "\<And>k. round_ok (rounds k)" "list_all count_fits (ns_lines stdin)"
  shows "case parse_cli_argument opts of
      None \<Rightarrow> ns_main opts rounds stdin = Inr None
    | Some q \<Rightarrow> \<exists>st. ns_main opts rounds stdin = Inr (Some st) \<and> relay_inv st \<and>
        (ns_thread st = Ns_None \<longleftrightarrow> \<not> running False (ns_lines stdin))"
proof (cases "parse_cli_argument opts")
  case (Some q)
  obtain st where "ns_loop rounds 0 q stdin ns_initial = Inr st" "relay_inv st"
    "ns_is_done st = (\<not> running (\<not> ns_is_done ns_initial) (ns_lines stdin))"
    using ns_loop_ok [where st = ns_initial and rounds = rounds and k = 0 and stdin = stdin and q = q,
      OF relay_inv_initial assms] by blast
  moreover have "ns_is_done ns_initial" by (simp add: ns_initial_def)
  ultimately show ?thesis using Some by (auto simp: ns_main_def relay_inv_def)
qed (simp add: ns_main_def)

definition example_round :: ns_round where
  "example_round = \<lparr>nr_thread = [example_relay_env (2, [1, 2]) (-1, [])], nr_created = True,
     nr_join = example_relay_env (-1, []) (-1, []),
     nr_flush = \<lparr>fl_a_tx = \<lparr>fl_getattr = 0, fl_setattr = 0, fl_receive = [-1], fl_restore = 0\<rparr>,
       fl_a_rx = \<lparr>fl_getattr = 0, fl_setattr = 0, fl_receive = [-1], fl_restore = 0\<rparr>,
       fl_b_tx = \<lparr>fl_getattr = 0, fl_setattr = 0, fl_receive = [-1], fl_restore = 0\<rparr>,
       fl_b_rx = \<lparr>fl_getattr = 0, fl_setattr = 0, fl_receive = [-1], fl_restore = 0\<rparr>\<rparr>\<rparr>"

text \<open>Stopping, starting and stopping twice; the last line has no newline.\<close>

theorem ns_session_witness:
  "\<exists>st. ns_main [Ns_p ''q''] (\<lambda>_. example_round) (''h'' @ CHR 0x0A # ''s'' @ CHR 0x0A # ''h'' @ CHR 0x0A # ''h'') = Inr (Some st) \<and> relay_inv st \<and>
     ns_thread st = Ns_None"
proof -
  have r: "round_ok example_round"
    by (simp add: round_ok_def example_round_def relay_env_ok_def example_relay_env_def)
  let ?in = "''h'' @ CHR 0x0A # ''s'' @ CHR 0x0A # ''h'' @ CHR 0x0A # ''h''"
  have l: "ns_lines ?in = [''h'', ''s'', ''h'', ''h'']"
    by (simp add: ns_lines.simps fgets_def strip_newline_def numeral_eq_Suc)
  have "list_all count_fits (ns_lines ?in)" unfolding l by (simp add: count_fits_def)
  note s = ns_session [where rounds = "\<lambda>_. example_round" and opts = "[Ns_p ''q'']", OF r this, unfolded l]
  have "parse_cli_argument [Ns_p ''q''] = Some ''q''" by (simp add: parse_cli_argument_def)
  moreover have "\<not> running False [''h'', ''s'', ''h'', ''h'']" by (simp add: after_command_def)
  ultimately show ?thesis using s by auto
qed

end
