(* ===== verification/Drop_Sim.thy ===== *)
theory Drop_Sim
  imports Endpoint
begin

text \<open>
  The drop simulation of the builds with \<open>TEST_TIMEOUT_DROP\<close> or \<open>TEST_NORMAL_FRAME_DROP\<close>, \<open>tloe_nsm.c\<close>; the
  argument \<open>r\<close> is what \<open>rand\<close> returns.  In the default build the functions of \<open>tloe_nsm.h\<close> are used, which
  drop nothing (theory \<open>Transmitter\<close>).
\<close>

definition timeout_normal_frame_drop :: "int \<Rightarrow> endpoint \<Rightarrow> endpoint \<times> int" where
  "timeout_normal_frame_drop r e =
     (if master e \<noteq> 0 then (e, 0)
      else let e = (if drop_npacket_size e = 0 \<and> r mod 1000 = 0 then e\<lparr>drop_npacket_size := 4\<rparr> else e)
           in if 0 <s drop_npacket_size e
              then (e\<lparr>drop_npacket_cnt := drop_npacket_cnt e + 1,
                      drop_npacket_size := drop_npacket_size e - 1\<rparr>, 1)
              else (e, 0))"

definition single_normal_frame_drop :: "int \<Rightarrow> endpoint \<Rightarrow> endpoint \<times> int" where
  "single_normal_frame_drop r e =
     (if r mod 10000 \<noteq> 99 then (e, 0) else (e\<lparr>drop_cnt := drop_cnt e + 1\<rparr>, 1))"

text \<open>The decisions over a sequence of frames.\<close>

fun drop_run :: "int list \<Rightarrow> endpoint \<Rightarrow> endpoint \<times> int list" where
  "drop_run [] e = (e, [])"
| "drop_run (r # rs) e =
     (case timeout_normal_frame_drop r e of
        (e, d) \<Rightarrow> case drop_run rs e of (e, ds) \<Rightarrow> (e, d # ds))"

text \<open>A master never drops; a slave that starts to drop loses four frames in a row, whatever \<open>rand\<close> returns
  meanwhile.\<close>

lemma master_drops_nothing: "master e \<noteq> 0 \<Longrightarrow> drop_run rs e = (e, replicate (length rs) 0)"
  by (induction rs) (simp_all add: timeout_normal_frame_drop_def)

lemma drop_burst:
  assumes "master e = 0" "drop_npacket_size e = 0" "r mod 1000 = 0"
  shows "drop_run [r, r1, r2, r3] e = (e\<lparr>drop_npacket_cnt := drop_npacket_cnt e + 4, drop_npacket_size := 0\<rparr>,
    [1, 1, 1, 1])"
  using assms by (simp add: timeout_normal_frame_drop_def word_sless_alt)

lemma drop_counts:
  "single_normal_frame_drop r e = (e', d) \<Longrightarrow> drop_cnt e' = drop_cnt e + word_of_int d"
  by (auto simp: single_normal_frame_drop_def split: if_splits)

end
