(* ===== verification/Printing.thy ===== *)
theory Printing
  imports Endpoint C_Input
begin

text \<open>
  The texts of the programs, as functions of the state they show: the hex dump \<open>print_payload\<close> of
  \<open>tloe_endpoint.h\<close>, the status and credit reports of \<open>tloe_endpoint.c\<close>, the help texts, and
  \<open>printqueue\<close>.  None of them changes the state.
\<close>

section \<open>Conversions of printf\<close>

text \<open>\<open>%d\<close>.\<close>

definition int_text :: "int \<Rightarrow> string" where
  "int_text i = (if i < 0 then CHR ''-'' # decimal (nat (- i)) else decimal (nat i))"

text \<open>A counter or sequence number of the model, printed with \<open>%d\<close>: 32 bits read as an \<open>int\<close>.\<close>

abbreviation "d_text (w :: u32) \<equiv> int_text (sint w)"

definition hex_digit :: "bool \<Rightarrow> nat \<Rightarrow> char" where
  "hex_digit upper n = (if n < 10 then char_of (48 + n) else char_of ((if upper then 55 else 87) + n))"

text \<open>\<open>%x\<close>, and \<open>%02X\<close> for a byte.\<close>

fun hex_text :: "nat \<Rightarrow> string" where
  "hex_text n = (if n < 16 then [] else hex_text (n div 16)) @ [hex_digit False (n mod 16)]"

declare hex_text.simps [simp del]

definition hex02 :: "byte \<Rightarrow> string" where
  "hex02 b = [hex_digit True (unat b div 16), hex_digit True (unat b mod 16)]"

section \<open>The hex dump\<close>

text \<open>\<open>char\<close> is signed, so bytes from 128 on are negative and shown as a dot.\<close>

definition ascii_char :: "byte \<Rightarrow> char" where
  "ascii_char b = (if 32 \<le> sint b \<and> sint b < 128 then char_of (unat b) else CHR ''.'')"

abbreviation (input) "NL \<equiv> CHR 0x0A"
abbreviation (input) "TAB \<equiv> CHR 0x09"

definition ascii_from :: "byte list \<Rightarrow> nat \<Rightarrow> nat \<Rightarrow> string" where
  "ascii_from data a b = map (\<lambda>j. ascii_char (data ! j)) [a..<b]"

text \<open>The body of the loop, for the byte \<open>i\<close> of \<open>n\<close>.\<close>

definition payload_item :: "byte list \<Rightarrow> nat \<Rightarrow> nat \<Rightarrow> string" where
  "payload_item data n i =
     (if i \<noteq> 0 \<and> i mod 16 = 0 then TAB # ascii_from data (i - 16) i @ [NL] else []) @
     (if i mod 8 = 0 \<and> i mod 16 \<noteq> 0 then '' '' else '''') @
     '' '' @ hex02 (data ! i) @
     (if i = n - 1
      then concat (replicate (15 - i mod 16) ''   '') @ TAB # ascii_from data (i - i mod 16) (i + 1) @ [NL]
      else [])"

definition print_payload :: "byte list \<Rightarrow> int \<Rightarrow> string result" where
  "print_payload data n =
     (if int (length data) < n then Inl Out_Of_Bounds
      else Inr ([NL] @ concat (map (payload_item data (nat n)) [0..<nat n]) @ [NL]))"

section \<open>Reports\<close>

definition print_endpoint_status :: "endpoint \<Rightarrow> string" where
  "print_endpoint_status e =
     (let line = replicate 53 (CHR ''-'') @ [NL];
          fc = ep_fc e;
          cr = (\<lambda>c. d_text (credits fc ! c));
          flow = (\<lambda>c. ''['' @ d_text (inc_cnt fc ! c) @ '']['' @ d_text (dec_cnt fc ! c) @ ''][''
                   @ d_text (inc_value fc ! c) @ '']'')
      in line @ ''Sequence Numbers:'' @ [NL] @
         '' TX: '' @ d_text (next_tx_seq e) @ ''(0x'' @ hex_text (unat (next_tx_seq e)) @ ''), RX: '' @
         d_text (next_rx_seq e) @ ''(0x'' @ hex_text (unat (next_rx_seq e)) @ '')'' @ [NL, NL] @
         ''Packet Statistics:'' @ [NL] @
         '' ACK: '' @ d_text (ack_cnt e) @ '', Duplicate: '' @ d_text (dup_cnt e) @
         '', Out-of-Sequence: '' @ d_text (oos_cnt e) @ [NL] @
         '' Dropped: '' @ d_text (drop_cnt e) @ '' (Normal: '' @ d_text (drop_npacket_cnt e) @ '')'' @ [NL] @
         '' ACKONLY: '' @ d_text (ackonly_cnt e) @ [NL] @
         ''Channel Credits [0|A|B|C|D|E]: '' @ cr 0 @ ''|'' @ cr 1 @ ''|'' @ cr 2 @ ''|'' @ cr 3 @ ''|'' @
         cr 4 @ ''|'' @ cr 5 @ [NL] @
         '' Flow Control'' @ [NL] @
         '' [A]'' @ flow 1 @ ''    [D]'' @ flow 4 @ [NL, NL] @
         ''Buffer Drops:'' @ [NL] @
         '' TL Messages: '' @ d_text (drop_tlmsg_cnt e) @ '', Responses: '' @ d_text (drop_response_cnt e) @ [NL, NL] @
         ''Response count:'' @ [NL] @
         '' ACCESSACK: '' @ d_text (accessack_cnt e) @ '', ACCESSACK_DATA: '' @ d_text (accessackdata_cnt e) @
         [NL] @ line)"

definition print_credit_status :: "endpoint \<Rightarrow> string result" where
  "print_credit_status e =
     bindR (get_credit (ep_fc e) 1) (\<lambda>a. bindR (get_credit (ep_fc e) 2) (\<lambda>b.
     bindR (get_credit (ep_fc e) 3) (\<lambda>c. bindR (get_credit (ep_fc e) 4) (\<lambda>d.
     bindR (get_credit (ep_fc e) 5) (\<lambda>e.
       Inr (''Open connection is done. Credit '' @ int_text a @ '' | '' @ int_text b @ '' | '' @ int_text c @
            '' | '' @ int_text d @ '' | '' @ int_text e @ [NL]))))))"

text \<open>The usage of the endpoint, the usage of the simulator and its commands.\<close>

definition print_usage :: string where
  "print_usage = ''Usage: tloe_endpoint {-i<ethernet interface> -d<destination mac address> | -p<mq name>} {-m | -s}'' @ [NL]"

definition ns_print_usage :: "string \<Rightarrow> string" where
  "ns_print_usage prog_name =
     ''Usage: '' @ prog_name @ '' -p <queue_name>'' @ [NL] @
     ''Options:'' @ [NL] @
     ''  -p <queue_name>    Set the base name for message queues'' @ [NL]"

definition print_command_help :: string where
  "print_command_help = concat (map (\<lambda>l. l @ [NL])
     [''Available commands:'',
      ''  s               - Toggle tloe_ns thread (start/stop)'',
      ''  start, run, r   - Start tloe_ns thread'',
      ''  stop, halt, h   - Stop tloe_ns thread'',
      ''  flush, f        - Flush message queues'',
      ''  a <count>       - Drop next <count> requests from Port A to B'',
      ''  b <count>       - Drop next <count> requests from Port B to A'',
      ''  w <count>       - Drop next <count> requests bi-directionally'',
      ''  quit, q         - Quit program''])"

text \<open>\<open>printqueue\<close>: \<open>addr\<close> is what \<open>%p\<close> shows for a pointer.\<close>

definition printqueue :: "('a option \<Rightarrow> string) \<Rightarrow> 'a cqueue \<Rightarrow> string option" where
  "printqueue addr q =
     map_option (\<lambda>is. ''front: '' @ int_text (int (front q)) @ '', rear: '' @ int_text (int (rear q)) @ [NL] @
         concat (map (\<lambda>i. addr (cq_data q ! i) @ '' '') is) @ [NL])
       (cq_indices (cq_size q) (front q) (rear q))"

text \<open>\<open>queue_iter\<close>: an iterator at the front of the queue.  \<open>None\<close> is the null pointer of a failed
  allocation; without a queue the iterator is allocated and its fields are not set (\<open>Some None\<close>).\<close>

record 'a cqueue_iter =
  iter_q :: "'a cqueue"
  iter_next :: nat

definition queue_iter :: "bool \<Rightarrow> 'a cqueue option \<Rightarrow> 'a cqueue_iter option option" where
  "queue_iter alloc q =
     (if alloc then Some (map_option (\<lambda>q. \<lparr>iter_q = q, iter_next = front q\<rparr>) q) else None)"

section \<open>Lemmas\<close>

lemma printqueue_list:
  assumes "cq_inv q"
  shows "printqueue addr q = Some (''front: '' @ int_text (int (front q)) @ '', rear: '' @
    int_text (int (rear q)) @ [NL] @ concat (map (\<lambda>x. addr (Some x) @ '' '') (cq_list q)) @ [NL])"
proof -
  have "map (\<lambda>i. addr (cq_data q ! i) @ '' '') (map (cq_slot q) [0..<cq_count q]) =
      map (\<lambda>x. addr (Some x) @ '' '') (cq_list q)"
    unfolding cq_list_def map_map by (intro map_cong refl) (simp add: cq_slot_nth [OF assms])
  then show ?thesis by (simp only: printqueue_def cq_indices_all [OF assms] option.map)
qed

text \<open>What \<open>%d\<close> shows, \<open>atoi\<close> reads.\<close>

lemma atoi_int_text:
  assumes "0 \<le> i" "i < 2147483648"
  shows "atoi (int_text i) = Inr i"
  using atoi_decimal [of "nat i"] assms by (simp add: int_text_def)

section \<open>The dump row by row\<close>

text \<open>A row of up to 16 bytes: the bytes in hex, a gap before the ninth, blanks for the missing ones, and
  the bytes as characters.\<close>

definition hex_cell :: "nat \<Rightarrow> byte \<Rightarrow> string" where
  "hex_cell k b = (if k = 8 then '' '' else '''') @ '' '' @ hex02 b"

definition dump_row :: "byte list \<Rightarrow> string" where
  "dump_row r = concat (map (\<lambda>k. hex_cell k (r ! k)) [0..<length r]) @
     concat (replicate (16 - length r) ''   '') @ TAB # map ascii_char r @ [NL]"

definition chunk :: "byte list \<Rightarrow> nat \<Rightarrow> byte list" where
  "chunk data k = take 16 (drop (16 * k) data)"

definition dump :: "byte list \<Rightarrow> string" where
  "dump data = concat (map (\<lambda>k. dump_row (chunk data k)) [0..<(length data + 15) div 16])"

text \<open>How a row ends.\<close>

definition row_end :: "byte list \<Rightarrow> nat \<Rightarrow> string" where
  "row_end data k = TAB # map ascii_char (chunk data k) @ [NL]"

lemma ascii_from_chunk:
  assumes "m \<le> 16" "16 * k + m \<le> length data" "m = 16 \<or> 16 * k + m = length data"
  shows "ascii_from data (16 * k) (16 * k + m) = map ascii_char (chunk data k)"
proof (rule nth_equalityI)
  have l: "length (chunk data k) = m" using assms by (auto simp: chunk_def)
  then show "length (ascii_from data (16 * k) (16 * k + m)) = length (map ascii_char (chunk data k))"
    by (simp add: ascii_from_def)
  fix i
  assume "i < length (ascii_from data (16 * k) (16 * k + m))"
  then have i: "i < m" by (simp add: ascii_from_def)
  then show "ascii_from data (16 * k) (16 * k + m) ! i = map ascii_char (chunk data k) ! i"
    using l assms(1,2) by (simp add: ascii_from_def chunk_def)
qed

text \<open>One byte: the end of the row before comes with the first byte of the next, that of the last row with
  the last byte.\<close>

lemma payload_item_eq:
  assumes "m < 16" "16 * k + m < length data"
  shows "payload_item data (length data) (16 * k + m) =
    (if m = 0 \<and> k \<noteq> 0 then row_end data (k - 1) else []) @ hex_cell m (data ! (16 * k + m)) @
    (if 16 * k + Suc m = length data then concat (replicate (16 - Suc m) ''   '') @ row_end data k else [])"
proof -
  have e: "16 * k + m = m + k * 16" "16 * k + m = m + (2 * k) * 8" by simp_all
  have mods: "(16 * k + m) mod 16 = m" "(16 * k + m) mod 8 = m mod 8"
    using assms(1) by (simp only: e(1) mod_mult_self1 mod_less, simp only: e(2) mod_mult_self1)
  have gap: "m mod 8 = 0 \<and> m \<noteq> 0 \<longleftrightarrow> m = 8"
  proof
    assume "m mod 8 = 0 \<and> m \<noteq> 0"
    then obtain q where "m = 8 * q" "q \<noteq> 0" by auto
    then show "m = 8" using assms(1) by (cases q) auto
  qed simp
  have start: "(if 16 * k + m \<noteq> 0 \<and> m = 0 then TAB # ascii_from data (16 * k + m - 16) (16 * k + m) @ [NL] else []) =
      (if m = 0 \<and> k \<noteq> 0 then row_end data (k - 1) else [])"
  proof (cases "m = 0 \<and> k \<noteq> 0")
    case True
    then obtain j where "k = Suc j" by (cases k) auto
    then show ?thesis using ascii_from_chunk [of 16 j data] True assms(2) by (simp add: row_end_def add.commute)
  qed auto
  have final: "(if 16 * k + m = length data - 1
      then concat (replicate (15 - m) ''   '') @ TAB # ascii_from data (16 * k + m - m) (16 * k + m + 1) @ [NL] else []) =
      (if 16 * k + Suc m = length data then concat (replicate (16 - Suc m) ''   '') @ row_end data k else [])"
  proof (cases "16 * k + Suc m = length data")
    case True
    then have "ascii_from data (16 * k) (16 * k + Suc m) = map ascii_char (chunk data k)"
      using assms by (intro ascii_from_chunk) simp_all
    moreover have "16 * k + m = length data - 1" using True by linarith
    moreover have "15 - m = 16 - Suc m" "16 * k + m - m = 16 * k" "16 * k + m + 1 = 16 * k + Suc m" by simp_all
    ultimately show ?thesis using True by (simp only: row_end_def refl if_True append_Cons append_Nil)
  next
    case False
    moreover have "16 * k + m \<noteq> length data - 1" using False assms(2) by linarith
    ultimately show ?thesis by (simp only: if_False)
  qed
  show ?thesis
    unfolding payload_item_def mods gap start final hex_cell_def by simp
qed

lemma row_items:
  assumes "m \<le> 16" "16 * k + m \<le> length data"
  shows "concat (map (payload_item data (length data)) [16 * k..<16 * k + m]) =
    (if m \<noteq> 0 \<and> k \<noteq> 0 then row_end data (k - 1) else []) @
    concat (map (\<lambda>j. hex_cell j (data ! (16 * k + j))) [0..<m]) @
    (if m \<noteq> 0 \<and> 16 * k + m = length data then concat (replicate (16 - m) ''   '') @ row_end data k else [])"
  using assms
proof (induction m)
  case (Suc m)
  then have "payload_item data (length data) (16 * k + m) =
    (if m = 0 \<and> k \<noteq> 0 then row_end data (k - 1) else []) @ hex_cell m (data ! (16 * k + m)) @
    (if 16 * k + Suc m = length data then concat (replicate (16 - Suc m) ''   '') @ row_end data k else [])"
    by (intro payload_item_eq) simp_all
  moreover have "[16 * k..<16 * k + Suc m] = [16 * k..<16 * k + m] @ [16 * k + m]" by simp
  ultimately show ?case using Suc by simp
qed simp

lemma dump_row_chunk:
  assumes "m \<le> 16" "16 * k + m \<le> length data" "m = 16 \<or> 16 * k + m = length data"
  shows "dump_row (chunk data k) = concat (map (\<lambda>j. hex_cell j (data ! (16 * k + j))) [0..<m]) @
    concat (replicate (16 - m) ''   '') @ row_end data k"
proof -
  have l: "length (chunk data k) = m" using assms by (auto simp: chunk_def)
  have "map (\<lambda>j. hex_cell j (chunk data k ! j)) [0..<m] = map (\<lambda>j. hex_cell j (data ! (16 * k + j))) [0..<m]"
    using assms(1,2) by (intro map_cong refl) (simp add: chunk_def)
  then have "concat (map (\<lambda>j. hex_cell j (chunk data k ! j)) [0..<m]) =
      concat (map (\<lambda>j. hex_cell j (data ! (16 * k + j))) [0..<m])" by (rule arg_cong)
  then show ?thesis by (simp only: dump_row_def l row_end_def)
qed

lemma full_rows:
  assumes "16 * k < length data"
  shows "concat (map (payload_item data (length data)) [0..<16 * k]) @ (if k \<noteq> 0 then row_end data (k - 1) else []) =
    concat (map (\<lambda>k. dump_row (chunk data k)) [0..<k])"
  using assms
proof (induction k)
  case (Suc k)
  have "[0..<16 * Suc k] = [0..<16 * k] @ [16 * k..<16 * k + 16]"
    using upt_add_eq_append [of 0 "16 * k" 16] by (simp add: add.commute)
  then show ?case
    using Suc row_items [of 16 k data] dump_row_chunk [of 16 k data] by auto
qed simp

text \<open>The hex dump.  The single loop of \<open>print_payload\<close>, which prints the end of a row along with the
  first byte of the next one or with the last byte of all, prints exactly the rows of the dump: 16 bytes
  each in hex with a gap in the middle, blanks for the bytes that the last row lacks, and the bytes
  again as characters.\<close>

lemma print_payload_dump:
  "print_payload data (int (length data)) = Inr ([NL] @ dump data @ [NL])"
proof (cases "data = []")
  case False
  let ?k = "(length data - 1) div 16"
  let ?m = "length data - 16 * ?k"
  have pos: "0 < length data" using False by simp
  then have k: "16 * ?k < length data" "16 * ?k + ?m = length data" "?m \<noteq> 0" by linarith+
  have m: "?m \<le> 16" using pos by linarith
  have "(length data + 15) div 16 = Suc ?k" using pos by linarith
  then have "dump data = concat (map (\<lambda>k. dump_row (chunk data k)) [0..<?k]) @ dump_row (chunk data ?k)"
    by (simp add: dump_def)
  also have "\<dots> = concat (map (payload_item data (length data)) [0..<16 * ?k]) @
      concat (map (payload_item data (length data)) [16 * ?k..<16 * ?k + ?m])"
    using full_rows [OF k(1)] row_items [OF m, of ?k data] dump_row_chunk [OF m, of ?k data] k
    by auto
  also have "\<dots> = concat (map (payload_item data (length data)) [0..<length data])"
    unfolding k(2) map_append [symmetric] concat_append [symmetric]
    using upt_add_eq_append [of 0 "16 * ?k" ?m] k(2) by simp
  finally show ?thesis by (simp add: print_payload_def)
qed (simp add: print_payload_def dump_def)

end
