(* ===== verification/Spec2Isabelle.thy ===== *)
theory Spec2Isabelle
  imports Tx_Outcome Session Ns_Link Drivers Program Ns_Main Drop_Sim Printing
begin

text \<open>
  A model of the OmniXtend endpoint of \<open>src/omnixtend-c\<close>: TileLink over Ethernet (TLoE), with
  sequence numbers, cumulative acknowledgements and go-back-N retransmission, credit based flow
  control per channel, a memory behind it, and the program around it.

  \<^bold>\<open>The parts and how they interact.\<close>  A user command puts TileLink messages into the message
  buffer.  The endpoint thread takes a message (\<open>select_buffer\<close>), sends it in a frame (\<open>TX\<close>), receives
  at most one packet (\<open>RX\<close>), serves at most one received message (\<open>tl_handler\<close>), whose answer goes to
  the response buffer, and credits the flits of the served message (\<open>add_channel_flow_credits\<close>).
  Frames stay in the retransmit buffer until they are acknowledged; what has to be acknowledged waits
  in the ack buffer for the next frame.  Before and after, the main thread opens and closes the
  connection with loops of its own.

  \<^bold>\<open>Theories.\<close>
  \<^item> \<open>OX_Prelude\<close>: errors as values (\<open>c_error\<close>, \<open>result\<close>), bytes, words and their layout in memory.
  \<^item> \<open>Circular_Queue\<close>: \<open>util/circular_queue.c\<close>.  The struct with its slots, and the abstraction
    \<open>cq_list\<close>, for which the ring is a bounded queue (locale \<open>bounded_queue\<close>).
  \<^item> \<open>Tilelink_Msg\<close>, \<open>Tloe_Frame\<close>: \<open>tilelink_msg.c\<close> and \<open>tloe_frame.c\<close>.  Bit fields as records with
    the packing into the 64-bit word, sizes, messages in frames, frames in packets; the sizes against
    the table of the messages by name (\<open>opcode_table\<close>).
  \<^item> \<open>Seq_Num\<close>: the arithmetic of \<open>tloe_seq_mgr.c\<close>.  \<open>seq_of n\<close> is the number of the frame with index
    \<open>n\<close>, which relates the 22-bit numbers to the order of the frames.
  \<^item> \<open>Flowcontrol\<close>: \<open>flowcontrol.c\<close>, and a ledger per channel that it implements (\<open>ledger_of\<close>); \<open>Timeout\<close>: \<open>timeout.c\<close>, with the order of
    time (\<open>timespec\<close> as an instance of \<open>linorder\<close>) for which a timeout, once reached, stays.
  \<^item> \<open>Endpoint\<close>: \<open>tloe_endpoint_t\<close>, its initialisation, the fabric (\<open>tloe_fabric.c\<close>) and the updates
    of the sequence numbers.  The field \<open>wire\<close> is a ghost: the packets handed to the driver so far.
  \<^item> \<open>Retransmission\<close>, \<open>Window\<close>: \<open>retransmission.c\<close>, the invariant \<open>ep_wf\<close> of an endpoint, and the
    window as a list of frames with consecutive numbers.
  \<^item> \<open>Transmitter\<close>, \<open>Receiver\<close>: \<open>tloe_transmitter.c\<close> and \<open>tloe_receiver.c\<close>, with the outcome of
    every path (\<open>tx_result\<close>, \<open>rx_result\<close>).  \<open>Tx_Outcome\<close>: what \<open>TX\<close> does, exactly, packet by packet
    (\<open>tx_exact\<close>), also without memory for the element of the retransmit buffer.
  \<^item> \<open>Tilelink_Handler\<close>: \<open>tilelink_handler.c\<close>, and the abstract memory (\<open>tl_effect\<close>) it implements
    (locale \<open>byte_store\<close>).
  \<^item> \<open>Connection\<close>: \<open>tloe_connection.c\<close>.  \<open>polls\<close> says that the iterations of a loop receive the given
    packets, in whatever rhythm; \<open>offerings\<close> lists, from the readings of the clock, when a side offers
    credit.  The handshake joins the two loops: each receives what the other has sent.
  \<^item> \<open>Endpoint_Main\<close>: \<open>tloe_endpoint.c\<close>: the thread with its invariant (\<open>thread_inv\<close>), the commands, the
    command line.
  \<^item> \<open>C_Input\<close>, \<open>Program\<close>: what the programs use of the C library to read commands; the command loop of
    \<open>main\<close> in \<open>tloe_endpoint.c\<close> and the end of the program.
  \<^item> \<open>Mq\<close>, \<open>Ether\<close>: the two drivers \<open>tloe_mq.c\<close> and \<open>tloe_ether.c\<close>.  The answers of the kernel are
    arguments; the framing, the names and the order of the calls are the code's.
  \<^item> \<open>Drivers\<close>: the wrapper functions of \<open>tloe_fabric.c\<close> and the calls through its function pointers,
    with the conversions of the results.  Both drivers keep the contract of the locale
    \<open>packet_driver\<close>, so that an endpoint does the same behind either.
  \<^item> \<open>Ns_Thread\<close>, \<open>Ns_Main\<close>: the network simulator, \<open>tloe_ns_thread.c\<close> and \<open>tloe_ns.c\<close>: the relay between
    two ports with its drop counters, its control, and the command line, whose loop ends in order for every input with counts that fit an
    \<open>int\<close>; \<open>running\<close> says of the lines of the input whether the relay runs after them.
  \<^item> \<open>Drop_Sim\<close>: the drop simulation of special builds, \<open>tloe_nsm.c\<close>.
  \<^item> \<open>Link\<close>: two endpoints over a network that loses packets.  The phases of the endpoint thread are the
    steps (\<open>iteration_is_run\<close>); the invariant \<open>direction\<close> relates the window of the sender, the expected
    number of the receiver and every packet and acknowledgement on the way, and gives in-order
    delivery.
  \<^item> \<open>Progress\<close>: the link is never stuck.  From every state it reaches, the timeout, the retransmission and
    a reception deliver the next outstanding message.

  \<^item> \<open>Session\<close>: from the start of two programs through their commands \<open>c\<close> to the link, on which the packets
    of the handshake that nobody waited for are still on their way.  The master's last frame is sent
    once; in every run messages are delivered in order, and as long as the frame does not arrive
    nothing is delivered at all.
  \<^item> \<open>Ns_Link\<close>: two endpoints joined by the simulator's relay and its kernel queues.  Each step of the
    composed system is a sequence of steps of the lossy network of \<open>Link\<close> (a simulation with the
    abstraction \<open>ns_abs\<close>), which carries the in-order delivery over.
  \<^item> \<open>Printing\<close>: the texts the programs print, as functions of the state they show.

  \<^bold>\<open>Conventions.\<close>  A function that can fail returns \<open>Inl\<close> with the error: an access outside a block or
  an array (\<open>Out_Of_Bounds\<close>), a null pointer, an undefined shift, a failed \<open>BUG_ON\<close> or an exit, or waiting
  for something that does not come (\<open>Blocked\<close>).  \<open>unsigned int\<close> and the sequence numbers are 32-bit
  words, statistics counters wrap, bit fields are words of their width.  Inputs from outside are
  arguments: readings of the clock, the success of allocations, what the driver received, the
  contents of uninitialised variables.  Printing changes no state: the texts are
  functions of their own (\<open>Printing\<close>), and only the answers to reads are part of the state (\<open>printed\<close>).  The host is little-endian with 64-bit pointers, as the bit fields of the code require.

  \<^bold>\<open>Loops.\<close>  The loops over the retransmit buffer are partial functions; they are proved to end for
  every well-formed window.  The receiver's mask loop recurses on the mask with a termination proof.
  The endless loops (the thread, the connection loops) consume a list of inputs and are \<open>Blocked\<close>, or stop
  in the state reached, when the list ends.

  The loop of the simulator's \<open>main\<close> recurses on the input that is left, with a termination proof.

  \<^bold>\<open>Not modelled.\<close>  The concurrency of the two threads beyond their interleaving at the granularity of
  commands and iterations; the kernel behind the drivers, whose answers are inputs; the short messages
  that the steps print on the way; \<open>handle_ack_packet_drop\<close>, which does not compile; the Lua and document parts of the
  repository.
\<close>

end
